(* ===== verification/Prelude.thy ===== *)
theory Prelude
  imports Main "HOL-Library.Word" "HOL-Library.Multiset"
begin

text \<open>
  Shared vocabulary of the development.

  \<^item> Time: \<open>std::chrono::steady_clock\<close> counts nanoseconds in a signed 64-bit integer. A duration
    or a time point is its tick count, an \<open>int\<close>; the sums that the library itself writes
    (\<open>clock_type::now() + timeout\<close>) go through \<open>tick_add\<close>, which writes the two's
    complement wrap-around out. C++ leaves a signed overflow undefined; the lemmas separate the
    representable case (the sum is exact) from the overflowing one.
  \<^item> Errors: \<open>boost::system::error_code\<close> is the datatype \<open>error_code\<close> with one constructor
    per named code the library tests or produces; its conversion to \<open>bool\<close> is \<open>is_error\<close>.
    Thrown exceptions are values of \<open>exn\<close>, and a call that may throw returns a sum with the
    exception on the left.
  \<^item> Boost.Asio is not part of the repository: what the library takes from it as a value is a field
    of the record \<open>asio\<close>, an argument of every definition that uses it.
\<close>

named_theorems time_simps
named_theorems ec_simps

section \<open>Time\<close>

type_synonym tick = int

definition tick_max :: tick where
  "tick_max = 2 ^ 63 - 1"

definition tick_min :: tick where
  "tick_min = - (2 ^ 63)"

definition representable :: "int \<Rightarrow> bool" where
  "representable x \<longleftrightarrow> tick_min \<le> x \<and> x \<le> tick_max"

definition wrap64 :: "int \<Rightarrow> tick" where
  "wrap64 x = (x + 2 ^ 63) mod 2 ^ 64 - 2 ^ 63"

definition tick_add :: "tick \<Rightarrow> tick \<Rightarrow> tick" where
  "tick_add a b = wrap64 (a + b)"

definition tick_sub :: "tick \<Rightarrow> tick \<Rightarrow> tick" where
  "tick_sub a b = wrap64 (a - b)"

lemmas tick_defs = tick_max_def tick_min_def representable_def wrap64_def tick_add_def tick_sub_def

lemma wrap64_exact [time_simps]: "representable x \<Longrightarrow> wrap64 x = x"
  by (simp add: representable_def tick_min_def tick_max_def wrap64_def)

lemma representable_wrap64: "representable (wrap64 x)"
proof -
  have "0 \<le> (x + 2 ^ 63) mod 2 ^ 64" and "(x + 2 ^ 63) mod 2 ^ 64 < (2 ^ 64 :: int)"
    by simp_all
  then show ?thesis
    by (simp add: representable_def tick_min_def tick_max_def wrap64_def)
qed

lemma tick_add_exact [time_simps]: "representable (a + b) \<Longrightarrow> tick_add a b = a + b"
  by (simp add: tick_add_def wrap64_exact)

lemma tick_sub_exact [time_simps]: "representable (a - b) \<Longrightarrow> tick_sub a b = a - b"
  by (simp add: tick_sub_def wrap64_exact)

lemma tick_add_overflow:
  assumes "0 < a" and "a \<le> tick_max"
  shows "tick_add a tick_max = a - 1 - 2 ^ 63"
proof -
  have "(a + (2 ^ 63 - 1) + 2 ^ 63) mod 2 ^ 64 = (a - 1 + 2 ^ 64) mod (2 ^ 64 :: int)"
    by (simp add: algebra_simps)
  also have "\<dots> = a - 1"
    using assms by (subst mod_add_self2) (simp add: tick_max_def)
  finally show ?thesis
    by (simp add: tick_add_def wrap64_def tick_max_def)
qed

lemma tick_max_pos [simp]: "0 < tick_max"
  by (simp add: tick_max_def)

section \<open>Error codes and exceptions\<close>

text \<open>
  \<open>Ssl_code\<close> is a code of the OpenSSL category, \<open>Other_code\<close> one of any category the
  library never looks into (system, netdb, HTTP parser); both carry the numeric value, and 0 is
  not an error in any category.
\<close>

datatype error_code =
    Success
  | Would_block
  | Try_again
  | Timed_out
  | Operation_aborted
  | Not_connected
  | Not_found
  | Eof
  | Buffer_overflow
  | End_of_stream
  | Need_more
  | Ssl_code int
  | Other_code int

fun is_error :: "error_code \<Rightarrow> bool" where
  "is_error Success = False"
| "is_error (Ssl_code v) = (v \<noteq> 0)"
| "is_error (Other_code v) = (v \<noteq> 0)"
| "is_error _ = True"

datatype exn =
    System_error error_code string
  | Runtime_error string
  | Bad_alloc
  | Length_error

text \<open>
  Every throwing overload of the library has the same shape: run the \<open>error_code\<close> overload, throw
  \<open>boost::system::system_error\<close> when the code is set, return the value otherwise.
\<close>

definition throw_if_error :: "string \<Rightarrow> error_code \<Rightarrow> 'a \<Rightarrow> exn + 'a" where
  "throw_if_error what ec v = (if is_error ec then Inl (System_error ec what) else Inr v)"

lemma throw_if_error_Inr [ec_simps]:
  "throw_if_error what ec v = Inr w \<longleftrightarrow> \<not> is_error ec \<and> w = v"
  by (auto simp: throw_if_error_def)

lemma throw_if_error_Inl [ec_simps]:
  "throw_if_error what ec v = Inl x \<longleftrightarrow> is_error ec \<and> x = System_error ec what"
  by (auto simp: throw_if_error_def)

section \<open>Strings\<close>

text \<open>\<open>std::to_string\<close> of an unsigned number.\<close>

fun to_string :: "nat \<Rightarrow> string" where
  "to_string n = (if n < 10 then [char_of (48 + n)] else to_string (n div 10) @ [char_of (48 + n mod 10)])"

declare to_string.simps [simp del]

section \<open>What the library takes from Boost.Asio\<close>

text \<open>
  \<^item> \<open>time_add\<close>: the expiry that \<open>basic_waitable_timer::expires_from_now(d)\<close> computes from
    the clock reading and \<open>d\<close>;
  \<^item> \<open>try_again\<close>: the value of \<open>boost::asio::error::try_again\<close>, which is the value of
    \<open>would_block\<close> where the platform has \<open>EAGAIN = EWOULDBLOCK\<close> (Linux).
\<close>

record asio =
  time_add :: "tick \<Rightarrow> tick \<Rightarrow> tick"
  try_again :: error_code

text \<open>
  The two facts the library relies on: the infinite duration puts the expiry at the end of time,
  and a sum that fits is the sum.
\<close>

definition timer_saturates :: "asio \<Rightarrow> bool" where
  "timer_saturates A \<longleftrightarrow> (\<forall>t. 0 \<le> t \<longrightarrow> time_add A t tick_max = tick_max)"

definition timer_exact :: "asio \<Rightarrow> bool" where
  "timer_exact A \<longleftrightarrow> (\<forall>t d. 0 \<le> t \<and> 0 \<le> d \<and> t + d \<le> tick_max \<longrightarrow> time_add A t d = t + d)"

definition linux_asio :: asio where
  "linux_asio = \<lparr>time_add = (\<lambda>t d. min tick_max (t + d)), try_again = Would_block\<rparr>"

definition posix_asio :: asio where
  "posix_asio = \<lparr>time_add = (\<lambda>t d. min tick_max (t + d)), try_again = Try_again\<rparr>"

lemma linux_asio_saturates [simp]: "timer_saturates linux_asio"
  by (simp add: timer_saturates_def linux_asio_def)

lemma posix_asio_saturates [simp]: "timer_saturates posix_asio"
  by (simp add: timer_saturates_def posix_asio_def)

lemma linux_asio_exact [simp]: "timer_exact linux_asio"
  by (simp add: timer_exact_def linux_asio_def)

lemma posix_asio_exact [simp]: "timer_exact posix_asio"
  by (simp add: timer_exact_def posix_asio_def)

end
