(* ===== verification/Timed_Base.thy ===== *)
theory Timed_Base
  imports Prelude
begin

text \<open>
  The base class with timeout handling (\<open>detail/timed_base.hpp\<close>) and the blocking wait that every
  socket and the resolver build on it:
  \<^verbatim>\<open>ec = would_block; async_op(..., handler); while (ec == would_block) io_service.run_one();\<close>

  The state of a \<open>timed_base\<close> is the record below. The timer is its expiry; \<open>wait_posted\<close> says
  that the \<open>async_wait\<close> of \<open>post_deadline\<close> is outstanding; \<open>io_stopped\<close> is the stopped flag of the
  owned \<open>io_service\<close>. One call of \<open>run_one\<close> runs one ready handler: what Boost.Asio has ready is an
  input, the list of events: the timer's wait handler runs, or the pending operation completes.
  Each event carries the clock readings made while it runs. An exhausted list means that
  \<open>run_one\<close> blocks for ever, and the wait then has no result (\<open>None\<close>).
\<close>

section \<open>State, constants, the RAII expiration\<close>

record timed_base =
  deadline_fired :: bool
  timer_expiry :: tick
  wait_posted :: bool
  io_stopped :: bool

definition kInfiniteDuration :: tick where
  "kInfiniteDuration = tick_max"

definition kZeroDuration :: tick where
  "kZeroDuration = 0"

definition kDurationResolution :: tick where
  "kDurationResolution = 1000"

definition kMinTimeout :: tick where
  "kMinTimeout = 2 * kDurationResolution"

text \<open>The pointer \<open>timer_\<close> of an \<open>expiration\<close>: null, or the owner's timer.\<close>

datatype expiration = Null_timer | Timer

text \<open>\<open>~expiration()\<close>: a non-null handle puts the expiry back to infinity.\<close>

definition expiration_dtor ::
  "asio \<Rightarrow> tick \<Rightarrow> expiration \<Rightarrow> 'a timed_base_scheme \<Rightarrow> 'a timed_base_scheme" where
  "expiration_dtor A now e s =
     (case e of Null_timer \<Rightarrow> s | Timer \<Rightarrow> s\<lparr>timer_expiry := time_add A now kInfiniteDuration\<rparr>)"

text \<open>
  \<open>expiration(timer, duration)\<close> delegates to \<open>expiration(timer)\<close>, so the object is complete when
  the body throws and its destructor runs during unwinding.
\<close>

definition expiration_duration ::
  "asio \<Rightarrow> tick \<Rightarrow> expiration \<Rightarrow> tick \<Rightarrow> 'a timed_base_scheme
     \<Rightarrow> (exn + expiration) \<times> 'a timed_base_scheme" where
  "expiration_duration A now timer duration s =
     (if duration < kDurationResolution then
        (Inl (System_error Timed_out ''''), expiration_dtor A now timer s)
      else if duration = kInfiniteDuration then (Inr Null_timer, s)
      else (case timer of
              Timer \<Rightarrow> (Inr Timer, s\<lparr>timer_expiry := time_add A now duration\<rparr>)
            | Null_timer \<Rightarrow> (Inr Null_timer, s)))"

definition expiration_deadline ::
  "expiration \<Rightarrow> tick \<Rightarrow> 'a timed_base_scheme \<Rightarrow> (exn + expiration) \<times> 'a timed_base_scheme" where
  "expiration_deadline timer deadline s =
     (case timer of
        Timer \<Rightarrow> (Inr Timer, s\<lparr>timer_expiry := deadline\<rparr>)
      | Null_timer \<Rightarrow> (Inr Null_timer, s))"

text \<open>Move: the destination takes the pointer and the source is left null.\<close>

definition expiration_move :: "expiration \<Rightarrow> expiration \<times> expiration" where
  "expiration_move other = (other, Null_timer)"

text \<open>
  Copy: both handles keep the pointer. The one destroyed first clears the deadline of the other.
\<close>

definition expiration_copy :: "expiration \<Rightarrow> expiration \<times> expiration" where
  "expiration_copy other = (other, other)"

section \<open>Operations of the class\<close>

definition post_deadline :: "'a timed_base_scheme \<Rightarrow> 'a timed_base_scheme" where
  "post_deadline s = s\<lparr>wait_posted := True\<rparr>"

definition timed_base_ctor :: "asio \<Rightarrow> tick \<Rightarrow> 'a \<Rightarrow> 'a timed_base_scheme" where
  "timed_base_ctor A now m =
     post_deadline
       \<lparr>deadline_fired = False, timer_expiry = time_add A now kInfiniteDuration,
        wait_posted = False, io_stopped = False, \<dots> = m\<rparr>"

definition timed_base_dtor :: "'a timed_base_scheme \<Rightarrow> 'a timed_base_scheme" where
  "timed_base_dtor s = s\<lparr>io_stopped := True\<rparr>"

datatype time_arg = Duration tick | Time_point tick

text \<open>\<open>scope_expire\<close> is a template over the type of its argument: a duration or a time point.\<close>

definition scope_expire ::
  "asio \<Rightarrow> tick \<Rightarrow> time_arg \<Rightarrow> 'a timed_base_scheme
     \<Rightarrow> (exn + expiration) \<times> 'a timed_base_scheme" where
  "scope_expire A now arg s =
     (let s' = s\<lparr>deadline_fired := False\<rparr> in
      case arg of
        Duration d \<Rightarrow> expiration_duration A now Timer d s'
      | Time_point t \<Rightarrow> expiration_deadline Timer t s')"

text \<open>
  \<open>check_deadline\<close> reads the clock (\<open>now\<close>) to compare it with the expiry, and once more
  (\<open>now'\<close>) inside \<open>expires_from_now\<close>. The virtual \<open>deadline_actor\<close> is an argument.
\<close>

definition check_deadline ::
  "asio \<Rightarrow> ('a timed_base_scheme \<Rightarrow> 'a timed_base_scheme) \<Rightarrow> tick \<Rightarrow> tick
     \<Rightarrow> 'a timed_base_scheme \<Rightarrow> 'a timed_base_scheme" where
  "check_deadline A deadline_actor now now' s =
     post_deadline
       (if timer_expiry s \<le> now then
          (deadline_actor s)\<lparr>deadline_fired := True,
             timer_expiry := time_add A now' kInfiniteDuration\<rparr>
        else s)"

section \<open>The blocking wait\<close>

datatype 'r io_event =
    Deadline tick tick
  | Completed tick error_code 'r

text \<open>
  The handler of an operation gets \<open>deadline_fired_\<close>, the error and the result of the operation,
  and updates the caller's \<open>ec\<close> and locals. \<open>e\<close> is the expiration that the handler object owns: it
  is destroyed with the handler once that has run (\<open>Null_timer\<close> when the handler owns none). A
  stopped \<open>io_service\<close> makes \<open>run_one\<close> return at once without running anything, for ever.
\<close>

fun io_run ::
  "asio \<Rightarrow> ('a timed_base_scheme \<Rightarrow> 'a timed_base_scheme)
     \<Rightarrow> (bool \<Rightarrow> error_code \<Rightarrow> 'r \<Rightarrow> 'l \<Rightarrow> error_code \<times> 'l) \<Rightarrow> expiration
     \<Rightarrow> 'r io_event list \<Rightarrow> error_code \<Rightarrow> 'l \<Rightarrow> 'a timed_base_scheme
     \<Rightarrow> (error_code \<times> 'l \<times> 'a timed_base_scheme \<times> 'r io_event list) option" where
  "io_run A actor h e [] ec l s =
     (if ec \<noteq> Would_block then Some (ec, l, s, []) else None)"
| "io_run A actor h e (Deadline now now' # es) ec l s =
     (if ec \<noteq> Would_block then Some (ec, l, s, Deadline now now' # es)
      else if io_stopped s then None
      else io_run A actor h e es ec l (check_deadline A actor now now' (s\<lparr>wait_posted := False\<rparr>)))"
| "io_run A actor h e (Completed now err r # es) ec l s =
     (if ec \<noteq> Would_block then Some (ec, l, s, Completed now err r # es)
      else if io_stopped s then None
      else (case h (deadline_fired s) err r l of
              (ec', l') \<Rightarrow> io_run A actor h Null_timer es ec' l' (expiration_dtor A now e s)))"

text \<open>The handlers all map the error the same way: \<open>timed_out\<close> when the deadline has fired.\<close>

definition completion_code :: "bool \<Rightarrow> error_code \<Rightarrow> error_code" where
  "completion_code fired err = (if fired then Timed_out else err)"

section \<open>What a wait sees of its events\<close>

text \<open>
  The specification side: does the wait handler find the expiry \<open>x\<close> reached before the operation
  completes, and what is the first completion.
\<close>

fun deadline_hit :: "tick \<Rightarrow> 'r io_event list \<Rightarrow> bool" where
  "deadline_hit x [] = False"
| "deadline_hit x (Deadline now now' # es) = (x \<le> now \<or> deadline_hit x es)"
| "deadline_hit x (Completed now err r # es) = False"

fun first_completion :: "'r io_event list \<Rightarrow> (tick \<times> error_code \<times> 'r) option" where
  "first_completion [] = None"
| "first_completion (Deadline now now' # es) = first_completion es"
| "first_completion (Completed now err r # es) = Some (now, err, r)"

fun after_completion :: "'r io_event list \<Rightarrow> 'r io_event list" where
  "after_completion [] = []"
| "after_completion (Deadline now now' # es) = after_completion es"
| "after_completion (Completed now err r # es) = es"

text \<open>
  Clock readings are not negative (the steady clock counts from start-up) and lie before the end
  of time, 292 years later.
\<close>

fun clock_ok :: "'r io_event list \<Rightarrow> bool" where
  "clock_ok [] = True"
| "clock_ok (Deadline now now' # es) = (0 \<le> now \<and> now < tick_max \<and> 0 \<le> now' \<and> clock_ok es)"
| "clock_ok (Completed now err r # es) = (0 \<le> now \<and> clock_ok es)"

text \<open>The operation completes, first with this result, which is never \<open>would_block\<close>.\<close>

definition completes :: "'r io_event list \<Rightarrow> tick \<Rightarrow> error_code \<Rightarrow> 'r \<Rightarrow> bool" where
  "completes es t err r \<longleftrightarrow> first_completion es = Some (t, err, r) \<and> err \<noteq> Would_block"

text \<open>The watchdog of a live object: its wait is posted and its \<open>io_service\<close> runs.\<close>

definition armed :: "'a timed_base_scheme \<Rightarrow> bool" where
  "armed s \<longleftrightarrow> wait_posted s \<and> \<not> io_stopped s"

lemmas timed_defs =
  expiration_dtor_def expiration_duration_def expiration_deadline_def expiration_move_def
  post_deadline_def scope_expire_def check_deadline_def completion_code_def armed_def

lemmas duration_defs =
  kInfiniteDuration_def kZeroDuration_def kDurationResolution_def kMinTimeout_def tick_max_def

lemma io_run_done [simp]:
  "ec \<noteq> Would_block \<Longrightarrow> io_run A actor h e es ec l s = Some (ec, l, s, es)"
proof (cases es)
  case (Cons ev es')
  then show "ec \<noteq> Would_block \<Longrightarrow> ?thesis" by (cases ev) simp_all
qed simp

text \<open>A wait that returns has consumed at least the completion.\<close>

lemma io_run_consumes:
  "io_run A actor h e es Would_block l s = Some (ec, l', s', rest) \<Longrightarrow> length rest < length es"
proof -
  have "io_run A actor h e es ec0 l s = Some (ec, l', s', rest) \<Longrightarrow>
          length rest \<le> length es \<and> (ec0 = Would_block \<longrightarrow> length rest < length es)" for ec0
    by (induction A actor h e es ec0 l s rule: io_run.induct)
      (auto split: if_splits prod.splits)
  then show "io_run A actor h e es Would_block l s = Some (ec, l', s', rest) \<Longrightarrow> ?thesis" by blast
qed

lemma timer_infinite:
  "timer_saturates A \<Longrightarrow> 0 \<le> t \<Longrightarrow> time_add A t kInfiniteDuration = kInfiniteDuration"
  by (simp add: timer_saturates_def kInfiniteDuration_def)

lemma deadline_hit_infinite [simp]: "clock_ok es \<Longrightarrow> \<not> deadline_hit kInfiniteDuration es"
  by (induction "kInfiniteDuration" es rule: deadline_hit.induct) (auto simp: kInfiniteDuration_def)

lemma clock_ok_after [simp]: "clock_ok es \<Longrightarrow> clock_ok (after_completion es)"
  by (induction es rule: after_completion.induct) auto

lemma armed_ctor: "armed (timed_base_ctor A now m)"
  by (simp add: timed_base_ctor_def timed_defs)

lemma scope_expire_frame:
  "scope_expire A now arg s = (r, s') \<Longrightarrow>
     \<not> deadline_fired s' \<and> wait_posted s' = wait_posted s \<and> io_stopped s' = io_stopped s \<and>
     timed_base.more s' = timed_base.more s"
  by (auto simp: timed_defs Let_def split: time_arg.splits if_splits)

lemma scope_expire_armed: "scope_expire A now arg s = (r, s') \<Longrightarrow> armed s' = armed s"
  by (drule scope_expire_frame) (simp add: armed_def)

lemma scope_expire_deadline [simp]:
  "scope_expire A now (Time_point t) s = (Inr Timer, s\<lparr>deadline_fired := False, timer_expiry := t\<rparr>)"
  by (simp add: timed_defs)

lemma scope_expire_infinite [simp]:
  "scope_expire A now (Duration kInfiniteDuration) s = (Inr Null_timer, s\<lparr>deadline_fired := False\<rparr>)"
  by (simp add: timed_defs duration_defs)

lemma scope_expire_short:
  "d < kDurationResolution \<Longrightarrow>
     scope_expire A now (Duration d) s =
       (Inl (System_error Timed_out ''''),
        s\<lparr>deadline_fired := False, timer_expiry := time_add A now kInfiniteDuration\<rparr>)"
  by (simp add: timed_defs)

lemma scope_expire_finite:
  "kDurationResolution \<le> d \<Longrightarrow> d \<noteq> kInfiniteDuration \<Longrightarrow>
     scope_expire A now (Duration d) s =
       (Inr Timer, s\<lparr>deadline_fired := False, timer_expiry := time_add A now d\<rparr>)"
  by (simp add: timed_defs)

lemma scope_expire_Inl_iff:
  "(\<exists>x s'. scope_expire A now arg s = (Inl x, s')) \<longleftrightarrow>
     (\<exists>d. arg = Duration d \<and> d < kDurationResolution)"
  by (auto simp: timed_defs Let_def split: time_arg.splits if_splits)

text \<open>A timeout or deadline that \<open>scope_expire\<close> accepts, and the expiry it waits for.\<close>

definition arg_ok :: "time_arg \<Rightarrow> bool" where
  "arg_ok arg \<longleftrightarrow> (case arg of Duration d \<Rightarrow> kDurationResolution \<le> d | Time_point _ \<Rightarrow> True)"

definition expiry_of :: "asio \<Rightarrow> tick \<Rightarrow> time_arg \<Rightarrow> tick \<Rightarrow> tick" where
  "expiry_of A now arg x =
     (case arg of
        Duration d \<Rightarrow> if d = kInfiniteDuration then x else time_add A now d
      | Time_point t \<Rightarrow> t)"

lemma scope_expire_ok:
  "arg_ok arg \<Longrightarrow>
     scope_expire A now arg s =
       (Inr (if arg = Duration kInfiniteDuration then Null_timer else Timer),
        s\<lparr>deadline_fired := False, timer_expiry := expiry_of A now arg (timer_expiry s)\<rparr>)"
  by (cases arg) (auto simp: arg_ok_def expiry_of_def timed_defs duration_defs)

text \<open>Between operations a live object has no deadline pending.\<close>

definition idle :: "'a timed_base_scheme \<Rightarrow> bool" where
  "idle s \<longleftrightarrow> armed s \<and> timer_expiry s = kInfiniteDuration"

section \<open>The interface of a timed object\<close>

text \<open>
  What \<open>timed_base\<close> asks of a class that derives from it: \<open>deadline_actor()\<close> works on the derived
  part only, and calling it again changes nothing.
\<close>

locale timed_object =
  fixes actor :: "'a timed_base_scheme \<Rightarrow> 'a timed_base_scheme"
    and eff :: "'a \<Rightarrow> 'a"
  assumes actor_eff: "actor s = timed_base.more_update eff s"
    and eff_idem: "eff (eff m) = eff m"
begin

lemma check_deadline_hit:
  "timer_expiry s \<le> now \<Longrightarrow>
     check_deadline A actor now now' s =
       s\<lparr>deadline_fired := True, timer_expiry := time_add A now' kInfiniteDuration,
         wait_posted := True, timed_base.more := eff (timed_base.more s)\<rparr>"
  by (cases s) (simp add: check_deadline_def post_deadline_def actor_eff)

lemma check_deadline_miss:
  "now < timer_expiry s \<Longrightarrow> check_deadline A actor now now' s = s\<lparr>wait_posted := True\<rparr>"
  by (simp add: check_deadline_def post_deadline_def)

lemma check_deadline_armed: "\<not> io_stopped s \<Longrightarrow> armed (check_deadline A actor now now' s)"
  by (simp add: check_deadline_def post_deadline_def armed_def actor_eff)

text \<open>
  The main fact of the wait. Once the deadline has fired it stays fired until the operation
  completes, and the derived part has been through the actor.
\<close>

lemma io_run_result:
  assumes "armed s" and "first_completion es = Some (t, err, r)"
    and "h (deadline_fired s \<or> deadline_hit (timer_expiry s) es) err r l = (ec', l')"
    and "ec' \<noteq> Would_block"
    and "deadline_fired s \<Longrightarrow> eff (timed_base.more s) = timed_base.more s"
  shows "\<exists>s' rest. io_run A actor h e es Would_block l s = Some (ec', l', s', rest) \<and>
     armed s' \<and> rest = after_completion es \<and>
     deadline_fired s' = (deadline_fired s \<or> deadline_hit (timer_expiry s) es) \<and>
     timed_base.more s' =
       (if deadline_fired s \<or> deadline_hit (timer_expiry s) es
        then eff (timed_base.more s) else timed_base.more s) \<and>
     (e = Timer \<longrightarrow> timer_expiry s' = time_add A t kInfiniteDuration)"
  using assms
proof (induction es arbitrary: s)
  case Nil
  then show ?case by simp
next
  case (Cons ev es)
  show ?case
  proof (cases ev)
    case (Completed now err' r')
    with Cons.prems show ?thesis
      by (auto simp: armed_def expiration_dtor_def split: expiration.split)
  next
    case (Deadline now now')
    let ?s = "check_deadline A actor now now' (s\<lparr>wait_posted := False\<rparr>)"
    have eq: "io_run A actor h e (ev # es) Would_block l s = io_run A actor h e es Would_block l ?s"
      using Cons.prems(1) Deadline by (simp add: armed_def)
    have arm: "armed ?s"
      using Cons.prems(1) by (intro check_deadline_armed) (simp add: armed_def)
    show ?thesis
    proof (cases "timer_expiry s \<le> now")
      case True
      then have hit: "deadline_fired ?s" "timed_base.more ?s = eff (timed_base.more s)"
        by (simp_all add: check_deadline_hit)
      with Cons.IH [of ?s] Cons.prems arm True Deadline show ?thesis
        unfolding eq by (auto simp: eff_idem)
    next
      case False
      then have miss: "?s = s\<lparr>wait_posted := True\<rparr>"
        by (simp add: check_deadline_miss)
      with Cons.IH [of ?s] Cons.prems arm False Deadline show ?thesis
        unfolding eq by auto
    qed
  qed
qed

text \<open>
  With a saturating timer, a wait that starts with the timer at infinity, or whose handler owns
  the expiration, leaves the timer at infinity.
\<close>

lemma io_run_idle:
  assumes "timer_saturates A" and "clock_ok es"
    and "io_run A actor h e es ec l s = Some (ec', l', s', rest)"
    and "armed s" and "timer_expiry s = kInfiniteDuration \<or> e = Timer \<and> ec = Would_block"
  shows "armed s' \<and> timer_expiry s' = kInfiniteDuration \<and> clock_ok rest"
  using assms(2-5)
proof (induction es arbitrary: e ec l s)
  case Nil
  then show ?case by (auto split: if_splits)
next
  case (Cons ev es)
  note inf = timer_infinite [OF assms(1)]
  show ?case
  proof (cases "ec = Would_block")
    case False
    with Cons.prems show ?thesis by auto
  next
    case True
    show ?thesis
    proof (cases ev)
      case (Deadline now now')
      let ?s = "check_deadline A actor now now' (s\<lparr>wait_posted := False\<rparr>)"
      have "armed ?s" using Cons.prems(3) by (intro check_deadline_armed) (simp add: armed_def)
      moreover have "timer_expiry ?s \<in> {timer_expiry s, kInfiniteDuration}"
        using Cons.prems(1) Deadline
        by (simp add: check_deadline_def post_deadline_def actor_eff inf)
      ultimately show ?thesis
        using Cons.IH [of e Would_block l ?s] Cons.prems Deadline True by (auto split: if_splits)
    next
      case (Completed now err r)
      let ?s = "expiration_dtor A now e s"
      have "armed ?s" "timer_expiry ?s = kInfiniteDuration"
        using Cons.prems Completed
        by (auto simp: armed_def expiration_dtor_def inf split: expiration.splits)
      then show ?thesis
        using Cons.IH [of Null_timer _ _ ?s] Cons.prems Completed True
        by (fastforce split: if_splits prod.splits)
    qed
  qed
qed

lemma io_run_no_completion:
  "first_completion es = None \<Longrightarrow> io_run A actor h e es Would_block l s = None"
  by (induction es arbitrary: s rule: first_completion.induct) simp_all

end

end
