(* ===== verification/Base_Socket.thy ===== *)
theory Base_Socket
  imports Timed_Base
begin

text \<open>
  The timeout-blocked socket (\<open>stream/base_socket.hpp\<close>, \<open>stream/impl/base_socket.ipp\<close>): a
  \<open>timed_base\<close> that owns a Boost.Asio socket. Of that socket the model keeps whether it is open.
  What the Boost socket answers is an input: the record \<open>sock_env\<close> holds the results of its
  synchronous calls, the event list of the connect holds its completion.
\<close>

section \<open>State and environment\<close>

record base_socket = timed_base +
  sock_open :: bool
  connection_timeout :: tick
  io_operation_timeout :: tick
  io_timeouted :: bool

datatype socket_option = Keep_alive bool | No_delay bool | Quick_ack bool | Other_option nat

text \<open>
  \<open>connect_opens\<close>: the descriptor that \<open>async_connect\<close> opens could be opened;
  \<open>option_result\<close>: the code \<open>basic_socket::set_option\<close> sets; \<open>close_result\<close>: the code
  \<open>basic_socket::close\<close> sets (Boost closes the descriptor even when it reports an error).
\<close>

record sock_env =
  connect_opens :: bool
  option_result :: "socket_option \<Rightarrow> error_code"
  close_result :: error_code
  protocol_is_tcp :: bool
  on_linux :: bool

section \<open>Operations\<close>

definition base_close :: "sock_env \<Rightarrow> 'a base_socket_scheme \<Rightarrow> error_code \<times> 'a base_socket_scheme" where
  "base_close E s = (close_result E, s\<lparr>sock_open := False\<rparr>)"

definition deadline_actor :: "sock_env \<Rightarrow> 'a base_socket_scheme \<Rightarrow> 'a base_socket_scheme" where
  "deadline_actor E s = snd (base_close E s)"

definition base_socket_dtor :: "sock_env \<Rightarrow> 'a base_socket_scheme \<Rightarrow> 'a base_socket_scheme" where
  "base_socket_dtor E s = timed_base_dtor (snd (base_close E s))"

definition set_option :: "sock_env \<Rightarrow> socket_option \<Rightarrow> exn + unit" where
  "set_option E opt = throw_if_error ''Socket set_option() failed'' (option_result E opt) ()"

definition get_option :: "(error_code \<times> 'v) \<Rightarrow> exn + 'v" where
  "get_option answer =
     (case answer of (ec, v) \<Rightarrow> throw_if_error ''Socket get_option() failed'' ec v)"

definition local_endpoint :: "(error_code \<times> 'ep) \<Rightarrow> exn + 'ep" where
  "local_endpoint answer =
     (case answer of (ec, ep) \<Rightarrow> throw_if_error ''Socket local_endpoint() failed'' ec ep)"

definition remote_endpoint :: "(error_code \<times> 'ep) \<Rightarrow> exn + 'ep" where
  "remote_endpoint answer =
     (case answer of (ec, ep) \<Rightarrow> throw_if_error ''Socket remote_endpoint() failed'' ec ep)"

text \<open>The overloads with an \<open>error_code\<close> hand out what the Boost socket answers.\<close>

definition base_close_ec :: "sock_env \<Rightarrow> 'a base_socket_scheme \<Rightarrow> error_code \<times> 'a base_socket_scheme" where
  "base_close_ec E s = (case base_close E s of (ec, s') \<Rightarrow> (ec, s'))"

definition set_option_ec :: "sock_env \<Rightarrow> socket_option \<Rightarrow> error_code" where
  "set_option_ec E opt = option_result E opt"

definition get_option_ec :: "(error_code \<times> 'v) \<Rightarrow> error_code \<times> 'v" where
  "get_option_ec answer = answer"

definition local_endpoint_ec :: "(error_code \<times> 'ep) \<Rightarrow> error_code \<times> 'ep" where
  "local_endpoint_ec answer = answer"

definition remote_endpoint_ec :: "(error_code \<times> 'ep) \<Rightarrow> error_code \<times> 'ep" where
  "remote_endpoint_ec answer = answer"

text \<open>The timeout accessors; the setters swap and return the previous value.\<close>

definition io_timeout :: "'a base_socket_scheme \<Rightarrow> tick" where
  "io_timeout s = (if io_timeouted s then io_operation_timeout s else kInfiniteDuration)"

definition set_io_timeout :: "tick \<Rightarrow> 'a base_socket_scheme \<Rightarrow> tick \<times> 'a base_socket_scheme" where
  "set_io_timeout new_io_timeout s =
     (io_operation_timeout s, s\<lparr>io_operation_timeout := new_io_timeout\<rparr>)"

definition io_timeout_enabled :: "'a base_socket_scheme \<Rightarrow> bool" where
  "io_timeout_enabled s = io_timeouted s"

definition set_io_timeout_enabled :: "bool \<Rightarrow> 'a base_socket_scheme \<Rightarrow> bool \<times> 'a base_socket_scheme" where
  "set_io_timeout_enabled new_mode s = (io_timeouted s, s\<lparr>io_timeouted := new_mode\<rparr>)"

definition get_connection_timeout :: "'a base_socket_scheme \<Rightarrow> tick" where
  "get_connection_timeout s = connection_timeout s"

definition is_open :: "'a base_socket_scheme \<Rightarrow> bool" where
  "is_open s = sock_open s"

text \<open>The options the constructor sets, in its order; the first one refused throws.\<close>

definition connect_options :: "sock_env \<Rightarrow> socket_option list" where
  "connect_options E =
     [Keep_alive True] @
     (if protocol_is_tcp E then [No_delay True] @ (if on_linux E then [Quick_ack True] else [])
      else [])"

fun set_options :: "sock_env \<Rightarrow> socket_option list \<Rightarrow> exn + unit" where
  "set_options E [] = Inr ()"
| "set_options E (opt # opts) =
     (case set_option E opt of Inl x \<Rightarrow> Inl x | Inr _ \<Rightarrow> set_options E opts)"

definition connect_handler :: "bool \<Rightarrow> error_code \<Rightarrow> unit \<Rightarrow> unit \<Rightarrow> error_code \<times> unit" where
  "connect_handler fired err r l = (completion_code fired err, l)"

text \<open>
  The constructor connects. \<open>t0\<close>, \<open>t1\<close> and \<open>t2\<close> are the clock readings of the base constructor,
  of \<open>scope_expire\<close> and of the destruction of the local \<open>expiration\<close>. An exception leaves no object.
\<close>

definition base_socket_ctor ::
  "asio \<Rightarrow> sock_env \<Rightarrow> tick \<Rightarrow> tick \<Rightarrow> tick \<Rightarrow> unit io_event list \<Rightarrow> tick \<Rightarrow> tick
     \<Rightarrow> (exn + base_socket) option" where
  "base_socket_ctor A E t0 t1 t2 es connect_timeout operation_timeout =
     (let s0 = timed_base_ctor A t0 (base_socket.fields False connect_timeout operation_timeout False) in
      case scope_expire A t1 (Duration (connection_timeout s0)) s0 of
        (Inl x, s1) \<Rightarrow> Some (Inl x)
      | (Inr e, s1) \<Rightarrow>
          (case io_run A (deadline_actor E) connect_handler Null_timer es Would_block ()
                  (s1\<lparr>sock_open := connect_opens E\<rparr>) of
             None \<Rightarrow> None
           | Some (ec, l, s2, rest) \<Rightarrow>
               if is_error ec then
                 Some (Inl (System_error ec
                   (if ec = Timed_out then ''Socket connection timed out''
                    else ''Socket connection failed'')))
               else if \<not> is_open s2 then
                 Some (Inl (System_error Operation_aborted ''Socket connection failed''))
               else (case set_options E (connect_options E) of
                   Inl x \<Rightarrow> Some (Inl x)
                 | Inr _ \<Rightarrow>
                     Some (Inr (expiration_dtor A t2 e (snd (set_io_timeout_enabled True s2)))))))"

text \<open>The single-argument constructor takes the same three values as a struct.\<close>

record 'ep socket_config =
  peer_endpoint :: 'ep
  cfg_connect_timeout :: tick
  cfg_operation_timeout :: tick

definition base_socket_ctor_config ::
  "asio \<Rightarrow> sock_env \<Rightarrow> tick \<Rightarrow> tick \<Rightarrow> tick \<Rightarrow> unit io_event list \<Rightarrow> 'ep socket_config
     \<Rightarrow> (exn + base_socket) option" where
  "base_socket_ctor_config A E t0 t1 t2 es cfg =
     base_socket_ctor A E t0 t1 t2 es (cfg_connect_timeout cfg) (cfg_operation_timeout cfg)"

lemmas socket_defs =
  base_close_def deadline_actor_def io_timeout_def set_io_timeout_def io_timeout_enabled_def
  set_io_timeout_enabled_def is_open_def connect_handler_def

section \<open>A socket is a timed object\<close>

definition close_fields :: "'a base_socket_ext \<Rightarrow> 'a base_socket_ext" where
  "close_fields m =
     timed_base.more
       (\<lparr>deadline_fired = False, timer_expiry = 0, wait_posted = False, io_stopped = False, \<dots> = m\<rparr>
          \<lparr>sock_open := False\<rparr>)"

interpretation socket_timer: timed_object "deadline_actor E" close_fields
proof unfold_locales
  show "deadline_actor E s = timed_base.more_update close_fields s" for s :: "'a base_socket_scheme"
    by (cases s) (simp add: socket_defs close_fields_def)
  show "close_fields (close_fields m) = close_fields m" for m :: "'a base_socket_ext"
    by (cases "\<lparr>deadline_fired = False, timer_expiry = 0, wait_posted = False, io_stopped = False,
          \<dots> = m\<rparr>" rule: base_socket.cases_scheme) (simp add: close_fields_def)
qed

lemma socket_fields_of_more:
  assumes "timed_base.more s' = timed_base.more s"
  shows "sock_open s' = sock_open s" "connection_timeout s' = connection_timeout s"
    "io_operation_timeout s' = io_operation_timeout s" "io_timeouted s' = io_timeouted s"
  using assms by (cases s; cases s'; simp)+

lemma socket_fields_of_close:
  assumes "timed_base.more s' = close_fields (timed_base.more s)"
  shows "\<not> sock_open s'" "connection_timeout s' = connection_timeout s"
    "io_operation_timeout s' = io_operation_timeout s" "io_timeouted s' = io_timeouted s"
  using assms by (cases s; cases s'; simp add: close_fields_def)+

text \<open>
  What a wait of a socket operation leaves: the deadline flag tells whether the deadline was hit,
  and only then the socket has been closed; the configuration is untouched.
\<close>

definition after_wait :: "bool \<Rightarrow> 'a base_socket_scheme \<Rightarrow> 'a base_socket_scheme \<Rightarrow> bool" where
  "after_wait hit s s' \<longleftrightarrow>
     armed s' \<and> deadline_fired s' = hit \<and> sock_open s' = (sock_open s \<and> \<not> hit) \<and>
     connection_timeout s' = connection_timeout s \<and>
     io_operation_timeout s' = io_operation_timeout s \<and> io_timeouted s' = io_timeouted s"

lemma socket_io_run:
  assumes "armed s" and "\<not> deadline_fired s" and "first_completion es = Some (t, err, r)"
    and "h (deadline_hit (timer_expiry s) es) err r l = (ec', l')" and "ec' \<noteq> Would_block"
  shows "\<exists>s' rest. io_run A (deadline_actor E) h e es Would_block l s = Some (ec', l', s', rest) \<and>
    after_wait (deadline_hit (timer_expiry s) es) s s' \<and> rest = after_completion es \<and>
    (e = Timer \<longrightarrow> timer_expiry s' = time_add A t kInfiniteDuration)"
proof -
  obtain s' rest where *:
    "io_run A (deadline_actor E) h e es Would_block l s = Some (ec', l', s', rest)"
    "armed s'" "rest = after_completion es" "deadline_fired s' = deadline_hit (timer_expiry s) es"
    "timed_base.more s' = (if deadline_hit (timer_expiry s) es
       then close_fields (timed_base.more s) else timed_base.more s)"
    "e = Timer \<Longrightarrow> timer_expiry s' = time_add A t kInfiniteDuration"
    using socket_timer.io_run_result [of s es t err r h l ec' l' A E e] assms by auto
  have "after_wait (deadline_hit (timer_expiry s) es) s s'"
    using *(2,4,5) socket_fields_of_close [of s' s] socket_fields_of_more [of s' s]
    by (auto simp: after_wait_def split: if_splits)
  with * show ?thesis by blast
qed

section \<open>Connecting\<close>

text \<open>The expiry a connect waits for: an infinite timeout leaves the one of the constructor.\<close>

definition connect_expiry :: "asio \<Rightarrow> tick \<Rightarrow> tick \<Rightarrow> tick \<Rightarrow> tick" where
  "connect_expiry A t0 t1 connect_timeout =
     time_add A (if connect_timeout = kInfiniteDuration then t0 else t1) connect_timeout"

lemma set_options_Inr:
  "set_options E opts = Inr u \<longleftrightarrow> (\<forall>opt \<in> set opts. \<not> is_error (option_result E opt))"
  by (induction opts) (auto simp: set_option_def ec_simps split: sum.splits)

lemma connect_timeout_ctor:
  "connection_timeout (timed_base_ctor A t0 (base_socket.fields False ct ot False)) = ct"
  by (simp add: timed_base_ctor_def post_deadline_def base_socket.defs)

text \<open>The state in which the connect starts to wait.\<close>

lemma connect_start:
  assumes "kDurationResolution \<le> connect_timeout"
  obtains e s1 where
    "scope_expire A t1 (Duration connect_timeout)
       (timed_base_ctor A t0 (base_socket.fields False connect_timeout operation_timeout False)) = (Inr e, s1)"
    "armed s1" "\<not> deadline_fired s1" "timer_expiry s1 = connect_expiry A t0 t1 connect_timeout"
    "connection_timeout s1 = connect_timeout" "io_operation_timeout s1 = operation_timeout"
    "e = Null_timer \<longleftrightarrow> connect_timeout = kInfiniteDuration"
  by (cases "connect_timeout = kInfiniteDuration")
    (use assms in \<open>auto simp: scope_expire_finite timed_base_ctor_def post_deadline_def armed_def
       connect_expiry_def base_socket.defs\<close>)

text \<open>What a connect reports, as a function of its events alone: \<open>None\<close> is a connected socket.\<close>

definition connect_error ::
  "asio \<Rightarrow> sock_env \<Rightarrow> tick \<Rightarrow> tick \<Rightarrow> unit io_event list \<Rightarrow> tick \<Rightarrow> error_code \<Rightarrow> exn option" where
  "connect_error A E t0 t1 es connect_timeout err =
     (if connect_timeout < kDurationResolution then Some (System_error Timed_out '''')
      else if deadline_hit (connect_expiry A t0 t1 connect_timeout) es \<or> err = Timed_out
        then Some (System_error Timed_out ''Socket connection timed out'')
      else if is_error err then Some (System_error err ''Socket connection failed'')
      else if \<not> connect_opens E then Some (System_error Operation_aborted ''Socket connection failed'')
      else map_option (\<lambda>opt. System_error (option_result E opt) ''Socket set_option() failed'')
             (find (\<lambda>opt. is_error (option_result E opt)) (connect_options E)))"

lemma set_options_find:
  "set_options E opts =
     (case find (\<lambda>opt. is_error (option_result E opt)) opts of
        None \<Rightarrow> Inr ()
      | Some opt \<Rightarrow> Inl (System_error (option_result E opt) ''Socket set_option() failed''))"
  by (induction opts) (auto simp: set_option_def throw_if_error_def)

definition connected :: "base_socket \<Rightarrow> tick \<Rightarrow> tick \<Rightarrow> bool" where
  "connected s connect_timeout operation_timeout \<longleftrightarrow>
     is_open s \<and> armed s \<and> \<not> deadline_fired s \<and> timer_expiry s = kInfiniteDuration \<and>
     connection_timeout s = connect_timeout \<and> io_timeout_enabled s \<and>
     io_timeout s = operation_timeout"

text \<open>The wait of a connect that has time left, and the state it ends in.\<close>

lemma connect_wait:
  assumes fin: "completes es t err ()" and time: "kDurationResolution \<le> connect_timeout"
    and hit: "hit = deadline_hit (connect_expiry A t0 t1 connect_timeout) es"
  obtains e s1 s2 rest where
    "scope_expire A t1 (Duration connect_timeout)
       (timed_base_ctor A t0 (base_socket.fields False connect_timeout operation_timeout False)) = (Inr e, s1)"
    "io_run A (deadline_actor E) connect_handler Null_timer es Would_block ()
       (s1\<lparr>sock_open := connect_opens E\<rparr>) = Some (completion_code hit err, (), s2, rest)"
    "timer_expiry s1 = connect_expiry A t0 t1 connect_timeout"
    "e = Null_timer \<longleftrightarrow> connect_timeout = kInfiniteDuration"
    "after_wait hit (s1\<lparr>sock_open := connect_opens E\<rparr>) s2"
    "connection_timeout s1 = connect_timeout" "io_operation_timeout s1 = operation_timeout" "armed s1"
proof -
  obtain e s1 where s1: "scope_expire A t1 (Duration connect_timeout)
      (timed_base_ctor A t0 (base_socket.fields False connect_timeout operation_timeout False)) = (Inr e, s1)"
    "armed s1" "\<not> deadline_fired s1" "timer_expiry s1 = connect_expiry A t0 t1 connect_timeout"
    "connection_timeout s1 = connect_timeout" "io_operation_timeout s1 = operation_timeout"
    "e = Null_timer \<longleftrightarrow> connect_timeout = kInfiniteDuration"
    by (rule connect_start [OF time])
  let ?s1 = "s1\<lparr>sock_open := connect_opens E\<rparr>"
  have pre: "armed ?s1" "\<not> deadline_fired ?s1" "deadline_hit (timer_expiry ?s1) es = hit"
    "completion_code hit err \<noteq> Would_block"
    using s1 fin hit by (simp_all add: armed_def completion_code_def completes_def)
  then obtain s2 rest where
    "io_run A (deadline_actor E) connect_handler Null_timer es Would_block () ?s1 =
       Some (completion_code hit err, (), s2, rest)" "after_wait hit ?s1 s2"
    using socket_io_run [of ?s1 es t err "()" connect_handler "()" "completion_code hit err" "()" A E Null_timer]
      fin by (simp add: completes_def connect_handler_def) blast
  from that [OF s1(1) this(1) s1(4,7) this(2) s1(5,6,2)] show thesis .
qed

lemma connect_outcome_branches:
  assumes fin: "completes es t err ()"
    and clock: "timer_saturates A" "0 \<le> t0" "0 \<le> t2" "clock_ok es"
  shows "case connect_error A E t0 t1 es connect_timeout err of
      Some x \<Rightarrow> base_socket_ctor A E t0 t1 t2 es connect_timeout operation_timeout = Some (Inl x)
    | None \<Rightarrow> \<exists>s. base_socket_ctor A E t0 t1 t2 es connect_timeout operation_timeout = Some (Inr s) \<and>
        connected s connect_timeout operation_timeout"
proof (cases "connect_timeout < kDurationResolution")
  case True
  then show ?thesis
    by (simp add: connect_error_def base_socket_ctor_def scope_expire_short connect_timeout_ctor)
next
  case False
  define hit where "hit = deadline_hit (connect_expiry A t0 t1 connect_timeout) es"
  obtain e s1 s2 rest where w:
    "scope_expire A t1 (Duration connect_timeout)
       (timed_base_ctor A t0 (base_socket.fields False connect_timeout operation_timeout False)) = (Inr e, s1)"
    "io_run A (deadline_actor E) connect_handler Null_timer es Would_block ()
       (s1\<lparr>sock_open := connect_opens E\<rparr>) = Some (completion_code hit err, (), s2, rest)"
    "timer_expiry s1 = connect_expiry A t0 t1 connect_timeout"
    "e = Null_timer \<longleftrightarrow> connect_timeout = kInfiniteDuration"
    "after_wait hit (s1\<lparr>sock_open := connect_opens E\<rparr>) s2"
    "connection_timeout s1 = connect_timeout" "io_operation_timeout s1 = operation_timeout" "armed s1"
    by (rule connect_wait [OF fin _ hit_def]) (use False in simp)
  let ?s3 = "expiration_dtor A t2 e (snd (set_io_timeout_enabled True s2))"
  have "timer_expiry s2 = kInfiniteDuration" if "e = Null_timer"
    using socket_timer.io_run_idle [OF clock(1,4) w(2)] w(3,4,8) that clock(2)
    by (auto simp: connect_expiry_def timer_infinite [OF clock(1)] armed_def)
  then have conn: "connected ?s3 connect_timeout operation_timeout" if "sock_open s2"
    using w(5-7) that clock(3)
    by (cases e) (auto simp: connected_def socket_defs armed_def expiration_dtor_def after_wait_def
        timer_infinite [OF clock(1)])
  have "base_socket_ctor A E t0 t1 t2 es connect_timeout operation_timeout =
    (if is_error (completion_code hit err) then Some (Inl (System_error (completion_code hit err)
       (if completion_code hit err = Timed_out then ''Socket connection timed out''
        else ''Socket connection failed'')))
     else if \<not> sock_open s2 then Some (Inl (System_error Operation_aborted ''Socket connection failed''))
     else (case set_options E (connect_options E) of Inl x \<Rightarrow> Some (Inl x) | Inr _ \<Rightarrow> Some (Inr ?s3)))"
    using w(1,2) by (simp add: base_socket_ctor_def Let_def is_open_def connect_timeout_ctor)
  moreover have "sock_open s2 = (connect_opens E \<and> \<not> hit)"
    using w(5) by (simp add: after_wait_def)
  ultimately show ?thesis
    using False conn
    by (auto simp: connect_error_def hit_def [symmetric] completion_code_def set_options_find
        split: option.split)
qed

section \<open>Properties\<close>

text \<open>
  C3. Connecting, on every branch: a timeout below the timer's resolution fails with
  \<open>timed_out\<close> at once; otherwise, once the connect completes, the constructor reports
  \<open>timed_out\<close> exactly when the deadline was reached first (or the network timed out), else the error
  of the connect, else an aborted operation when the socket is not open, else the first refused
  option. In the only remaining case it hands out a connected socket: open, its watchdog armed and
  disarmed of any deadline, the I/O timeout enabled and equal to the one asked for.
\<close>

theorem connect_outcome:
  assumes "completes es t err ()"
    and "timer_saturates A" and "0 \<le> t0" and "0 \<le> t2" and "clock_ok es"
  shows "case connect_error A E t0 t1 es connect_timeout err of
      Some x \<Rightarrow> base_socket_ctor A E t0 t1 t2 es connect_timeout operation_timeout = Some (Inl x)
    | None \<Rightarrow> \<exists>s. base_socket_ctor A E t0 t1 t2 es connect_timeout operation_timeout = Some (Inr s) \<and>
        connected s connect_timeout operation_timeout"
  using assms by (rule connect_outcome_branches)

definition sample_env :: sock_env where
  "sample_env = \<lparr>connect_opens = True, option_result = (\<lambda>_. Success), close_result = Success,
     protocol_is_tcp = True, on_linux = True\<rparr>"

theorem connect_outcome_witness:
  "\<exists>s. base_socket_ctor linux_asio sample_env 0 10 3000 [Deadline 20 21, Completed 2000 Success ()]
         1000000 5000000 = Some (Inr s) \<and> connected s 1000000 5000000"
proof -
  let ?es = "[Deadline 20 21, Completed 2000 Success ()]"
  have "connect_error linux_asio sample_env 0 10 ?es 1000000 Success = None"
    by (simp add: connect_error_def connect_expiry_def linux_asio_def sample_env_def connect_options_def
        duration_defs)
  moreover have "completes ?es 2000 Success ()"
    by (simp add: completes_def)
  ultimately show ?thesis
    using connect_outcome [of ?es 2000 Success linux_asio 0 3000 sample_env 10 1000000 5000000]
    by (simp add: tick_max_def)
qed

text \<open>
  The I/O timeout of a socket: setting it returns the previous value and makes it the effective
  timeout whenever timeouts are enabled; disabling timeouts makes the effective timeout infinite,
  and restoring the returned mode gives back the socket as it was.
\<close>

theorem io_timeout_roundtrip:
  "fst (set_io_timeout d s) = io_operation_timeout s \<and>
   io_timeout (snd (set_io_timeout d s)) = (if io_timeout_enabled s then d else kInfiniteDuration) \<and>
   io_timeout (snd (set_io_timeout_enabled False s)) = kInfiniteDuration \<and>
   snd (set_io_timeout_enabled (fst (set_io_timeout_enabled m s)) (snd (set_io_timeout_enabled m s))) = s \<and>
   snd (set_io_timeout (fst (set_io_timeout d s)) (snd (set_io_timeout d s))) = s"
  by (simp add: socket_defs)

end
