(* ===== verification/Timed_Move.thy ===== *)
theory Timed_Move
  imports Base_Socket
begin

text \<open>
  Timed objects in memory (\<open>detail/timed_base.hpp\<close>): the defaulted moves, the destructor and the pointer
  that the wait handler keeps.

  \<open>Timed_Base\<close> describes an object that stays where it was constructed by the values of its members.
  Here the object has an address, it owns its \<open>io_service\<close> and its timer through \<open>unique_ptr\<close>s, and the
  handler that \<open>post_deadline\<close> leaves with the timer holds the address \<open>this\<close>. Undefined behaviour is a
  \<open>fault\<close>: an empty \<open>unique_ptr\<close> or the address of a destroyed object is dereferenced, or a timer is
  destroyed after the \<open>io_service\<close> it belongs to. The members of a derived class are the payload.
\<close>

section \<open>Memory\<close>

datatype fault = Null_pointer | Dead_object | Dead_service

record 'x timed_cell =
  cell_fired :: bool
  io_service_ptr :: "nat option"
  timer_ptr :: "nat option"
  payload :: 'x

text \<open>
  A service has the flag \<open>stopped\<close>, the object its outstanding wait handler is bound to, and whether
  that handler is ready: the timer expired or the wait was cancelled by a change of the expiry.
\<close>

record service =
  svc_stopped :: bool
  wait_this :: "nat option"
  wait_ready :: bool

record timer =
  expires :: tick
  timer_service :: nat

record 'x memory =
  cells :: "nat \<rightharpoonup> 'x timed_cell"
  services :: "nat \<rightharpoonup> service"
  timers :: "nat \<rightharpoonup> timer"

section \<open>Operations\<close>

text \<open>\<open>expires_from_now\<close> and \<open>expires_at\<close> set the expiry and cancel the outstanding wait.\<close>

definition set_expires :: "nat \<Rightarrow> tick \<Rightarrow> 'x memory \<Rightarrow> 'x memory" where
  "set_expires t x M =
     (case timers M t of
        None \<Rightarrow> M
      | Some tm \<Rightarrow>
          M\<lparr>timers := (timers M)(t \<mapsto> tm\<lparr>expires := x\<rparr>),
            services := (case services M (timer_service tm) of
                None \<Rightarrow> services M
              | Some sv \<Rightarrow> (services M)(timer_service tm \<mapsto> sv\<lparr>wait_ready := (wait_this sv \<noteq> None)\<rparr>))\<rparr>)"

text \<open>\<open>post_deadline\<close>: \<open>async_wait\<close> with a handler that captures \<open>this\<close>.\<close>

definition post_wait :: "nat \<Rightarrow> nat \<Rightarrow> 'x memory \<Rightarrow> 'x memory" where
  "post_wait t this M =
     (case timers M t of
        None \<Rightarrow> M
      | Some tm \<Rightarrow>
          (case services M (timer_service tm) of
             None \<Rightarrow> M
           | Some sv \<Rightarrow> M\<lparr>services := (services M)(timer_service tm \<mapsto> sv\<lparr>wait_this := Some this, wait_ready := False\<rparr>)\<rparr>))"

text \<open>The constructor at address \<open>a\<close>; \<open>n\<close> is where its \<open>io_service\<close> and its timer are allocated.\<close>

definition cell_ctor :: "asio \<Rightarrow> tick \<Rightarrow> nat \<Rightarrow> nat \<Rightarrow> 'x \<Rightarrow> 'x memory \<Rightarrow> 'x memory" where
  "cell_ctor A now a n x M =
     post_wait n a
       (set_expires n (time_add A now kInfiniteDuration)
         (M\<lparr>cells := (cells M)(a \<mapsto> \<lparr>cell_fired = False, io_service_ptr = Some n, timer_ptr = Some n, payload = x\<rparr>),
            services := (services M)(n \<mapsto> \<lparr>svc_stopped = False, wait_this = None, wait_ready = False\<rparr>),
            timers := (timers M)(n \<mapsto> \<lparr>expires = 0, timer_service = n\<rparr>)\<rparr>))"

text \<open>
  The move constructor of \<open>b\<close> from \<open>a\<close>: member by member; the pointers of \<open>a\<close> are left empty. \<open>mv\<close> moves
  the members of the derived class: the values taken and the values left.
\<close>

definition cell_move :: "('x \<Rightarrow> 'x \<times> 'x) \<Rightarrow> nat \<Rightarrow> nat \<Rightarrow> 'x memory \<Rightarrow> fault + 'x memory" where
  "cell_move mv a b M =
     (case cells M a of
        None \<Rightarrow> Inl Dead_object
      | Some c \<Rightarrow>
          (case mv (payload c) of
             (taken, left) \<Rightarrow>
               Inr (M\<lparr>cells := (cells M)
                 (b \<mapsto> c\<lparr>payload := taken\<rparr>, a \<mapsto> c\<lparr>io_service_ptr := None, timer_ptr := None, payload := left\<rparr>)\<rparr>)))"

text \<open>The destructor of a timer needs its service.\<close>

definition timer_dtor :: "nat option \<Rightarrow> 'x memory \<Rightarrow> fault + 'x memory" where
  "timer_dtor p M =
     (case p of
        None \<Rightarrow> Inr M
      | Some t \<Rightarrow>
          (case timers M t of
             None \<Rightarrow> Inr M
           | Some tm \<Rightarrow>
               if services M (timer_service tm) = None then Inl Dead_service
               else Inr (M\<lparr>timers := (timers M)(t := None)\<rparr>)))"

definition service_dtor :: "nat option \<Rightarrow> 'x memory \<Rightarrow> 'x memory" where
  "service_dtor p M = (case p of None \<Rightarrow> M | Some n \<Rightarrow> M\<lparr>services := (services M)(n := None)\<rparr>)"

text \<open>
  The move assignment \<open>b = std::move(a)\<close>: member by member in the order of declaration, so the old
  \<open>io_service\<close> of \<open>b\<close> is destroyed before its old timer.
\<close>

definition cell_move_assign :: "('x \<Rightarrow> 'x \<times> 'x) \<Rightarrow> nat \<Rightarrow> nat \<Rightarrow> 'x memory \<Rightarrow> fault + 'x memory" where
  "cell_move_assign mv a b M =
     (case (cells M a, cells M b) of
        (Some ca, Some cb) \<Rightarrow>
          (case timer_dtor (timer_ptr cb) (service_dtor (io_service_ptr cb) M) of
             Inl f \<Rightarrow> Inl f
           | Inr M' \<Rightarrow>
               (case mv (payload ca) of
                  (taken, left) \<Rightarrow>
                    Inr (M'\<lparr>cells := (cells M')
                      (b \<mapsto> ca\<lparr>payload := taken\<rparr>, a \<mapsto> ca\<lparr>io_service_ptr := None, timer_ptr := None, payload := left\<rparr>)\<rparr>)))
      | _ \<Rightarrow> Inl Dead_object)"

text \<open>The destructor stops the service if there is one; the members go in reverse order, the timer first.\<close>

definition cell_dtor :: "nat \<Rightarrow> 'x memory \<Rightarrow> fault + 'x memory" where
  "cell_dtor a M =
     (case cells M a of
        None \<Rightarrow> Inl Dead_object
      | Some c \<Rightarrow>
          (case timer_dtor (timer_ptr c) M of
             Inl f \<Rightarrow> Inl f
           | Inr M' \<Rightarrow> Inr ((service_dtor (io_service_ptr c) M')\<lparr>cells := (cells M')(a := None)\<rparr>)))"

text \<open>\<open>scope_expire\<close> on the object at \<open>a\<close>: the RAII handle gets \<open>timer_.get()\<close>, which may be null.\<close>

definition cell_scope_expire ::
  "asio \<Rightarrow> tick \<Rightarrow> time_arg \<Rightarrow> nat \<Rightarrow> 'x memory \<Rightarrow> fault + (exn + nat option) \<times> 'x memory" where
  "cell_scope_expire A now arg a M =
     (case cells M a of
        None \<Rightarrow> Inl Dead_object
      | Some c \<Rightarrow>
          (let M' = M\<lparr>cells := (cells M)(a \<mapsto> c\<lparr>cell_fired := False\<rparr>)\<rparr> in
           case arg of
             Duration d \<Rightarrow>
               if d < kDurationResolution then
                 Inr (Inl (System_error Timed_out ''''),
                   case timer_ptr c of None \<Rightarrow> M' | Some t \<Rightarrow> set_expires t (time_add A now kInfiniteDuration) M')
               else if d = kInfiniteDuration then Inr (Inr None, M')
               else (case timer_ptr c of
                       None \<Rightarrow> Inr (Inr None, M')
                     | Some t \<Rightarrow> Inr (Inr (Some t), set_expires t (time_add A now d) M'))
           | Time_point x \<Rightarrow>
               (case timer_ptr c of
                  None \<Rightarrow> Inr (Inr None, M')
                | Some t \<Rightarrow> Inr (Inr (Some t), set_expires t x M'))))"

text \<open>\<open>~expiration\<close> with the pointer it holds.\<close>

definition cell_expiration_dtor :: "asio \<Rightarrow> tick \<Rightarrow> nat option \<Rightarrow> 'x memory \<Rightarrow> 'x memory" where
  "cell_expiration_dtor A now e M =
     (case e of None \<Rightarrow> M | Some t \<Rightarrow> set_expires t (time_add A now kInfiniteDuration) M)"

text \<open>
  \<open>check_deadline\<close> run by a handler that captured \<open>this\<close>. The virtual \<open>deadline_actor\<close> acts on the
  members of the derived class.
\<close>

definition cell_check_deadline ::
  "asio \<Rightarrow> ('x \<Rightarrow> 'x) \<Rightarrow> tick \<Rightarrow> tick \<Rightarrow> nat \<Rightarrow> 'x memory \<Rightarrow> fault + 'x memory" where
  "cell_check_deadline A actor now now' this M =
     (case cells M this of
        None \<Rightarrow> Inl Dead_object
      | Some c \<Rightarrow>
          (case timer_ptr c of
             None \<Rightarrow> Inl Null_pointer
           | Some t \<Rightarrow>
               (case timers M t of
                  None \<Rightarrow> Inl Null_pointer
                | Some tm \<Rightarrow>
                    Inr (post_wait t this
                      (if expires tm \<le> now then
                         set_expires t (time_add A now' kInfiniteDuration)
                           (M\<lparr>cells := (cells M)(this \<mapsto> c\<lparr>payload := actor (payload c), cell_fired := True\<rparr>)\<rparr>)
                       else M)))))"

text \<open>
  \<open>run_one\<close> on service \<open>n\<close> when its wait handler is ready: the handler is removed and called.
\<close>

definition run_wait_handler ::
  "asio \<Rightarrow> ('x \<Rightarrow> 'x) \<Rightarrow> tick \<Rightarrow> tick \<Rightarrow> nat \<Rightarrow> 'x memory \<Rightarrow> fault + 'x memory" where
  "run_wait_handler A actor now now' n M =
     (case services M n of
        None \<Rightarrow> Inl Dead_service
      | Some sv \<Rightarrow>
          (case wait_this sv of
             None \<Rightarrow> Inr M
           | Some this \<Rightarrow>
               cell_check_deadline A actor now now' this
                 (M\<lparr>services := (services M)(n \<mapsto> sv\<lparr>wait_this := None, wait_ready := False\<rparr>)\<rparr>)))"

text \<open>The members of a socket: the moved-from socket is left closed, the timeouts and the mode are copied.\<close>

definition socket_move :: "'a base_socket_ext \<Rightarrow> 'a base_socket_ext \<times> 'a base_socket_ext" where
  "socket_move m = (m, close_fields m)"

section \<open>An object that stays in its place\<close>

text \<open>
  The object at \<open>a\<close> owns the service \<open>n\<close> and the timer \<open>t\<close> of that service, and the handler that is
  outstanding, if any, is bound to \<open>a\<close>.
\<close>

definition at_home :: "nat \<Rightarrow> nat \<Rightarrow> nat \<Rightarrow> 'x memory \<Rightarrow> bool" where
  "at_home a n t M \<longleftrightarrow>
     (\<exists>c sv tm. cells M a = Some c \<and> io_service_ptr c = Some n \<and> timer_ptr c = Some t \<and>
        timers M t = Some tm \<and> timer_service tm = n \<and> services M n = Some sv \<and> wait_this sv \<in> {None, Some a})"

text \<open>The values of its members, as \<open>Timed_Base\<close> has them.\<close>

definition view :: "nat \<Rightarrow> nat \<Rightarrow> nat \<Rightarrow> 'x memory \<Rightarrow> 'x timed_base_scheme" where
  "view a n t M =
     \<lparr>deadline_fired = cell_fired (the (cells M a)), timer_expiry = expires (the (timers M t)),
      wait_posted = (wait_this (the (services M n)) \<noteq> None), io_stopped = svc_stopped (the (services M n)),
      \<dots> = payload (the (cells M a))\<rparr>"

definition handle_of :: "nat option \<Rightarrow> expiration" where
  "handle_of e = (case e of None \<Rightarrow> Null_timer | Some t \<Rightarrow> Timer)"

lemmas cell_defs =
  set_expires_def post_wait_def cell_ctor_def cell_scope_expire_def cell_expiration_dtor_def
  cell_check_deadline_def run_wait_handler_def

lemma set_expires_home:
  assumes "at_home a n t M"
  shows "at_home a n t (set_expires t x M)" "view a n t (set_expires t x M) = (view a n t M)\<lparr>timer_expiry := x\<rparr>"
  using assms by (auto simp: at_home_def set_expires_def view_def)

lemma post_wait_home:
  assumes "at_home a n t M"
  shows "at_home a n t (post_wait t a M)" "view a n t (post_wait t a M) = post_deadline (view a n t M)"
  using assms by (auto simp: at_home_def post_wait_def view_def post_deadline_def)

lemma update_home:
  assumes "at_home a n t M"
  shows "at_home a n t (M\<lparr>cells := (cells M)(a \<mapsto> (the (cells M a))\<lparr>cell_fired := b\<rparr>)\<rparr>)"
    "view a n t (M\<lparr>cells := (cells M)(a \<mapsto> (the (cells M a))\<lparr>cell_fired := b\<rparr>)\<rparr>) = (view a n t M)\<lparr>deadline_fired := b\<rparr>"
  using assms by (auto simp: at_home_def view_def)

lemma ctor_home:
  "at_home a n n (cell_ctor A now a n x M)" "view a n n (cell_ctor A now a n x M) = timed_base_ctor A now x"
  by (simp_all add: at_home_def view_def cell_ctor_def set_expires_def post_wait_def timed_base_ctor_def post_deadline_def)

lemma scope_expire_home:
  assumes "at_home a n t M"
  shows "\<exists>r M'. cell_scope_expire A now arg a M = Inr (r, M') \<and> at_home a n t M' \<and>
    scope_expire A now arg (view a n t M) = (map_sum id handle_of r, view a n t M')"
proof -
  obtain c where c: "cells M a = Some c" "timer_ptr c = Some t" using assms by (auto simp: at_home_def)
  let ?M = "M\<lparr>cells := (cells M)(a \<mapsto> c\<lparr>cell_fired := False\<rparr>)\<rparr>"
  have h: "at_home a n t ?M" "view a n t ?M = (view a n t M)\<lparr>deadline_fired := False\<rparr>"
    using update_home [OF assms, of False] c(1) by simp_all
  show ?thesis
    using c h set_expires_home [OF h(1)]
    by (cases arg)
      (auto simp: cell_scope_expire_def scope_expire_def expiration_duration_def expiration_deadline_def
        expiration_dtor_def handle_of_def Let_def)
qed

lemma run_wait_home:
  assumes "at_home a n t M" and "wait_posted (view a n t M)"
  shows "\<exists>M'. run_wait_handler A actor now now' n M = Inr M' \<and> at_home a n t M' \<and>
    view a n t M' = check_deadline A (timed_base.more_update actor) now now' ((view a n t M)\<lparr>wait_posted := False\<rparr>)"
proof -
  obtain c sv tm where c: "cells M a = Some c" "io_service_ptr c = Some n" "timer_ptr c = Some t" "timers M t = Some tm"
    "timer_service tm = n" "services M n = Some sv" "wait_this sv = Some a"
    using assms by (auto simp: at_home_def view_def)
  let ?M = "M\<lparr>services := (services M)(n \<mapsto> sv\<lparr>wait_this := None, wait_ready := False\<rparr>)\<rparr>"
  let ?M' = "?M\<lparr>cells := (cells ?M)(a \<mapsto> c\<lparr>payload := actor (payload c), cell_fired := True\<rparr>)\<rparr>"
  have h: "at_home a n t ?M" "view a n t ?M = (view a n t M)\<lparr>wait_posted := False\<rparr>"
    "at_home a n t ?M'" "view a n t ?M' = (timed_base.more_update actor (view a n t ?M))\<lparr>deadline_fired := True\<rparr>"
    using c by (auto simp: at_home_def view_def)
  have x: "expires tm = timer_expiry (view a n t ?M)" using c by (simp add: view_def)
  show ?thesis
    using c h x set_expires_home [OF h(3)]
    by (simp add: run_wait_handler_def cell_check_deadline_def check_deadline_def post_wait_home)
qed

text \<open>
  C22. An object that is never moved behaves as its members say: constructed in place, its expirations
  and its wait handler never fault, keep it at home and do to the values of its members what the
  operations of \<open>Timed_Base\<close> do.
\<close>

theorem unmoved_object_refines:
  assumes "at_home a n t M"
  shows "(\<exists>r M'. cell_scope_expire A now arg a M = Inr (r, M') \<and> at_home a n t M' \<and>
      scope_expire A now arg (view a n t M) = (map_sum id handle_of r, view a n t M')) \<and>
    (e \<in> {None, Some t} \<longrightarrow> at_home a n t (cell_expiration_dtor A now e M) \<and>
      view a n t (cell_expiration_dtor A now e M) = expiration_dtor A now (handle_of e) (view a n t M)) \<and>
    (wait_posted (view a n t M) \<longrightarrow> (\<exists>M'. run_wait_handler A actor now now' n M = Inr M' \<and> at_home a n t M' \<and>
      view a n t M' = check_deadline A (timed_base.more_update actor) now now' ((view a n t M)\<lparr>wait_posted := False\<rparr>)))"
proof (intro conjI impI)
  show "\<exists>r M'. cell_scope_expire A now arg a M = Inr (r, M') \<and> at_home a n t M' \<and>
      scope_expire A now arg (view a n t M) = (map_sum id handle_of r, view a n t M')"
    using assms by (rule scope_expire_home)
  show "\<exists>M'. run_wait_handler A actor now now' n M = Inr M' \<and> at_home a n t M' \<and>
      view a n t M' = check_deadline A (timed_base.more_update actor) now now' ((view a n t M)\<lparr>wait_posted := False\<rparr>)"
    if "wait_posted (view a n t M)" using assms that by (rule run_wait_home)
qed (auto simp: cell_expiration_dtor_def expiration_dtor_def handle_of_def set_expires_home [OF assms] assms)

definition empty_memory :: "'x memory" where
  "empty_memory = \<lparr>cells = Map.empty, services = Map.empty, timers = Map.empty\<rparr>"

theorem unmoved_object_refines_witness:
  "\<exists>M'. run_wait_handler linux_asio Suc 7 8 1 (cell_ctor linux_asio 0 5 1 (0 :: nat) empty_memory) = Inr M' \<and> at_home 5 1 1 M'"
  using unmoved_object_refines [of 5 1 1 "cell_ctor linux_asio 0 5 1 (0 :: nat) empty_memory" linux_asio 7 "Duration 5"
      None Suc 8] ctor_home [of 5 1 linux_asio 0 "0 :: nat" empty_memory]
  by (auto simp: timed_base_ctor_def post_deadline_def)

section \<open>Moved objects\<close>

text \<open>
  C23. A moved timed object must not be used with a timeout: the wait handler still points to the object
  it was posted by. The first operation with a deadline makes that handler ready, and running it
  dereferences the empty pointer of the moved-from object, or the object itself once that is destroyed.
\<close>

theorem moved_object_faults:
  assumes "at_home a n t M" and "wait_posted (view a n t M)" and "a \<noteq> b" and "cell_move mv a b M = Inr M1"
    and "arg_ok arg" and "arg \<noteq> Duration kInfiniteDuration"
  shows "\<exists>M2. cell_scope_expire A now arg b M1 = Inr (Inr (Some t), M2) \<and>
    map_option wait_ready (services M2 n) = Some True \<and>
    run_wait_handler A actor now1 now2 n M2 = Inl Null_pointer \<and>
    (\<exists>M3. cell_dtor a M2 = Inr M3 \<and> run_wait_handler A actor now1 now2 n M3 = Inl Dead_object)"
proof -
  obtain c sv tm where c: "cells M a = Some c" "io_service_ptr c = Some n" "timer_ptr c = Some t" "timers M t = Some tm"
    "timer_service tm = n" "services M n = Some sv" "wait_this sv = Some a"
    using assms(1,2) by (auto simp: at_home_def view_def)
  obtain taken left where mv: "mv (payload c) = (taken, left)" by (cases "mv (payload c)")
  have M1: "M1 = M\<lparr>cells := (cells M)
      (b \<mapsto> c\<lparr>payload := taken\<rparr>, a \<mapsto> c\<lparr>io_service_ptr := None, timer_ptr := None, payload := left\<rparr>)\<rparr>"
    using assms(4) c(1) mv by (simp add: cell_move_def)
  show ?thesis
    using assms(3,5,6) c
    by (cases arg)
      (auto simp: M1 cell_scope_expire_def set_expires_def run_wait_handler_def cell_check_deadline_def cell_dtor_def
        timer_dtor_def service_dtor_def arg_ok_def Let_def)
qed

theorem moved_object_faults_witness:
  "\<exists>M1 M2. cell_move socket_move 5 6 (cell_ctor linux_asio 0 5 1 (base_socket.fields True 10 20 True) empty_memory) = Inr M1 \<and>
    cell_scope_expire linux_asio 3 (Duration 5000) 6 M1 = Inr (Inr (Some 1), M2) \<and>
    run_wait_handler linux_asio close_fields 4 4 1 M2 = Inl Null_pointer"
proof -
  let ?M = "cell_ctor linux_asio 0 5 1 (base_socket.fields True 10 20 True) empty_memory"
  have h: "at_home 5 1 1 ?M" "wait_posted (view 5 1 1 ?M)"
    by (simp_all add: ctor_home timed_base_ctor_def post_deadline_def)
  have "\<exists>M1. cell_move socket_move 5 6 ?M = Inr M1"
    using h(1) by (auto simp: cell_move_def at_home_def socket_move_def)
  then obtain M1 where M1: "cell_move socket_move 5 6 ?M = Inr M1" ..
  from moved_object_faults [OF h _ M1, of "Duration 5000" linux_asio 3 close_fields 4 4] M1 show ?thesis
    by (auto simp: arg_ok_def duration_defs)
qed

text \<open>
  A move assignment to an object that still owns its \<open>io_service\<close> destroys that service before the
  timer that belongs to it; the destructor does it in the right order, and destroying a moved-from
  object leaves the moved-to one alone.
\<close>

lemma dtor_other_home:
  assumes "at_home a n t M" and "at_home b n' t' M" and "a \<noteq> b" and "n \<noteq> n'" and "t \<noteq> t'"
  shows "\<exists>M'. cell_dtor b M = Inr M' \<and> cells M' b = None \<and> at_home a n t M' \<and> view a n t M' = view a n t M"
  using assms by (auto simp: cell_dtor_def at_home_def timer_dtor_def service_dtor_def view_def)

theorem move_assignment_faults:
  assumes "at_home a n t M" and "at_home b n' t' M" and "a \<noteq> b" and "n \<noteq> n'" and "t \<noteq> t'" and "a \<noteq> c"
  shows "cell_move_assign mv a b M = Inl Dead_service \<and>
    (\<exists>M'. cell_dtor b M = Inr M' \<and> at_home a n t M' \<and> view a n t M' = view a n t M) \<and>
    (\<exists>M1 M2. cell_move mv a c M = Inr M1 \<and> cell_dtor a M1 = Inr M2 \<and> cells M2 c = cells M1 c \<and>
       services M2 = services M \<and> timers M2 = timers M)"
proof (intro conjI)
  show "cell_move_assign mv a b M = Inl Dead_service"
    using assms by (auto simp: cell_move_assign_def at_home_def timer_dtor_def service_dtor_def)
  show "\<exists>M'. cell_dtor b M = Inr M' \<and> at_home a n t M' \<and> view a n t M' = view a n t M"
    using dtor_other_home [OF assms(1-5)] by blast
  show "\<exists>M1 M2. cell_move mv a c M = Inr M1 \<and> cell_dtor a M1 = Inr M2 \<and> cells M2 c = cells M1 c \<and>
       services M2 = services M \<and> timers M2 = timers M"
    using assms(1,6) by (auto simp: cell_move_def cell_dtor_def at_home_def timer_dtor_def service_dtor_def split: prod.splits)
qed

theorem move_assignment_faults_witness:
  "cell_move_assign (\<lambda>x. (x, x)) 5 6 (cell_ctor linux_asio 0 6 2 () (cell_ctor linux_asio 0 5 1 () empty_memory)) =
    Inl Dead_service"
proof -
  let ?M = "cell_ctor linux_asio 0 6 2 () (cell_ctor linux_asio 0 5 1 () empty_memory)"
  have "at_home 5 1 1 ?M"
    by (simp add: at_home_def cell_ctor_def set_expires_def post_wait_def)
  moreover have "at_home 6 2 2 ?M" by (rule ctor_home)
  ultimately show ?thesis using move_assignment_faults [of 5 1 1 ?M 6 2 2 7] by simp
qed

end
