(* ===== verification/Session_Moves.thy ===== *)
theory Session_Moves
  imports Timed_Move
begin

text \<open>
  Moving SSL and HTTP sessions (\<open>stream/ssl_stream_socket.hpp\<close>, \<open>stream/http_socket.hpp\<close>).

  An SSL socket has two members, the \<open>ssl::context\<close> and a \<open>unique_ptr\<close> to the \<open>ssl::stream\<close> that contains the
  TCP client; an HTTP socket contains its stream and a buffer. Their moves are defaulted. The memory
  of \<open>Timed_Move\<close> holds the timed objects: the TCP client of an SSL socket has the address of the
  \<open>ssl::stream\<close>, that of an HTTP socket the address of the HTTP socket.
\<close>

section \<open>Objects in memory\<close>

record ssl_object =
  ssl_context_handle :: "nat option"
  ssl_stream_ptr :: "nat option"

record 'x ssl_memory =
  ssl_objects :: "nat \<rightharpoonup> ssl_object"
  layers :: "'x memory"

text \<open>The move constructor: the context and the pointer go to \<open>b\<close> and leave \<open>a\<close> empty.\<close>

definition moved_from :: ssl_object where
  "moved_from = \<lparr>ssl_context_handle = None, ssl_stream_ptr = None\<rparr>"

definition ssl_move :: "nat \<Rightarrow> nat \<Rightarrow> 'x ssl_memory \<Rightarrow> fault + 'x ssl_memory" where
  "ssl_move a b M =
     (case ssl_objects M a of
        None \<Rightarrow> Inl Dead_object
      | Some obj \<Rightarrow> Inr (M\<lparr>ssl_objects := (ssl_objects M)(b \<mapsto> obj, a \<mapsto> moved_from)\<rparr>))"

text \<open>Destroying what a \<open>unique_ptr\<close> owns; the stream destroys the TCP client in it.\<close>

definition stream_dtor :: "nat option \<Rightarrow> 'x ssl_memory \<Rightarrow> fault + 'x ssl_memory" where
  "stream_dtor p M =
     (case p of
        None \<Rightarrow> Inr M
      | Some c \<Rightarrow> (case cell_dtor c (layers M) of Inl f \<Rightarrow> Inl f | Inr L \<Rightarrow> Inr (M\<lparr>layers := L\<rparr>)))"

text \<open>\<open>b = std::move(a)\<close> for different objects: the stream \<open>b\<close> had is destroyed.\<close>

definition ssl_move_assign :: "nat \<Rightarrow> nat \<Rightarrow> 'x ssl_memory \<Rightarrow> fault + 'x ssl_memory" where
  "ssl_move_assign a b M =
     (case (ssl_objects M a, ssl_objects M b) of
        (Some obj, Some old) \<Rightarrow>
          (case stream_dtor (ssl_stream_ptr old) M of
             Inl f \<Rightarrow> Inl f
           | Inr M' \<Rightarrow> Inr (M'\<lparr>ssl_objects := (ssl_objects M')(b \<mapsto> obj, a \<mapsto> moved_from)\<rparr>))
      | _ \<Rightarrow> Inl Dead_object)"

definition ssl_dtor :: "nat \<Rightarrow> 'x ssl_memory \<Rightarrow> fault + 'x ssl_memory" where
  "ssl_dtor a M =
     (case ssl_objects M a of
        None \<Rightarrow> Inl Dead_object
      | Some obj \<Rightarrow>
          (case stream_dtor (ssl_stream_ptr obj) M of
             Inl f \<Rightarrow> Inl f
           | Inr M' \<Rightarrow> Inr (M'\<lparr>ssl_objects := (ssl_objects M')(a := None)\<rparr>)))"

text \<open>\<open>next_layer\<close> dereferences the pointer to the stream; every other accessor goes through it.\<close>

definition ssl_layer_at :: "nat \<Rightarrow> 'x ssl_memory \<Rightarrow> fault + nat" where
  "ssl_layer_at a M =
     (case ssl_objects M a of
        None \<Rightarrow> Inl Dead_object
      | Some obj \<Rightarrow> (case ssl_stream_ptr obj of None \<Rightarrow> Inl Null_pointer | Some c \<Rightarrow> Inr c))"

definition ssl_cell_scope_expire ::
  "asio \<Rightarrow> tick \<Rightarrow> time_arg \<Rightarrow> nat \<Rightarrow> 'x ssl_memory \<Rightarrow> fault + (exn + nat option) \<times> 'x ssl_memory" where
  "ssl_cell_scope_expire A now arg a M =
     (case ssl_layer_at a M of
        Inl f \<Rightarrow> Inl f
      | Inr c \<Rightarrow>
          (case cell_scope_expire A now arg c (layers M) of
             Inl f \<Rightarrow> Inl f
           | Inr (r, L) \<Rightarrow> Inr (r, M\<lparr>layers := L\<rparr>)))"

text \<open>
  An HTTP socket: its stream is moved by the move of the stream's type, its buffer by \<open>mv\<close> (what the
  destination gets, what is left).
\<close>

definition http_move ::
  "(nat \<Rightarrow> nat \<Rightarrow> 'm \<Rightarrow> fault + 'm) \<Rightarrow> ('b \<Rightarrow> 'b \<times> 'b) \<Rightarrow> nat \<Rightarrow> nat \<Rightarrow> (nat \<rightharpoonup> 'b) \<times> 'm \<Rightarrow> fault + (nat \<rightharpoonup> 'b) \<times> 'm" where
  "http_move stream_move mv a b S =
     (case S of (buffers, M) \<Rightarrow>
        (case stream_move a b M of
           Inl f \<Rightarrow> Inl f
         | Inr M' \<Rightarrow>
             (case buffers a of
                None \<Rightarrow> Inl Dead_object
              | Some x \<Rightarrow> (case mv x of (taken, left) \<Rightarrow> Inr (buffers(b \<mapsto> taken, a \<mapsto> left), M')))))"

section \<open>Moves of SSL sockets are safe\<close>

text \<open>The SSL socket at \<open>a\<close> owns the stream at \<open>c\<close>, whose TCP client is where it was constructed.\<close>

definition ssl_home :: "nat \<Rightarrow> nat \<Rightarrow> nat \<Rightarrow> nat \<Rightarrow> 'x ssl_memory \<Rightarrow> bool" where
  "ssl_home a c n t M \<longleftrightarrow>
     (\<exists>obj. ssl_objects M a = Some obj \<and> ssl_stream_ptr obj = Some c) \<and> at_home c n t (layers M)"

lemmas ssl_memory_defs =
  ssl_move_def ssl_move_assign_def ssl_dtor_def stream_dtor_def ssl_layer_at_def moved_from_def

lemma ssl_move_home:
  assumes "ssl_home a c n t M" and "a \<noteq> b"
  shows "\<exists>M'. ssl_move a b M = Inr M' \<and> ssl_home b c n t M' \<and> layers M' = layers M \<and>
    ssl_layer_at a M' = Inl Null_pointer"
  using assms by (auto simp: ssl_home_def ssl_memory_defs)

lemma moved_from_dtor:
  assumes "ssl_home b c n t M" and "ssl_layer_at a M = Inl Null_pointer"
  shows "\<exists>M'. ssl_dtor a M = Inr M' \<and> ssl_home b c n t M' \<and> layers M' = layers M"
  using assms by (auto simp: ssl_home_def ssl_memory_defs split: option.splits)

lemma ssl_expire_home:
  assumes "ssl_home a c n t M"
  shows "\<exists>r M'. ssl_cell_scope_expire A now arg a M = Inr (r, M') \<and> ssl_home a c n t M' \<and>
    scope_expire A now arg (view c n t (layers M)) = (map_sum id handle_of r, view c n t (layers M'))"
proof -
  have c: "ssl_layer_at a M = Inr c" using assms by (auto simp: ssl_home_def ssl_layer_at_def)
  have "at_home c n t (layers M)" using assms by (simp add: ssl_home_def)
  from scope_expire_home [OF this] obtain r L where "cell_scope_expire A now arg c (layers M) = Inr (r, L)"
    "at_home c n t L" "scope_expire A now arg (view c n t (layers M)) = (map_sum id handle_of r, view c n t L)"
    by blast
  with assms c show ?thesis by (auto simp: ssl_cell_scope_expire_def ssl_home_def)
qed

text \<open>
  C24. An SSL socket may be moved: after the move construction, and after the moved-from socket is
  destroyed, the new socket owns the same TCP client, which has not moved, so its expirations and its
  wait handler do exactly what they do for a socket that was never moved. Move assignment also
  works, and destroys the stream that was there before.
\<close>

theorem ssl_move_safe:
  assumes "ssl_home a c n t M" and "a \<noteq> b"
  shows "(\<exists>M1 M2. ssl_move a b M = Inr M1 \<and> ssl_dtor a M1 = Inr M2 \<and> ssl_home b c n t M2 \<and>
      view c n t (layers M2) = view c n t (layers M) \<and>
      (\<exists>r M3. ssl_cell_scope_expire A now arg b M2 = Inr (r, M3) \<and> ssl_home b c n t M3 \<and>
         scope_expire A now arg (view c n t (layers M2)) = (map_sum id handle_of r, view c n t (layers M3))) \<and>
      (wait_posted (view c n t (layers M2)) \<longrightarrow>
         (\<exists>L. run_wait_handler A actor now now' n (layers M2) = Inr L \<and> at_home c n t L \<and>
            view c n t L = check_deadline A (timed_base.more_update actor) now now'
              ((view c n t (layers M2))\<lparr>wait_posted := False\<rparr>)))) \<and>
    (ssl_home b c' n' t' M \<and> c \<noteq> c' \<and> n \<noteq> n' \<and> t \<noteq> t' \<longrightarrow>
      (\<exists>M1. ssl_move_assign a b M = Inr M1 \<and> ssl_home b c n t M1 \<and> cells (layers M1) c' = None \<and>
         view c n t (layers M1) = view c n t (layers M)))"
proof (intro conjI impI)
  obtain M1 where M1: "ssl_move a b M = Inr M1" "ssl_home b c n t M1" "layers M1 = layers M" "ssl_layer_at a M1 = Inl Null_pointer"
    using ssl_move_home [OF assms] by blast
  obtain M2 where M2: "ssl_dtor a M1 = Inr M2" "ssl_home b c n t M2" "layers M2 = layers M1"
    using moved_from_dtor [OF M1(2,4)] by blast
  have "at_home c n t (layers M2)" using M2(2) by (simp add: ssl_home_def)
  from run_wait_home [OF this] M1 M2 ssl_expire_home [OF M2(2)]
  show "\<exists>M1 M2. ssl_move a b M = Inr M1 \<and> ssl_dtor a M1 = Inr M2 \<and> ssl_home b c n t M2 \<and>
      view c n t (layers M2) = view c n t (layers M) \<and>
      (\<exists>r M3. ssl_cell_scope_expire A now arg b M2 = Inr (r, M3) \<and> ssl_home b c n t M3 \<and>
         scope_expire A now arg (view c n t (layers M2)) = (map_sum id handle_of r, view c n t (layers M3))) \<and>
      (wait_posted (view c n t (layers M2)) \<longrightarrow>
         (\<exists>L. run_wait_handler A actor now now' n (layers M2) = Inr L \<and> at_home c n t L \<and>
            view c n t L = check_deadline A (timed_base.more_update actor) now now'
              ((view c n t (layers M2))\<lparr>wait_posted := False\<rparr>)))"
    by (intro exI [of _ M1] exI [of _ M2]) simp
next
  assume b: "ssl_home b c' n' t' M \<and> c \<noteq> c' \<and> n \<noteq> n' \<and> t \<noteq> t'"
  then obtain L where "cell_dtor c' (layers M) = Inr L" "cells L c' = None" "at_home c n t L" "view c n t L = view c n t (layers M)"
    using assms(1) dtor_other_home [of c n t "layers M" c' n' t'] by (auto simp: ssl_home_def)
  with assms b show "\<exists>M1. ssl_move_assign a b M = Inr M1 \<and> ssl_home b c n t M1 \<and> cells (layers M1) c' = None \<and>
      view c n t (layers M1) = view c n t (layers M)"
    by (auto simp: ssl_home_def ssl_move_assign_def stream_dtor_def)
qed

definition sample_ssl_memory :: "unit ssl_memory" where
  "sample_ssl_memory =
     \<lparr>ssl_objects = [5 \<mapsto> \<lparr>ssl_context_handle = Some 1, ssl_stream_ptr = Some 8\<rparr>,
        6 \<mapsto> \<lparr>ssl_context_handle = Some 2, ssl_stream_ptr = Some 9\<rparr>],
      layers = cell_ctor linux_asio 0 9 2 () (cell_ctor linux_asio 0 8 1 () empty_memory)\<rparr>"

lemma sample_ssl_home: "ssl_home 5 8 1 1 sample_ssl_memory" "ssl_home 6 9 2 2 sample_ssl_memory"
  by (simp_all add: ssl_home_def sample_ssl_memory_def at_home_def cell_ctor_def set_expires_def post_wait_def)

theorem ssl_move_safe_witness:
  "(\<exists>M1 M2. ssl_move 5 7 sample_ssl_memory = Inr M1 \<and> ssl_dtor 5 M1 = Inr M2 \<and> ssl_home 7 8 1 1 M2) \<and>
   (\<exists>M1. ssl_move_assign 5 6 sample_ssl_memory = Inr M1 \<and> ssl_home 6 8 1 1 M1 \<and> cells (layers M1) 9 = None)"
proof
  show "\<exists>M1 M2. ssl_move 5 7 sample_ssl_memory = Inr M1 \<and> ssl_dtor 5 M1 = Inr M2 \<and> ssl_home 7 8 1 1 M2"
    using ssl_move_safe [OF sample_ssl_home(1), of 7 linux_asio 3 "Duration 5000" id 4 9 2 2] by auto
  show "\<exists>M1. ssl_move_assign 5 6 sample_ssl_memory = Inr M1 \<and> ssl_home 6 8 1 1 M1 \<and> cells (layers M1) 9 = None"
    using ssl_move_safe [OF sample_ssl_home(1), of 6 linux_asio 3 "Duration 5000" id 4 9 2 2] sample_ssl_home(2) by auto
qed

text \<open>
  Of the two HTTP sessions the one over SSL may be moved; the one over TCP is moved with its timer and
  fails like any moved timed object.
\<close>

lemma https_move_home:
  assumes "ssl_home a c n t M" and "a \<noteq> b" and "buffers a = Some x"
  shows "\<exists>buffers' M'. http_move ssl_move mv a b (buffers, M) = Inr (buffers', M') \<and> ssl_home b c n t M' \<and>
    buffers' b = Some (fst (mv x)) \<and> layers M' = layers M"
  using ssl_move_home [OF assms(1,2)] assms(2,3) by (auto simp: http_move_def split: prod.splits)

lemma http_move_pointer:
  assumes "at_home a n t M" and "wait_posted (view a n t M)" and "a \<noteq> b" and "buffers a = Some x"
  shows "\<exists>buffers' M'. http_move (cell_move smv) mv a b (buffers, M) = Inr (buffers', M') \<and>
    run_wait_handler A actor now now' n M' = Inl Null_pointer"
  using assms
  by (auto simp: http_move_def cell_move_def at_home_def view_def run_wait_handler_def cell_check_deadline_def split: prod.splits)

end
