(* ===== verification/Stream_Socket.thy ===== *)
theory Stream_Socket
  imports Base_Socket
begin

text \<open>
  The TCP stream client (\<open>stream/stream_socket.hpp\<close>, \<open>stream/impl/stream_socket.ipp\<close>).
  \<open>send\<close> and \<open>receive\<close> transfer whole buffers and repeat the operation while it reports
  \<open>try_again\<close>; \<open>write_some\<close> and \<open>read_some\<close> make one transfer. A buffer sequence enters a call
  through the completions of its Boost.Asio operation only, whose result is the number of bytes.

  A call gives \<open>None\<close> when it does not return. Otherwise it gives the socket after the call and
  either the exception it threw or the pair of the error code and the byte count.
\<close>

type_synonym io_result = "((exn + error_code \<times> nat) \<times> base_socket) option"

section \<open>The four timed transfers\<close>

definition add_handler :: "bool \<Rightarrow> error_code \<Rightarrow> nat \<Rightarrow> nat \<Rightarrow> error_code \<times> nat" where
  "add_handler fired err n_bytes transfered_bytes =
     (completion_code fired err, transfered_bytes + n_bytes)"

definition set_handler :: "bool \<Rightarrow> error_code \<Rightarrow> nat \<Rightarrow> nat \<Rightarrow> error_code \<times> nat" where
  "set_handler fired err n_bytes transfered_bytes = (completion_code fired err, n_bytes)"

text \<open>
  \<open>async_send\<close> and \<open>async_receive\<close> set the expiration up only on the first round; the handler owns
  it. only the setup can throw.
\<close>

definition setup_expiration ::
  "asio \<Rightarrow> tick \<Rightarrow> time_arg \<Rightarrow> bool \<Rightarrow> 'a timed_base_scheme \<Rightarrow> (exn + expiration) \<times> 'a timed_base_scheme" where
  "setup_expiration A now arg fresh s = (if fresh then scope_expire A now arg s else (Inr Null_timer, s))"

definition io_service_reset :: "'a timed_base_scheme \<Rightarrow> 'a timed_base_scheme" where
  "io_service_reset s = s\<lparr>io_stopped := False\<rparr>"

text \<open>The loop of \<open>send\<close> and \<open>receive\<close>: one round per asynchronous operation.\<close>

function transfer_loop ::
  "asio \<Rightarrow> sock_env \<Rightarrow> tick \<Rightarrow> time_arg \<Rightarrow> bool \<Rightarrow> nat io_event list \<Rightarrow> nat \<Rightarrow> base_socket \<Rightarrow> io_result" where
  "transfer_loop A E now arg fresh es transfered_bytes s =
     (case setup_expiration A now arg fresh s of
        (Inl x, s1) \<Rightarrow> Some (Inl x, s1)
      | (Inr e, s1) \<Rightarrow>
          (case io_run A (deadline_actor E) add_handler e es Would_block transfered_bytes s1 of
             None \<Rightarrow> None
           | Some (ec, n, s2, rest) \<Rightarrow>
               if ec = try_again A then transfer_loop A E now arg False rest n s2
               else Some (Inr (ec, n), io_service_reset s2)))"
  by pat_completeness auto
termination
  by (relation "measure (\<lambda>(A, E, now, arg, fresh, es, n, s). length es)") (auto dest: io_run_consumes)

declare transfer_loop.simps [simp del]

definition stream_send ::
  "asio \<Rightarrow> sock_env \<Rightarrow> tick \<Rightarrow> nat io_event list \<Rightarrow> time_arg \<Rightarrow> base_socket \<Rightarrow> io_result" where
  "stream_send A E now es timeout_or_deadline s = transfer_loop A E now timeout_or_deadline True es 0 s"

definition stream_receive ::
  "asio \<Rightarrow> sock_env \<Rightarrow> tick \<Rightarrow> nat io_event list \<Rightarrow> time_arg \<Rightarrow> base_socket \<Rightarrow> io_result" where
  "stream_receive A E now es timeout_or_deadline s = transfer_loop A E now timeout_or_deadline True es 0 s"

definition transfer_once ::
  "asio \<Rightarrow> sock_env \<Rightarrow> tick \<Rightarrow> nat io_event list \<Rightarrow> time_arg \<Rightarrow> base_socket \<Rightarrow> io_result" where
  "transfer_once A E now es arg s =
     (case scope_expire A now arg s of
        (Inl x, s1) \<Rightarrow> Some (Inl x, s1)
      | (Inr e, s1) \<Rightarrow>
          (case io_run A (deadline_actor E) set_handler e es Would_block 0 s1 of
             None \<Rightarrow> None
           | Some (ec, n, s2, rest) \<Rightarrow> Some (Inr (ec, n), io_service_reset s2)))"

definition write_some ::
  "asio \<Rightarrow> sock_env \<Rightarrow> tick \<Rightarrow> nat io_event list \<Rightarrow> time_arg \<Rightarrow> base_socket \<Rightarrow> io_result" where
  "write_some A E now es timeout_or_deadline s = transfer_once A E now es timeout_or_deadline s"

definition read_some ::
  "asio \<Rightarrow> sock_env \<Rightarrow> tick \<Rightarrow> nat io_event list \<Rightarrow> time_arg \<Rightarrow> base_socket \<Rightarrow> io_result" where
  "read_some A E now es timeout_or_deadline s = transfer_once A E now es timeout_or_deadline s"

section \<open>Overloads\<close>

text \<open>The throwing overloads turn a set code into an exception.\<close>

definition throwing :: "string \<Rightarrow> io_result \<Rightarrow> ((exn + nat) \<times> base_socket) option" where
  "throwing what res =
     (case res of
        None \<Rightarrow> None
      | Some (Inl x, s) \<Rightarrow> Some (Inl x, s)
      | Some (Inr (ec, n), s) \<Rightarrow> Some (throw_if_error what ec n, s))"

definition stream_send_throw ::
  "asio \<Rightarrow> sock_env \<Rightarrow> tick \<Rightarrow> nat io_event list \<Rightarrow> time_arg \<Rightarrow> base_socket \<Rightarrow> ((exn + nat) \<times> base_socket) option" where
  "stream_send_throw A E now es arg s = throwing ''Socket send() failed'' (stream_send A E now es arg s)"

definition stream_receive_throw ::
  "asio \<Rightarrow> sock_env \<Rightarrow> tick \<Rightarrow> nat io_event list \<Rightarrow> time_arg \<Rightarrow> base_socket \<Rightarrow> ((exn + nat) \<times> base_socket) option" where
  "stream_receive_throw A E now es arg s =
     throwing ''Socket receive() failed'' (stream_receive A E now es arg s)"

definition write_some_throw ::
  "asio \<Rightarrow> sock_env \<Rightarrow> tick \<Rightarrow> nat io_event list \<Rightarrow> time_arg \<Rightarrow> base_socket \<Rightarrow> ((exn + nat) \<times> base_socket) option" where
  "write_some_throw A E now es arg s = throwing ''Socket write_some() failed'' (write_some A E now es arg s)"

definition read_some_throw ::
  "asio \<Rightarrow> sock_env \<Rightarrow> tick \<Rightarrow> nat io_event list \<Rightarrow> time_arg \<Rightarrow> base_socket \<Rightarrow> ((exn + nat) \<times> base_socket) option" where
  "read_some_throw A E now es arg s = throwing ''Socket read_some() failed'' (read_some A E now es arg s)"

text \<open>The aliases without a timeout use the current I/O timeout.\<close>

definition stream_send_default :: "asio \<Rightarrow> sock_env \<Rightarrow> tick \<Rightarrow> nat io_event list \<Rightarrow> base_socket \<Rightarrow> io_result" where
  "stream_send_default A E now es s = stream_send A E now es (Duration (io_timeout s)) s"

definition stream_receive_default :: "asio \<Rightarrow> sock_env \<Rightarrow> tick \<Rightarrow> nat io_event list \<Rightarrow> base_socket \<Rightarrow> io_result" where
  "stream_receive_default A E now es s = stream_receive A E now es (Duration (io_timeout s)) s"

definition write_some_default :: "asio \<Rightarrow> sock_env \<Rightarrow> tick \<Rightarrow> nat io_event list \<Rightarrow> base_socket \<Rightarrow> io_result" where
  "write_some_default A E now es s = write_some A E now es (Duration (io_timeout s)) s"

definition read_some_default :: "asio \<Rightarrow> sock_env \<Rightarrow> tick \<Rightarrow> nat io_event list \<Rightarrow> base_socket \<Rightarrow> io_result" where
  "read_some_default A E now es s = read_some A E now es (Duration (io_timeout s)) s"

definition stream_send_throw_default ::
  "asio \<Rightarrow> sock_env \<Rightarrow> tick \<Rightarrow> nat io_event list \<Rightarrow> base_socket \<Rightarrow> ((exn + nat) \<times> base_socket) option" where
  "stream_send_throw_default A E now es s = stream_send_throw A E now es (Duration (io_timeout s)) s"

definition stream_receive_throw_default ::
  "asio \<Rightarrow> sock_env \<Rightarrow> tick \<Rightarrow> nat io_event list \<Rightarrow> base_socket \<Rightarrow> ((exn + nat) \<times> base_socket) option" where
  "stream_receive_throw_default A E now es s = stream_receive_throw A E now es (Duration (io_timeout s)) s"

definition write_some_throw_default ::
  "asio \<Rightarrow> sock_env \<Rightarrow> tick \<Rightarrow> nat io_event list \<Rightarrow> base_socket \<Rightarrow> ((exn + nat) \<times> base_socket) option" where
  "write_some_throw_default A E now es s = write_some_throw A E now es (Duration (io_timeout s)) s"

definition read_some_throw_default ::
  "asio \<Rightarrow> sock_env \<Rightarrow> tick \<Rightarrow> nat io_event list \<Rightarrow> base_socket \<Rightarrow> ((exn + nat) \<times> base_socket) option" where
  "read_some_throw_default A E now es s = read_some_throw A E now es (Duration (io_timeout s)) s"

section \<open>Closing\<close>

text \<open>
  \<open>stream_socket::close\<close>: \<open>shutdown_result\<close> is the code that \<open>shutdown(shutdown_both)\<close> sets. The
  deadline actor and the destructor of the base class call \<open>base_socket::close\<close> instead.
\<close>

definition stream_close :: "error_code \<Rightarrow> sock_env \<Rightarrow> base_socket \<Rightarrow> error_code \<times> base_socket" where
  "stream_close shutdown_result E s =
     (if shutdown_result \<noteq> Not_connected then (shutdown_result, s) else base_close E s)"

section \<open>The transfers, once and for all\<close>

definition again_ok :: "asio \<Rightarrow> bool" where
  "again_ok A \<longleftrightarrow> try_again A = Would_block \<or> try_again A = Try_again"

lemma again_ok_asio [simp]: "again_ok linux_asio" "again_ok posix_asio"
  by (simp_all add: again_ok_def linux_asio_def posix_asio_def)

lemma io_service_reset_armed [simp]: "armed s \<Longrightarrow> io_service_reset s = s"
  by (cases s) (simp add: armed_def io_service_reset_def)

lemma setup_ok:
  assumes "arg_ok arg" and "armed s"
  obtains e s1 where "scope_expire A now arg s = (Inr e, s1)" "armed s1" "\<not> deadline_fired s1"
    "timer_expiry s1 = expiry_of A now arg (timer_expiry s)"
    "\<forall>hit s'. after_wait hit s1 s' \<longleftrightarrow> after_wait hit s s'"
    "e = Timer \<longleftrightarrow> arg \<noteq> Duration kInfiniteDuration"
  using assms by (intro that [OF scope_expire_ok]) (auto simp: armed_def after_wait_def)

text \<open>One wait of a transfer, for a handler that reports the completion code.\<close>

lemma transfer_wait:
  assumes "armed s" and "arg_ok arg" and "completes es t err n"
    and "hit = deadline_hit (expiry_of A now arg (timer_expiry s)) es"
    and "\<And>fired err n. h fired err n m = (completion_code fired err, f n)"
  obtains e s1 s2 where "scope_expire A now arg s = (Inr e, s1)"
    "io_run A (deadline_actor E) h e es Would_block m s1 =
       Some (completion_code hit err, f n, s2, after_completion es)"
    "after_wait hit s s2" "arg \<noteq> Duration kInfiniteDuration \<Longrightarrow> timer_expiry s2 = time_add A t kInfiniteDuration"
proof -
  obtain e s1 where s1: "scope_expire A now arg s = (Inr e, s1)" "armed s1" "\<not> deadline_fired s1"
    "timer_expiry s1 = expiry_of A now arg (timer_expiry s)"
    "\<forall>hit s'. after_wait hit s1 s' \<longleftrightarrow> after_wait hit s s'" "e = Timer \<longleftrightarrow> arg \<noteq> Duration kInfiniteDuration"
    by (rule setup_ok [OF assms(2,1), of A now])
  have "completion_code hit err \<noteq> Would_block" "first_completion es = Some (t, err, n)"
    using assms(3) by (simp_all add: completes_def completion_code_def)
  then obtain s2 where "io_run A (deadline_actor E) h e es Would_block m s1 =
      Some (completion_code hit err, f n, s2, after_completion es)" "after_wait hit s1 s2"
    "e = Timer \<longrightarrow> timer_expiry s2 = time_add A t kInfiniteDuration"
    using socket_io_run [of s1 es t err n h m "completion_code hit err" "f n" A E e] s1 assms(4,5) by auto
  with s1 show thesis by (intro that [of e s1 s2]) auto
qed

lemma transfer_loop_once:
  assumes "armed s" and "arg_ok arg" and "completes es t err n" and "again_ok A" and "err \<noteq> try_again A"
    and "hit = deadline_hit (expiry_of A now arg (timer_expiry s)) es"
  shows "\<exists>s'. transfer_loop A E now arg True es m s = Some (Inr (completion_code hit err, m + n), s') \<and>
    after_wait hit s s' \<and> (arg \<noteq> Duration kInfiniteDuration \<longrightarrow> timer_expiry s' = time_add A t kInfiniteDuration)"
proof -
  obtain e s1 s2 where w: "scope_expire A now arg s = (Inr e, s1)"
    "io_run A (deadline_actor E) add_handler e es Would_block m s1 =
       Some (completion_code hit err, m + n, s2, after_completion es)"
    "after_wait hit s s2" "arg \<noteq> Duration kInfiniteDuration \<Longrightarrow> timer_expiry s2 = time_add A t kInfiniteDuration"
    by (rule transfer_wait [OF assms(1-3,6), of add_handler m "\<lambda>n. m + n"]) (auto simp: add_handler_def)
  have "completion_code hit err \<noteq> try_again A"
    using assms(4,5) by (auto simp: completion_code_def again_ok_def)
  moreover have "armed s2" using w(3) by (simp add: after_wait_def)
  ultimately show ?thesis
    using w by (subst transfer_loop.simps) (auto simp: setup_expiration_def)
qed

lemma transfer_once_outcome:
  assumes "armed s" and "arg_ok arg" and "completes es t err n"
    and "hit = deadline_hit (expiry_of A now arg (timer_expiry s)) es"
  shows "\<exists>s'. transfer_once A E now es arg s = Some (Inr (completion_code hit err, n), s') \<and>
    after_wait hit s s' \<and> (arg \<noteq> Duration kInfiniteDuration \<longrightarrow> timer_expiry s' = time_add A t kInfiniteDuration)"
proof -
  obtain e s1 s2 where w: "scope_expire A now arg s = (Inr e, s1)"
    "io_run A (deadline_actor E) set_handler e es Would_block 0 s1 =
       Some (completion_code hit err, n, s2, after_completion es)"
    "after_wait hit s s2" "arg \<noteq> Duration kInfiniteDuration \<Longrightarrow> timer_expiry s2 = time_add A t kInfiniteDuration"
    by (rule transfer_wait [OF assms, of set_handler 0 "\<lambda>n. n"]) (auto simp: set_handler_def)
  moreover have "armed s2" using w(3) by (simp add: after_wait_def)
  ultimately show ?thesis by (auto simp: transfer_once_def)
qed

text \<open>A round that reports \<open>try_again\<close> continues with the remaining events and no expiration.\<close>

lemma transfer_loop_retry:
  assumes "armed s" and "arg_ok arg" and "completes es t (try_again A) n"
    and "\<not> deadline_hit (expiry_of A now arg (timer_expiry s)) es"
  shows "\<exists>s'. transfer_loop A E now arg True es m s =
      transfer_loop A E now arg False (after_completion es) (m + n) s' \<and>
    after_wait False s s' \<and> (arg \<noteq> Duration kInfiniteDuration \<longrightarrow> timer_expiry s' = time_add A t kInfiniteDuration)"
proof -
  have hit: "False = deadline_hit (expiry_of A now arg (timer_expiry s)) es"
    using assms(4) by simp
  obtain e s1 s2 where w: "scope_expire A now arg s = (Inr e, s1)"
    "io_run A (deadline_actor E) add_handler e es Would_block m s1 =
       Some (completion_code False (try_again A), m + n, s2, after_completion es)"
    "after_wait False s s2" "arg \<noteq> Duration kInfiniteDuration \<Longrightarrow> timer_expiry s2 = time_add A t kInfiniteDuration"
    by (rule transfer_wait [OF assms(1-3) hit, of add_handler m "\<lambda>n. m + n"]) (auto simp: add_handler_def)
  then show ?thesis
    by (subst transfer_loop.simps) (auto simp: setup_expiration_def completion_code_def)
qed

lemma transfer_loop_no_setup:
  assumes "armed s" and "\<not> deadline_fired s" and "completes es t err n" and "err \<noteq> try_again A"
    and "\<not> deadline_hit (timer_expiry s) es"
  shows "\<exists>s'. transfer_loop A E now arg False es m s = Some (Inr (err, m + n), s') \<and> after_wait False s s'"
proof -
  obtain s2 where "io_run A (deadline_actor E) add_handler Null_timer es Would_block m s =
      Some (err, m + n, s2, after_completion es)" "after_wait False s s2"
    using socket_io_run [of s es t err n add_handler m err "m + n" A E Null_timer] assms
    by (auto simp: add_handler_def completion_code_def completes_def)
  moreover from this(2) have "armed s2" by (simp add: after_wait_def)
  ultimately show ?thesis
    using assms(4) by (subst transfer_loop.simps) (auto simp: setup_expiration_def)
qed

text \<open>Whenever a transfer returns, normally or by an exception, no deadline is left pending.\<close>

lemma scope_expire_idle:
  assumes "timer_saturates A" and "0 \<le> now" and "idle s" and "scope_expire A now arg s = (r, s1)"
  shows "armed s1" and "r = Inl x \<Longrightarrow> idle s1"
    and "r = Inr e \<Longrightarrow> timer_expiry s1 = kInfiniteDuration \<or> e = Timer"
  using assms
  by (auto simp: idle_def armed_def timed_defs Let_def timer_infinite split: time_arg.splits if_splits)

lemma setup_expiration_idle:
  assumes "timer_saturates A" and "0 \<le> now" and "idle s"
    and "setup_expiration A now arg fresh s = (r, s1)"
  shows "armed s1" and "r = Inl x \<Longrightarrow> idle s1"
    and "r = Inr e \<Longrightarrow> timer_expiry s1 = kInfiniteDuration \<or> e = Timer"
  using assms scope_expire_idle [OF assms(1-3)]
  by (auto simp: setup_expiration_def idle_def split: if_splits)

lemma transfer_loop_idle:
  "timer_saturates A \<Longrightarrow> 0 \<le> now \<Longrightarrow> clock_ok es \<Longrightarrow> idle s \<Longrightarrow>
     transfer_loop A E now arg fresh es m s = Some (r, s') \<Longrightarrow> idle s'"
proof (induction A E now arg fresh es m s rule: transfer_loop.induct)
  case (1 A E now arg fresh es m s)
  obtain q s1 where q: "setup_expiration A now arg fresh s = (q, s1)" by force
  note idle1 = setup_expiration_idle [OF "1.prems"(1,2,4) q]
  show ?case
  proof (cases q)
    case (Inl x)
    with idle1(2) q "1.prems"(5) show ?thesis by (subst (asm) transfer_loop.simps) auto
  next
    case (Inr e)
    with q "1.prems"(5) obtain ec n s2 rest where
      run: "io_run A (deadline_actor E) add_handler e es Would_block m s1 = Some (ec, n, s2, rest)"
      by (subst (asm) transfer_loop.simps) (auto split: option.splits)
    have "armed s2 \<and> timer_expiry s2 = kInfiniteDuration \<and> clock_ok rest"
      by (rule socket_timer.io_run_idle [OF "1.prems"(1,3) run idle1(1)]) (use idle1(3) Inr in auto)
    with "1.IH" [OF q [symmetric] Inr run refl refl refl] "1.prems" q Inr run show ?thesis
      by (subst (asm) transfer_loop.simps) (auto simp: idle_def split: if_splits)
  qed
qed

lemma transfer_once_idle:
  assumes "timer_saturates A" and "0 \<le> now" and "clock_ok es" and "idle s"
    and "transfer_once A E now es arg s = Some (r, s')"
  shows "idle s'"
proof -
  obtain q s1 where q: "scope_expire A now arg s = (q, s1)" by force
  note idle1 = scope_expire_idle [OF assms(1,2,4) q]
  show ?thesis
  proof (cases q)
    case (Inl x)
    with idle1(2) q assms(5) show ?thesis by (auto simp: transfer_once_def)
  next
    case (Inr e)
    with q assms(5) obtain ec n s2 rest where
      run: "io_run A (deadline_actor E) set_handler e es Would_block 0 s1 = Some (ec, n, s2, rest)"
      by (auto simp: transfer_once_def split: option.splits)
    have "armed s2 \<and> timer_expiry s2 = kInfiniteDuration \<and> clock_ok rest"
      by (rule socket_timer.io_run_idle [OF assms(1,3) run idle1(1)]) (use idle1(3) Inr in auto)
    with q Inr run assms(5) show ?thesis by (auto simp: transfer_once_def idle_def)
  qed
qed

section \<open>Properties\<close>

definition sample_socket :: base_socket where
  "sample_socket = \<lparr>deadline_fired = False, timer_expiry = kInfiniteDuration, wait_posted = True,
     io_stopped = False, sock_open = True, connection_timeout = 1000000,
     io_operation_timeout = 1000000, io_timeouted = True\<rparr>"

lemma sample_socket_ok [simp]: "armed sample_socket" "idle sample_socket"
  by (simp_all add: sample_socket_def armed_def idle_def)

text \<open>
  C4. \<open>send\<close> and \<open>receive\<close> return once their operation completes (with anything but
  \<open>try_again\<close>): the code is \<open>timed_out\<close> exactly when the deadline was reached first and the
  operation's own code otherwise, the count is the one the operation reported, the socket is closed
  exactly on such a timeout, and the deadline is cleared again.
\<close>

theorem send_receive_outcome:
  assumes "armed s" and "arg_ok arg" and "completes es t err n" and "again_ok A" and "err \<noteq> try_again A"
    and "hit = deadline_hit (expiry_of A now arg (timer_expiry s)) es"
  shows "\<exists>s'. stream_send A E now es arg s = Some (Inr (completion_code hit err, n), s') \<and>
    stream_receive A E now es arg s = stream_send A E now es arg s \<and>
    armed s' \<and> deadline_fired s' = hit \<and> is_open s' = (is_open s \<and> \<not> hit) \<and> io_timeout s' = io_timeout s \<and>
    (arg \<noteq> Duration kInfiniteDuration \<longrightarrow> timer_expiry s' = time_add A t kInfiniteDuration)"
  using transfer_loop_once [OF assms, of E 0]
  by (auto simp: stream_send_def stream_receive_def after_wait_def socket_defs)

theorem send_receive_outcome_witness:
  "\<exists>s'. stream_send linux_asio sample_env 100 [Deadline 500 500, Deadline 6000 6001, Completed 6500 Operation_aborted 3]
       (Duration 5000) sample_socket = Some (Inr (Timed_out, 3), s') \<and> \<not> is_open s'"
proof -
  let ?es = "[Deadline 500 500, Deadline 6000 6001, Completed 6500 Operation_aborted 3] :: nat io_event list"
  have "arg_ok (Duration 5000)" "completes ?es 6500 Operation_aborted 3" "Operation_aborted \<noteq> try_again linux_asio"
    "True = deadline_hit (expiry_of linux_asio 100 (Duration 5000) (timer_expiry sample_socket)) ?es"
    by (simp_all add: arg_ok_def completes_def expiry_of_def linux_asio_def duration_defs)
  from send_receive_outcome [OF sample_socket_ok(1) this(1,2) again_ok_asio(1) this(3,4), of sample_env]
  show ?thesis by (auto simp: completion_code_def)
qed

text \<open>
  All or an error: Boost's \<open>async_write\<close> and \<open>async_read\<close> complete without an error only
  when they have transferred all of the buffers (\<open>len\<close> bytes). Then a \<open>send\<close> that returns without
  an error has transferred exactly \<open>len\<close> bytes, and the throwing overload returns a count only then.
\<close>

theorem send_all_or_error:
  assumes "armed s" and "arg_ok arg" and "completes es t err n" and "again_ok A" and "err \<noteq> try_again A"
    and async_write: "\<not> is_error err \<Longrightarrow> n = len"
    and "stream_send_throw A E now es arg s = Some (Inr k, s')"
  shows "k = len \<and> is_open s' = is_open s"
  using transfer_loop_once [OF assms(1-5) refl, of E now 0] async_write assms(7)
  by (auto simp: stream_send_throw_def stream_send_def throwing_def ec_simps completion_code_def
      after_wait_def is_open_def split: if_splits)

theorem send_all_or_error_witness:
  "\<exists>s'. stream_send_throw linux_asio sample_env 100 [Completed 200 Success 7] (Time_point 900) sample_socket =
     Some (Inr 7, s') \<and> (7::nat) = 7 \<and> is_open s' = is_open sample_socket"
proof -
  let ?es = "[Completed 200 Success 7] :: nat io_event list"
  obtain s' where s': "stream_send_throw linux_asio sample_env 100 ?es (Time_point 900) sample_socket = Some (Inr 7, s')"
    by (simp add: stream_send_throw_def stream_send_def throwing_def transfer_loop.simps setup_expiration_def
        sample_socket_def linux_asio_def add_handler_def completion_code_def throw_if_error_def)
  have "(7::nat) = 7 \<and> is_open s' = is_open sample_socket"
    by (rule send_all_or_error [OF _ _ _ _ _ _ s', of 200 Success 7])
      (simp_all add: arg_ok_def completes_def linux_asio_def again_ok_def)
  with s' show ?thesis by blast
qed

text \<open>
  \<open>write_some\<close> and \<open>read_some\<close> return once their single operation completes, with the same
  meaning of the code, the count and the state as for \<open>send\<close>; a \<open>try_again\<close> is reported, not
  repeated.
\<close>

theorem write_read_some_outcome:
  assumes "armed s" and "arg_ok arg" and "completes es t err n"
    and "hit = deadline_hit (expiry_of A now arg (timer_expiry s)) es"
  shows "\<exists>s'. write_some A E now es arg s = Some (Inr (completion_code hit err, n), s') \<and>
    read_some A E now es arg s = write_some A E now es arg s \<and>
    armed s' \<and> deadline_fired s' = hit \<and> is_open s' = (is_open s \<and> \<not> hit) \<and> io_timeout s' = io_timeout s \<and>
    (arg \<noteq> Duration kInfiniteDuration \<longrightarrow> timer_expiry s' = time_add A t kInfiniteDuration)"
  using transfer_once_outcome [OF assms, of E]
  by (auto simp: write_some_def read_some_def after_wait_def socket_defs)

theorem write_read_some_outcome_witness:
  "\<exists>s'. write_some posix_asio sample_env 100 [Completed 200 Try_again 0] (Duration 5000) sample_socket =
     Some (Inr (Try_again, 0), s') \<and> is_open s'"
proof -
  let ?es = "[Completed 200 Try_again 0] :: nat io_event list"
  have "arg_ok (Duration 5000)" "completes ?es 200 Try_again 0"
    "False = deadline_hit (expiry_of posix_asio 100 (Duration 5000) (timer_expiry sample_socket)) ?es"
    by (simp_all add: arg_ok_def completes_def duration_defs)
  from write_read_some_outcome [OF sample_socket_ok(1) this, of sample_env]
  show ?thesis by (auto simp: completion_code_def is_open_def sample_socket_def)
qed

text \<open>
  A repeated round has no deadline: where \<open>try_again\<close> differs from \<open>would_block\<close>, a first round
  that ends with \<open>try_again\<close> destroys the expiration with its handler, so the second round ends with
  its own code however late it completes, and is never timed out.
\<close>

theorem retry_has_no_deadline:
  assumes "try_again A = Try_again" and "timer_saturates A" and "armed s" and "arg_ok arg"
    and "arg \<noteq> Duration kInfiniteDuration" and "clock_ok es"
    and "completes es t Try_again n" and "\<not> deadline_hit (expiry_of A now arg (timer_expiry s)) es"
    and "0 \<le> t" and "completes (after_completion es) t' err k" and "err \<noteq> Try_again"
  shows "\<exists>s'. stream_send A E now es arg s = Some (Inr (err, n + k), s') \<and> is_open s' = is_open s"
proof -
  obtain s1 where s1: "transfer_loop A E now arg True es 0 s =
      transfer_loop A E now arg False (after_completion es) n s1" "after_wait False s s1"
    "timer_expiry s1 = kInfiniteDuration"
    using transfer_loop_retry [of s arg es t A n now E 0] assms by (auto simp: timer_infinite)
  then obtain s2 where "transfer_loop A E now arg False (after_completion es) n s1 = Some (Inr (err, n + k), s2)"
    "after_wait False s1 s2"
    using transfer_loop_no_setup [of s1 "after_completion es" t' err k A E now arg n] assms
    by (auto simp: after_wait_def)
  with s1 show ?thesis by (auto simp: stream_send_def after_wait_def is_open_def)
qed

theorem retry_has_no_deadline_witness:
  "\<exists>s'. stream_send posix_asio sample_env 0
       [Completed 100 Try_again 0, Deadline 9000000000 9000000001, Completed 9000000002 Success 5]
       (Duration 5000) sample_socket = Some (Inr (Success, 5), s') \<and> is_open s' = is_open sample_socket"
proof -
  let ?es = "[Completed 100 Try_again 0, Deadline 9000000000 9000000001, Completed 9000000002 Success 5] :: nat io_event list"
  have "completes ?es 100 Try_again 0" "completes (after_completion ?es) 9000000002 Success 5" "clock_ok ?es"
    "arg_ok (Duration 5000)" "Duration 5000 \<noteq> Duration kInfiniteDuration" "try_again posix_asio = Try_again"
    "\<not> deadline_hit (expiry_of posix_asio 0 (Duration 5000) (timer_expiry sample_socket)) ?es"
    by (simp_all add: completes_def arg_ok_def posix_asio_def duration_defs)
  from retry_has_no_deadline [OF this(6) posix_asio_saturates sample_socket_ok(1) this(4,5,3,1,7) _ this(2)]
  show ?thesis by simp
qed

text \<open>
  No deadline outlives its call: from a live socket with no deadline pending, each of the four
  transfers leaves, whenever it returns or throws, a live socket with no deadline pending.
\<close>

theorem transfers_keep_idle:
  assumes "timer_saturates A" and "0 \<le> now" and "clock_ok es" and "idle s"
    and "res \<in> {stream_send A E now es arg s, stream_receive A E now es arg s,
      write_some A E now es arg s, read_some A E now es arg s}"
    and "res = Some (r, s')"
  shows "idle s'"
  using assms transfer_loop_idle [of A now es s E arg True 0 r s'] transfer_once_idle [of A now es s E arg r s']
  by (auto simp: stream_send_def stream_receive_def write_some_def read_some_def)

theorem transfers_keep_idle_witness:
  "idle (snd (the (read_some linux_asio sample_env 0 [Completed 5 Eof 0] (Duration 10) sample_socket)))"
proof -
  have res: "read_some linux_asio sample_env 0 [Completed 5 Eof 0] (Duration 10) sample_socket =
      Some (Inl (System_error Timed_out ''''),
        sample_socket\<lparr>timer_expiry := time_add linux_asio 0 kInfiniteDuration\<rparr>)"
    by (simp add: read_some_def transfer_once_def scope_expire_short kDurationResolution_def sample_socket_def)
  have "0 \<le> (0::tick)" "clock_ok ([Completed 5 Eof 0] :: nat io_event list)" by simp_all
  from transfers_keep_idle [OF linux_asio_saturates this sample_socket_ok(2) _ res, of sample_env "Duration 10"]
  show ?thesis unfolding res by simp
qed

text \<open>
  A timeout below the resolution of the timer is thrown, also by the overloads that report
  errors through an \<open>error_code\<close>, and no event is consumed.
\<close>

theorem short_timeout_throws:
  assumes "d < kDurationResolution"
  shows "\<exists>s'. stream_send A E now es (Duration d) s = Some (Inl (System_error Timed_out ''''), s') \<and>
    stream_receive A E now es (Duration d) s = Some (Inl (System_error Timed_out ''''), s') \<and>
    write_some A E now es (Duration d) s = Some (Inl (System_error Timed_out ''''), s') \<and>
    read_some A E now es (Duration d) s = Some (Inl (System_error Timed_out ''''), s') \<and>
    is_open s' = is_open s"
  using assms
  by (auto simp: stream_send_def stream_receive_def write_some_def read_some_def transfer_once_def
      setup_expiration_def scope_expire_short transfer_loop.simps [of A E now "Duration d" True] is_open_def)

theorem short_timeout_throws_witness:
  "\<exists>s'. stream_send linux_asio sample_env 0 [Completed 5 Success 4] (Duration 0) sample_socket =
     Some (Inl (System_error Timed_out ''''), s') \<and> is_open s'"
  using short_timeout_throws [of 0 linux_asio sample_env 0 "[Completed 5 Success 4]" sample_socket]
  by (auto simp: kDurationResolution_def sample_socket_def is_open_def)

text \<open>
  \<open>close\<close> of a stream closes the descriptor only when the shutdown reports \<open>not_connected\<close>; after
  a successful shutdown it reports success and the socket still counts as open.
\<close>

theorem stream_close_outcome:
  "stream_close sd E s = (if sd = Not_connected then close_result E else sd,
     s\<lparr>sock_open := sock_open s \<and> sd \<noteq> Not_connected\<rparr>) \<and>
   is_open (snd (stream_close Success E s)) = is_open s"
  by (auto simp: stream_close_def base_close_def is_open_def)

end
