(* ===== verification/Dgram_Socket.thy ===== *)
theory Dgram_Socket
  imports Stream_Socket
begin

text \<open>
  The UDP client (\<open>stream/dgram_socket.hpp\<close>, \<open>stream/impl/dgram_socket.ipp\<close>). Its loops are those of
  the stream client, over the datagram operations of Boost.Asio, which complete after one datagram:
  a call without an error may have moved fewer bytes than the buffers hold.
\<close>

section \<open>Operations\<close>

text \<open>
  \<open>async_send\<close> and \<open>async_receive\<close> set the expiration up on the first round only and move it into the
  completion handler.
\<close>

definition dgram_async_send ::
  "asio \<Rightarrow> tick \<Rightarrow> time_arg \<Rightarrow> bool \<Rightarrow> base_socket \<Rightarrow> (exn + expiration) \<times> base_socket" where
  "dgram_async_send A now timeout_or_deadline fresh s =
     (if fresh then scope_expire A now timeout_or_deadline s else (Inr Null_timer, s))"

definition dgram_async_receive ::
  "asio \<Rightarrow> tick \<Rightarrow> time_arg \<Rightarrow> bool \<Rightarrow> base_socket \<Rightarrow> (exn + expiration) \<times> base_socket" where
  "dgram_async_receive A now timeout_or_deadline fresh s =
     (if fresh then scope_expire A now timeout_or_deadline s else (Inr Null_timer, s))"

text \<open>The loop of both calls, around the asynchronous operation \<open>start\<close>: one round per operation.\<close>

function dgram_loop ::
  "(tick \<Rightarrow> time_arg \<Rightarrow> bool \<Rightarrow> base_socket \<Rightarrow> (exn + expiration) \<times> base_socket)
     \<Rightarrow> asio \<Rightarrow> sock_env \<Rightarrow> tick \<Rightarrow> time_arg \<Rightarrow> bool \<Rightarrow> nat io_event list \<Rightarrow> nat \<Rightarrow> base_socket \<Rightarrow> io_result" where
  "dgram_loop start A E now arg fresh es transfered_bytes s =
     (case start now arg fresh s of
        (Inl x, s1) \<Rightarrow> Some (Inl x, s1)
      | (Inr e, s1) \<Rightarrow>
          (case io_run A (deadline_actor E) add_handler e es Would_block transfered_bytes s1 of
             None \<Rightarrow> None
           | Some (ec, n, s2, rest) \<Rightarrow>
               if ec = try_again A then dgram_loop start A E now arg False rest n s2
               else Some (Inr (ec, n), io_service_reset s2)))"
  by pat_completeness auto
termination
  by (relation "measure (\<lambda>(start, A, E, now, arg, fresh, es, n, s). length es)") (auto dest: io_run_consumes)

declare dgram_loop.simps [simp del]

definition dgram_send ::
  "asio \<Rightarrow> sock_env \<Rightarrow> tick \<Rightarrow> nat io_event list \<Rightarrow> time_arg \<Rightarrow> base_socket \<Rightarrow> io_result" where
  "dgram_send A E now es timeout_or_deadline s =
     dgram_loop (dgram_async_send A) A E now timeout_or_deadline True es 0 s"

definition dgram_receive ::
  "asio \<Rightarrow> sock_env \<Rightarrow> tick \<Rightarrow> nat io_event list \<Rightarrow> time_arg \<Rightarrow> base_socket \<Rightarrow> io_result" where
  "dgram_receive A E now es timeout_or_deadline s =
     dgram_loop (dgram_async_receive A) A E now timeout_or_deadline True es 0 s"

definition dgram_send_throw ::
  "asio \<Rightarrow> sock_env \<Rightarrow> tick \<Rightarrow> nat io_event list \<Rightarrow> time_arg \<Rightarrow> base_socket \<Rightarrow> ((exn + nat) \<times> base_socket) option" where
  "dgram_send_throw A E now es arg s = throwing ''Socket send() failed'' (dgram_send A E now es arg s)"

definition dgram_receive_throw ::
  "asio \<Rightarrow> sock_env \<Rightarrow> tick \<Rightarrow> nat io_event list \<Rightarrow> time_arg \<Rightarrow> base_socket \<Rightarrow> ((exn + nat) \<times> base_socket) option" where
  "dgram_receive_throw A E now es arg s = throwing ''Socket receive() failed'' (dgram_receive A E now es arg s)"

definition dgram_send_default :: "asio \<Rightarrow> sock_env \<Rightarrow> tick \<Rightarrow> nat io_event list \<Rightarrow> base_socket \<Rightarrow> io_result" where
  "dgram_send_default A E now es s = dgram_send A E now es (Duration (io_timeout s)) s"

definition dgram_receive_default :: "asio \<Rightarrow> sock_env \<Rightarrow> tick \<Rightarrow> nat io_event list \<Rightarrow> base_socket \<Rightarrow> io_result" where
  "dgram_receive_default A E now es s = dgram_receive A E now es (Duration (io_timeout s)) s"

definition dgram_send_throw_default ::
  "asio \<Rightarrow> sock_env \<Rightarrow> tick \<Rightarrow> nat io_event list \<Rightarrow> base_socket \<Rightarrow> ((exn + nat) \<times> base_socket) option" where
  "dgram_send_throw_default A E now es s = dgram_send_throw A E now es (Duration (io_timeout s)) s"

definition dgram_receive_throw_default ::
  "asio \<Rightarrow> sock_env \<Rightarrow> tick \<Rightarrow> nat io_event list \<Rightarrow> base_socket \<Rightarrow> ((exn + nat) \<times> base_socket) option" where
  "dgram_receive_throw_default A E now es s = dgram_receive_throw A E now es (Duration (io_timeout s)) s"

text \<open>Over the same completions both loops are those of the stream client.\<close>

lemma dgram_loop_stream:
  assumes "start = setup_expiration A"
  shows "dgram_loop start A E now arg fresh es n s = transfer_loop A E now arg fresh es n s"
  using assms
proof (induction start A E now arg fresh es n s rule: dgram_loop.induct)
  case (1 start A E now arg fresh es n s)
  then show ?case
    by (subst dgram_loop.simps, subst transfer_loop.simps)
      (auto split: prod.splits sum.splits option.splits)
qed

lemma dgram_stream [simp]:
  "dgram_send A E now es arg s = transfer_loop A E now arg True es 0 s"
  "dgram_receive A E now es arg s = transfer_loop A E now arg True es 0 s"
proof -
  have "dgram_async_send A = setup_expiration A" "dgram_async_receive A = setup_expiration A"
    by (auto simp: fun_eq_iff dgram_async_send_def dgram_async_receive_def setup_expiration_def)
  then show "dgram_send A E now es arg s = transfer_loop A E now arg True es 0 s"
    "dgram_receive A E now es arg s = transfer_loop A E now arg True es 0 s"
    by (simp_all add: dgram_send_def dgram_receive_def dgram_loop_stream)
qed

section \<open>Properties\<close>

text \<open>
  The UDP calls without a timeout, on a socket with no deadline pending: with I/O timeouts
  disabled they block until the datagram operation completes and report its code, whatever the time;
  with a timeout of at least the resolution of the timer they report \<open>timed_out\<close> exactly when that
  timeout, counted from the start of the call, was reached first.
\<close>

theorem dgram_default_timeout:
  assumes "idle s" and "clock_ok es" and "completes es t err n" and "again_ok A" and "err \<noteq> try_again A"
    and "io_timeout_enabled s \<Longrightarrow> kDurationResolution \<le> io_operation_timeout s \<and> io_operation_timeout s \<noteq> kInfiniteDuration"
    and "hit \<longleftrightarrow> io_timeout_enabled s \<and> deadline_hit (time_add A now (io_operation_timeout s)) es"
  shows "\<exists>s'. dgram_receive_default A E now es s = Some (Inr (if hit then Timed_out else err, n), s') \<and>
     dgram_send_default A E now es s = dgram_receive_default A E now es s \<and>
     is_open s' = (is_open s \<and> \<not> hit)"
proof -
  have ok: "armed s" "arg_ok (Duration (io_timeout s))"
    using assms(1,6) by (auto simp: idle_def arg_ok_def socket_defs duration_defs)
  have "hit = deadline_hit (expiry_of A now (Duration (io_timeout s)) (timer_expiry s)) es"
    using assms(1,2,6,7) by (auto simp: idle_def expiry_of_def socket_defs)
  from transfer_loop_once [OF ok assms(3,4,5) this, of E 0] show ?thesis
    by (auto simp: dgram_receive_default_def dgram_send_default_def completion_code_def after_wait_def is_open_def)
qed

theorem dgram_default_timeout_witness:
  "\<exists>s'. dgram_receive_default linux_asio sample_env 0 [Deadline 50 51, Completed 700 Success 1] sample_socket =
     Some (Inr (Success, 1), s') \<and> is_open s'"
proof -
  let ?es = "[Deadline 50 51, Completed 700 Success 1] :: nat io_event list"
  have "completes ?es 700 Success 1" "clock_ok ?es" "Success \<noteq> try_again linux_asio"
    "io_timeout_enabled sample_socket \<Longrightarrow> kDurationResolution \<le> io_operation_timeout sample_socket \<and>
       io_operation_timeout sample_socket \<noteq> kInfiniteDuration"
    "False \<longleftrightarrow> io_timeout_enabled sample_socket \<and>
       deadline_hit (time_add linux_asio 0 (io_operation_timeout sample_socket)) ?es"
    by (simp_all add: completes_def linux_asio_def sample_socket_def duration_defs)
  from dgram_default_timeout [OF sample_socket_ok(2) this(2,1) again_ok_asio(1) this(3,4,5), of sample_env]
  show ?thesis by (auto simp: is_open_def sample_socket_def)
qed

end
