(* ===== verification/Ssl_Socket.thy ===== *)
theory Ssl_Socket
  imports Stream_Socket
begin

text \<open>
  The SSL stream (\<open>stream/ssl_stream_socket.hpp\<close>, \<open>stream/impl/ssl_stream_socket.ipp\<close>): a
  \<open>boost::asio::ssl::stream\<close> over a TCP client. It puts a deadline on the client underneath and switches the
  client's own I/O timeout off while the SSL layer works on it.

  The SSL layer is Boost's. It is a parameter: the record \<open>ssl_layer\<close> says what each of its calls
  gives, from the state of the client underneath; \<open>None\<close> when the call does not return. The calls of a
  loop are numbered, each with the clock readings of its set-up and of the end of its scope. A buffer
  is its list of bytes; a byte count is a 64-bit word (\<open>std::size_t\<close>).
\<close>

section \<open>The SSL layer\<close>

type_synonym byte = "8 word"

text \<open>
  \<open>layer_write i buffer s\<close>: the code, how many leading bytes of the buffer were taken, and the client
  after the call; \<open>layer_read i room s\<close>: the code, the bytes delivered, and the client.
  \<open>short_read\<close> is the value of \<open>stream_truncated\<close>; \<open>sni_result\<close> is the error of
  \<open>SSL_set_tlsext_host_name\<close>, if it failed.
\<close>

record ssl_layer =
  layer_handshake :: "base_socket \<Rightarrow> (error_code \<times> base_socket) option"
  layer_write :: "nat \<Rightarrow> byte list \<Rightarrow> base_socket \<Rightarrow> (error_code \<times> nat \<times> base_socket) option"
  layer_read :: "nat \<Rightarrow> nat \<Rightarrow> base_socket \<Rightarrow> (error_code \<times> byte list \<times> base_socket) option"
  layer_shutdown :: "base_socket \<Rightarrow> error_code \<times> base_socket"
  short_read :: int
  sni_result :: "int option"
  call_start :: "nat \<Rightarrow> tick"
  call_end :: "nat \<Rightarrow> tick"

section \<open>One call of the layer\<close>

text \<open>
  The common shape of \<open>handshake\<close>, \<open>write_some\<close> and \<open>read_some\<close>: switch the I/O timeout off, set the
  expiration up (which may throw), call the layer, restore the mode; the expiration ends with the
  scope.
\<close>

definition with_deadline ::
  "asio \<Rightarrow> tick \<Rightarrow> tick \<Rightarrow> time_arg \<Rightarrow> (base_socket \<Rightarrow> (error_code \<times> 'r \<times> base_socket) option) \<Rightarrow> base_socket
     \<Rightarrow> ((exn + error_code \<times> 'r) \<times> base_socket) option" where
  "with_deadline A t0 t1 arg call s =
     (case set_io_timeout_enabled False s of
        (orig_io_timeout_mode, s0) \<Rightarrow>
          (case scope_expire A t0 arg s0 of
             (Inl x, s1) \<Rightarrow> Some (Inl x, s1)
           | (Inr e, s1) \<Rightarrow>
               (case call s1 of
                  None \<Rightarrow> None
                | Some (ec, r, s2) \<Rightarrow>
                    Some (Inr (ec, r), expiration_dtor A t1 e (snd (set_io_timeout_enabled orig_io_timeout_mode s2))))))"

definition handshake ::
  "asio \<Rightarrow> ssl_layer \<Rightarrow> tick \<Rightarrow> tick \<Rightarrow> time_arg \<Rightarrow> base_socket
     \<Rightarrow> ((exn + error_code \<times> error_code) \<times> base_socket) option" where
  "handshake A L t0 t1 arg s =
     with_deadline A t0 t1 arg
       (\<lambda>s1. case layer_handshake L s1 of None \<Rightarrow> None | Some (ec, s2) \<Rightarrow> Some (ec, ec, s2)) s"

definition handshake_throw ::
  "asio \<Rightarrow> ssl_layer \<Rightarrow> tick \<Rightarrow> tick \<Rightarrow> time_arg \<Rightarrow> base_socket \<Rightarrow> ((exn + unit) \<times> base_socket) option" where
  "handshake_throw A L t0 t1 arg s =
     (case handshake A L t0 t1 arg s of
        None \<Rightarrow> None
      | Some (Inl x, s') \<Rightarrow> Some (Inl x, s')
      | Some (Inr (ec, err), s') \<Rightarrow> Some (throw_if_error '''' ec (), s'))"

definition handshake_default ::
  "asio \<Rightarrow> ssl_layer \<Rightarrow> tick \<Rightarrow> tick \<Rightarrow> base_socket \<Rightarrow> ((exn + unit) \<times> base_socket) option" where
  "handshake_default A L t0 t1 s = handshake_throw A L t0 t1 (Duration (connection_timeout s)) s"

definition ssl_write_some ::
  "asio \<Rightarrow> ssl_layer \<Rightarrow> nat \<Rightarrow> byte list \<Rightarrow> time_arg \<Rightarrow> base_socket
     \<Rightarrow> ((exn + error_code \<times> nat) \<times> base_socket) option" where
  "ssl_write_some A L i buffers arg s =
     with_deadline A (call_start L i) (call_end L i) arg (layer_write L i buffers) s"

definition ssl_read_some ::
  "asio \<Rightarrow> ssl_layer \<Rightarrow> nat \<Rightarrow> nat \<Rightarrow> time_arg \<Rightarrow> base_socket
     \<Rightarrow> ((exn + error_code \<times> byte list) \<times> base_socket) option" where
  "ssl_read_some A L i room arg s =
     with_deadline A (call_start L i) (call_end L i) arg (layer_read L i room) s"

definition ssl_write_some_throw ::
  "asio \<Rightarrow> ssl_layer \<Rightarrow> nat \<Rightarrow> byte list \<Rightarrow> time_arg \<Rightarrow> base_socket \<Rightarrow> ((exn + nat) \<times> base_socket) option" where
  "ssl_write_some_throw A L i buffers arg s = throwing '''' (ssl_write_some A L i buffers arg s)"

definition ssl_read_some_throw ::
  "asio \<Rightarrow> ssl_layer \<Rightarrow> nat \<Rightarrow> nat \<Rightarrow> time_arg \<Rightarrow> base_socket \<Rightarrow> ((exn + nat) \<times> base_socket) option" where
  "ssl_read_some_throw A L i room arg s =
     (case ssl_read_some A L i room arg s of
        None \<Rightarrow> None
      | Some (Inl x, s') \<Rightarrow> Some (Inl x, s')
      | Some (Inr (ec, bytes), s') \<Rightarrow> Some (throw_if_error '''' ec (length bytes), s'))"

definition ssl_write_some_default ::
  "asio \<Rightarrow> ssl_layer \<Rightarrow> nat \<Rightarrow> byte list \<Rightarrow> base_socket \<Rightarrow> ((exn + error_code \<times> nat) \<times> base_socket) option" where
  "ssl_write_some_default A L i buffers s = ssl_write_some A L i buffers (Duration (io_timeout s)) s"

definition ssl_read_some_default ::
  "asio \<Rightarrow> ssl_layer \<Rightarrow> nat \<Rightarrow> nat \<Rightarrow> base_socket \<Rightarrow> ((exn + error_code \<times> byte list) \<times> base_socket) option" where
  "ssl_read_some_default A L i room s = ssl_read_some A L i room (Duration (io_timeout s)) s"

definition ssl_write_some_throw_default ::
  "asio \<Rightarrow> ssl_layer \<Rightarrow> nat \<Rightarrow> byte list \<Rightarrow> base_socket \<Rightarrow> ((exn + nat) \<times> base_socket) option" where
  "ssl_write_some_throw_default A L i buffers s = ssl_write_some_throw A L i buffers (Duration (io_timeout s)) s"

definition ssl_read_some_throw_default ::
  "asio \<Rightarrow> ssl_layer \<Rightarrow> nat \<Rightarrow> nat \<Rightarrow> base_socket \<Rightarrow> ((exn + nat) \<times> base_socket) option" where
  "ssl_read_some_throw_default A L i room s = ssl_read_some_throw A L i room (Duration (io_timeout s)) s"

section \<open>The loops\<close>

text \<open>
  \<open>send\<close>: each round offers the whole buffer again. The result: the exception, or the code, the
  count, and what the layer has been given to encrypt, in order (\<open>wire\<close>). \<open>ec\<close> is the caller's code,
  which a loop without rounds leaves as it was.
\<close>

partial_function (option) ssl_send_loop ::
  "asio \<Rightarrow> ssl_layer \<Rightarrow> byte list \<Rightarrow> tick \<Rightarrow> nat \<Rightarrow> error_code \<Rightarrow> 64 word \<Rightarrow> byte list \<Rightarrow> base_socket
     \<Rightarrow> ((exn + error_code \<times> 64 word) \<times> byte list \<times> base_socket) option" where
  "ssl_send_loop A L buffers deadline i ec transfered_bytes wire s =
     (if transfered_bytes \<noteq> of_nat (length buffers) then
        (case ssl_write_some A L i buffers (Time_point deadline) s of
           None \<Rightarrow> None
         | Some (r, s') \<Rightarrow>
             (case r of
                Inl x \<Rightarrow> Some (Inl x, wire, s')
              | Inr (ec', n) \<Rightarrow>
                  if is_error ec'
                  then Some (Inr (ec', transfered_bytes + of_nat n), wire @ take n buffers, s')
                  else ssl_send_loop A L buffers deadline (Suc i) ec' (transfered_bytes + of_nat n)
                         (wire @ take n buffers) s'))
      else Some (Inr (ec, transfered_bytes), wire, s))"

definition ssl_send ::
  "asio \<Rightarrow> ssl_layer \<Rightarrow> byte list \<Rightarrow> tick \<Rightarrow> error_code \<Rightarrow> base_socket
     \<Rightarrow> ((exn + error_code \<times> 64 word) \<times> byte list \<times> base_socket) option" where
  "ssl_send A L buffers deadline ec s = ssl_send_loop A L buffers deadline 0 ec 0 [] s"

text \<open>\<open>receive\<close>: each round writes at the beginning of the buffer; \<open>contents\<close> is what the buffer holds.\<close>

definition store_front :: "byte list \<Rightarrow> byte list \<Rightarrow> byte list" where
  "store_front bytes contents = bytes @ drop (length bytes) contents"

partial_function (option) ssl_receive_loop ::
  "asio \<Rightarrow> ssl_layer \<Rightarrow> tick \<Rightarrow> nat \<Rightarrow> error_code \<Rightarrow> 64 word \<Rightarrow> byte list \<Rightarrow> base_socket
     \<Rightarrow> ((exn + error_code \<times> 64 word) \<times> byte list \<times> base_socket) option" where
  "ssl_receive_loop A L deadline i ec transfered_bytes contents s =
     (if transfered_bytes \<noteq> of_nat (length contents) then
        (case ssl_read_some A L i (length contents) (Time_point deadline) s of
           None \<Rightarrow> None
         | Some (r, s') \<Rightarrow>
             (case r of
                Inl x \<Rightarrow> Some (Inl x, contents, s')
              | Inr (ec', bytes) \<Rightarrow>
                  if is_error ec'
                  then Some (Inr (ec', transfered_bytes + of_nat (length bytes)), store_front bytes contents, s')
                  else ssl_receive_loop A L deadline (Suc i) ec' (transfered_bytes + of_nat (length bytes))
                         (store_front bytes contents) s'))
      else Some (Inr (ec, transfered_bytes), contents, s))"

definition ssl_receive ::
  "asio \<Rightarrow> ssl_layer \<Rightarrow> byte list \<Rightarrow> tick \<Rightarrow> error_code \<Rightarrow> base_socket
     \<Rightarrow> ((exn + error_code \<times> 64 word) \<times> byte list \<times> base_socket) option" where
  "ssl_receive A L contents deadline ec s = ssl_receive_loop A L deadline 0 ec 0 contents s"

text \<open>The overloads with a duration and with the current I/O timeout add it to the clock.\<close>

definition ssl_send_timeout ::
  "asio \<Rightarrow> ssl_layer \<Rightarrow> tick \<Rightarrow> byte list \<Rightarrow> tick \<Rightarrow> error_code \<Rightarrow> base_socket
     \<Rightarrow> ((exn + error_code \<times> 64 word) \<times> byte list \<times> base_socket) option" where
  "ssl_send_timeout A L now buffers timeout ec s = ssl_send A L buffers (tick_add now timeout) ec s"

definition ssl_send_default ::
  "asio \<Rightarrow> ssl_layer \<Rightarrow> tick \<Rightarrow> byte list \<Rightarrow> error_code \<Rightarrow> base_socket
     \<Rightarrow> ((exn + error_code \<times> 64 word) \<times> byte list \<times> base_socket) option" where
  "ssl_send_default A L now buffers ec s = ssl_send A L buffers (tick_add now (io_timeout s)) ec s"

definition ssl_receive_timeout ::
  "asio \<Rightarrow> ssl_layer \<Rightarrow> tick \<Rightarrow> byte list \<Rightarrow> tick \<Rightarrow> error_code \<Rightarrow> base_socket
     \<Rightarrow> ((exn + error_code \<times> 64 word) \<times> byte list \<times> base_socket) option" where
  "ssl_receive_timeout A L now contents timeout ec s = ssl_receive A L contents (tick_add now timeout) ec s"

definition ssl_receive_default ::
  "asio \<Rightarrow> ssl_layer \<Rightarrow> tick \<Rightarrow> byte list \<Rightarrow> error_code \<Rightarrow> base_socket
     \<Rightarrow> ((exn + error_code \<times> 64 word) \<times> byte list \<times> base_socket) option" where
  "ssl_receive_default A L now contents ec s = ssl_receive A L contents (tick_add now (io_timeout s)) ec s"

definition ssl_throwing ::
  "string \<Rightarrow> ((exn + error_code \<times> 64 word) \<times> byte list \<times> base_socket) option
     \<Rightarrow> ((exn + 64 word) \<times> byte list \<times> base_socket) option" where
  "ssl_throwing what res =
     (case res of
        None \<Rightarrow> None
      | Some (Inl x, bytes, s) \<Rightarrow> Some (Inl x, bytes, s)
      | Some (Inr (ec, n), bytes, s) \<Rightarrow> Some (throw_if_error what ec n, bytes, s))"

definition ssl_send_throw ::
  "asio \<Rightarrow> ssl_layer \<Rightarrow> byte list \<Rightarrow> tick \<Rightarrow> base_socket \<Rightarrow> ((exn + 64 word) \<times> byte list \<times> base_socket) option" where
  "ssl_send_throw A L buffers deadline s =
     ssl_throwing ''Socket send() failed'' (ssl_send A L buffers deadline Success s)"

definition ssl_receive_throw ::
  "asio \<Rightarrow> ssl_layer \<Rightarrow> byte list \<Rightarrow> tick \<Rightarrow> base_socket \<Rightarrow> ((exn + 64 word) \<times> byte list \<times> base_socket) option" where
  "ssl_receive_throw A L contents deadline s =
     ssl_throwing ''Socket receive() failed'' (ssl_receive A L contents deadline Success s)"

definition ssl_send_throw_timeout ::
  "asio \<Rightarrow> ssl_layer \<Rightarrow> tick \<Rightarrow> byte list \<Rightarrow> tick \<Rightarrow> base_socket \<Rightarrow> ((exn + 64 word) \<times> byte list \<times> base_socket) option" where
  "ssl_send_throw_timeout A L now buffers timeout s = ssl_send_throw A L buffers (tick_add now timeout) s"

definition ssl_send_throw_default ::
  "asio \<Rightarrow> ssl_layer \<Rightarrow> tick \<Rightarrow> byte list \<Rightarrow> base_socket \<Rightarrow> ((exn + 64 word) \<times> byte list \<times> base_socket) option" where
  "ssl_send_throw_default A L now buffers s = ssl_send_throw A L buffers (tick_add now (io_timeout s)) s"

definition ssl_receive_throw_timeout ::
  "asio \<Rightarrow> ssl_layer \<Rightarrow> tick \<Rightarrow> byte list \<Rightarrow> tick \<Rightarrow> base_socket \<Rightarrow> ((exn + 64 word) \<times> byte list \<times> base_socket) option" where
  "ssl_receive_throw_timeout A L now contents timeout s = ssl_receive_throw A L contents (tick_add now timeout) s"

definition ssl_receive_throw_default ::
  "asio \<Rightarrow> ssl_layer \<Rightarrow> tick \<Rightarrow> byte list \<Rightarrow> base_socket \<Rightarrow> ((exn + 64 word) \<times> byte list \<times> base_socket) option" where
  "ssl_receive_throw_default A L now contents s = ssl_receive_throw A L contents (tick_add now (io_timeout s)) s"

section \<open>What is forwarded to the client underneath\<close>

text \<open>The state of an SSL stream is that of its client; the accessors go through \<open>next_layer\<close>.\<close>

definition ssl_next_layer :: "base_socket \<Rightarrow> base_socket" where
  "ssl_next_layer s = s"

definition ssl_connection_timeout :: "base_socket \<Rightarrow> tick" where
  "ssl_connection_timeout s = get_connection_timeout (ssl_next_layer s)"

definition ssl_io_timeout :: "base_socket \<Rightarrow> tick" where
  "ssl_io_timeout s = io_timeout (ssl_next_layer s)"

definition ssl_set_io_timeout :: "tick \<Rightarrow> base_socket \<Rightarrow> tick \<times> base_socket" where
  "ssl_set_io_timeout new_io_timeout s = set_io_timeout new_io_timeout (ssl_next_layer s)"

definition ssl_io_timeout_enabled :: "base_socket \<Rightarrow> bool" where
  "ssl_io_timeout_enabled s = io_timeout_enabled (ssl_next_layer s)"

definition ssl_set_io_timeout_enabled :: "bool \<Rightarrow> base_socket \<Rightarrow> bool \<times> base_socket" where
  "ssl_set_io_timeout_enabled new_mode s = set_io_timeout_enabled new_mode (ssl_next_layer s)"

definition ssl_is_open :: "base_socket \<Rightarrow> bool" where
  "ssl_is_open s = is_open (ssl_next_layer s)"

definition ssl_scope_expire :: "asio \<Rightarrow> tick \<Rightarrow> time_arg \<Rightarrow> base_socket \<Rightarrow> (exn + expiration) \<times> base_socket" where
  "ssl_scope_expire A now timeout_or_deadline s = scope_expire A now timeout_or_deadline (ssl_next_layer s)"

section \<open>Construction and closing\<close>

text \<open>
  \<open>now\<close> is the clock reading of the deadline, \<open>t0\<close>, \<open>t1\<close>, \<open>t2\<close> those of the connect and \<open>t3\<close>, \<open>t4\<close>
  those of the handshake. An exception leaves no object.
\<close>

definition ssl_socket_ctor ::
  "asio \<Rightarrow> sock_env \<Rightarrow> ssl_layer \<Rightarrow> tick \<Rightarrow> tick \<Rightarrow> tick \<Rightarrow> tick \<Rightarrow> tick \<Rightarrow> tick \<Rightarrow> unit io_event list
     \<Rightarrow> 'ep socket_config \<Rightarrow> bool \<Rightarrow> (exn + base_socket) option" where
  "ssl_socket_ctor A E L now t0 t1 t2 t3 t4 es cfg rfc2818_handshake =
     (let deadline = tick_add now (cfg_connect_timeout cfg) in
      case base_socket_ctor_config A E t0 t1 t2 es cfg of
        None \<Rightarrow> None
      | Some (Inl x) \<Rightarrow> Some (Inl x)
      | Some (Inr s) \<Rightarrow>
          (case sni_result L of
             Some v \<Rightarrow> Some (Inl (System_error (Ssl_code v) ''''))
           | None \<Rightarrow>
               if rfc2818_handshake then
                 (case handshake_throw A L t3 t4 (Time_point deadline) s of
                    None \<Rightarrow> None
                  | Some (Inl x, s') \<Rightarrow> Some (Inl x)
                  | Some (Inr _, s') \<Rightarrow> Some (Inr s'))
               else Some (Inr s)))"

definition ssl_close :: "ssl_layer \<Rightarrow> sock_env \<Rightarrow> base_socket \<Rightarrow> error_code \<times> base_socket" where
  "ssl_close L E s =
     (case layer_shutdown L s of
        (ec, s1) \<Rightarrow>
          (let ec' = (if ec = Ssl_code (short_read L) then Ssl_code 0 else ec) in
           if is_error ec' then (ec', s1) else base_close E s1))"

definition ssl_close_ec :: "ssl_layer \<Rightarrow> sock_env \<Rightarrow> base_socket \<Rightarrow> error_code \<times> base_socket" where
  "ssl_close_ec L E s = (case ssl_close L E s of (ec, s') \<Rightarrow> (ec, s'))"

section \<open>Lemmas\<close>

text \<open>
  What the SSL layer promises of the client underneath: it reads and writes through it, so a call
  leaves the configuration and the armed watchdog as they were.
\<close>

definition same_config :: "base_socket \<Rightarrow> base_socket \<Rightarrow> bool" where
  "same_config s s' \<longleftrightarrow>
     armed s' \<and> io_timeouted s' = io_timeouted s \<and> io_operation_timeout s' = io_operation_timeout s \<and>
     connection_timeout s' = connection_timeout s"

definition layer_keeps :: "(base_socket \<Rightarrow> (error_code \<times> 'r \<times> base_socket) option) \<Rightarrow> bool" where
  "layer_keeps call \<longleftrightarrow> (\<forall>s ec r s'. armed s \<longrightarrow> call s = Some (ec, r, s') \<longrightarrow> same_config s s')"

lemma with_deadline_restores:
  assumes "layer_keeps call" and "armed s" and "with_deadline A t0 t1 arg call s = Some (Inr (ec, r), s')"
    and "arg \<noteq> Duration kInfiniteDuration"
  shows "same_config s s' \<and> timer_expiry s' = time_add A t1 kInfiniteDuration"
proof -
  let ?s0 = "s\<lparr>io_timeouted := False\<rparr>"
  obtain e s1 s2 where w: "scope_expire A t0 arg ?s0 = (Inr e, s1)" "call s1 = Some (ec, r, s2)"
    "s' = expiration_dtor A t1 e (s2\<lparr>io_timeouted := io_timeouted s\<rparr>)"
    using assms(3) by (auto simp: with_deadline_def set_io_timeout_enabled_def split: sum.splits option.splits prod.splits)
  have arm: "armed s1" using scope_expire_armed [OF w(1)] assms(2) by (simp add: armed_def)
  have ok: "arg_ok arg"
    using w(1) scope_expire_Inl_iff [of A t0 arg ?s0] by (auto simp: arg_ok_def timed_defs Let_def split: time_arg.splits if_splits)
  have e: "e = Timer" using w(1) assms(4) by (simp add: scope_expire_ok [OF ok])
  have "timed_base.more s1 = timed_base.more ?s0" using scope_expire_frame [OF w(1)] by simp
  from socket_fields_of_more [OF this] have "io_operation_timeout s1 = io_operation_timeout s"
    "connection_timeout s1 = connection_timeout s" by simp_all
  moreover have "same_config s1 s2" using assms(1) arm w(2) by (auto simp: layer_keeps_def)
  ultimately show ?thesis
    by (simp add: w(3) e same_config_def expiration_dtor_def armed_def)
qed

lemma with_deadline_short:
  assumes "d < kDurationResolution"
  shows "with_deadline A t0 t1 (Duration d) call s =
    Some (Inl (System_error Timed_out ''''),
      s\<lparr>io_timeouted := False, deadline_fired := False, timer_expiry := time_add A t0 kInfiniteDuration\<rparr>)"
  by (simp add: with_deadline_def set_io_timeout_enabled_def scope_expire_short [OF assms])

text \<open>A call with a deadline never throws.\<close>

lemma write_some_deadline:
  assumes "layer_write L i buffers (s\<lparr>io_timeouted := False, deadline_fired := False, timer_expiry := deadline\<rparr>) =
    Some (ec, n, s2)"
  shows "ssl_write_some A L i buffers (Time_point deadline) s =
    Some (Inr (ec, n), expiration_dtor A (call_end L i) Timer (s2\<lparr>io_timeouted := io_timeouted s\<rparr>))"
  using assms by (simp add: ssl_write_some_def with_deadline_def set_io_timeout_enabled_def)

text \<open>
  The calls of a loop that succeed, as they are made: \<open>wrote\<close> runs one \<open>write_some\<close> for each count and gives
  the client after them, provided that each took as many bytes as listed; \<open>was_read\<close> does the same for the
  calls of \<open>read_some\<close> and the bytes they deliver.
\<close>

fun wrote :: "asio \<Rightarrow> ssl_layer \<Rightarrow> byte list \<Rightarrow> tick \<Rightarrow> nat \<Rightarrow> nat list \<Rightarrow> base_socket \<Rightarrow> base_socket option" where
  "wrote A L buffers deadline i [] s = Some s"
| "wrote A L buffers deadline i (n # ns) s =
     (case ssl_write_some A L i buffers (Time_point deadline) s of
        Some (Inr (ec, n'), s') \<Rightarrow> if ec = Success \<and> n' = n then wrote A L buffers deadline (Suc i) ns s' else None
      | _ \<Rightarrow> None)"

fun was_read :: "asio \<Rightarrow> ssl_layer \<Rightarrow> nat \<Rightarrow> tick \<Rightarrow> nat \<Rightarrow> byte list list \<Rightarrow> base_socket \<Rightarrow> base_socket option" where
  "was_read A L room deadline i [] s = Some s"
| "was_read A L room deadline i (bs # bss) s =
     (case ssl_read_some A L i room (Time_point deadline) s of
        Some (Inr (ec, bs'), s') \<Rightarrow> if ec = Success \<and> bs' = bs then was_read A L room deadline (Suc i) bss s' else None
      | _ \<Rightarrow> None)"

text \<open>The counts of the calls before a loop's test of its condition miss the size.\<close>

definition misses :: "nat \<Rightarrow> nat list \<Rightarrow> bool" where
  "misses sz ns \<longleftrightarrow> (\<forall>k < length ns. (of_nat (sum_list (take k ns)) :: 64 word) \<noteq> of_nat sz)"

lemma misses_snoc:
  "misses sz (ns @ [n]) \<longleftrightarrow> misses sz ns \<and> (of_nat (sum_list ns) :: 64 word) \<noteq> of_nat sz"
  by (auto simp: misses_def less_Suc_eq)

lemma misses_below: "sum_list (butlast ns) < sz \<Longrightarrow> sz < 2 ^ 64 \<Longrightarrow> misses sz ns"
  unfolding misses_def
proof (intro allI impI)
  fix k assume sz: "sum_list (butlast ns) < sz" "sz < 2 ^ 64" and k: "k < length ns"
  then have "take k ns = take k (butlast ns)" by (simp add: take_butlast)
  also have "sum_list \<dots> \<le> sum_list (butlast ns)"
    by (metis append_take_drop_id le_add1 sum_list_append)
  finally show "(of_nat (sum_list (take k ns)) :: 64 word) \<noteq> of_nat sz"
    using sz by (simp add: word_of_nat_eq_iff take_bit_nat_eq_self)
qed

lemma wrote_snoc:
  "wrote A L buffers deadline i (ns @ [n]) s = Some s2 \<longleftrightarrow>
     (\<exists>s1. wrote A L buffers deadline i ns s = Some s1 \<and>
       ssl_write_some A L (i + length ns) buffers (Time_point deadline) s1 = Some (Inr (Success, n), s2))"
  by (induction ns arbitrary: i s) (auto split: option.splits sum.splits if_splits)

lemma was_read_snoc:
  "was_read A L room deadline i (bss @ [bs]) s = Some s2 \<longleftrightarrow>
     (\<exists>s1. was_read A L room deadline i bss s = Some s1 \<and>
       ssl_read_some A L (i + length bss) room (Time_point deadline) s1 = Some (Inr (Success, bs), s2))"
  by (induction bss arbitrary: i s) (auto split: option.splits sum.splits if_splits)

definition code_after :: "error_code \<Rightarrow> 'a list \<Rightarrow> error_code" where
  "code_after ec xs = (if xs = [] then ec else Success)"

text \<open>The state of \<open>send\<close> after calls that took \<open>ns\<close> bytes, and of \<open>receive\<close> after calls that gave \<open>bss\<close>.\<close>

lemma send_after:
  assumes "wrote A L buffers deadline 0 ns s = Some s1" and "misses (length buffers) ns"
  shows "ssl_send A L buffers deadline ec s =
    ssl_send_loop A L buffers deadline (length ns) (code_after ec ns) (of_nat (sum_list ns))
      (concat (map (\<lambda>n. take n buffers) ns)) s1"
  using assms
proof (induction ns arbitrary: s1 rule: rev_induct)
  case (snoc n ns)
  then obtain s0 where s0: "wrote A L buffers deadline 0 ns s = Some s0"
    "ssl_write_some A L (length ns) buffers (Time_point deadline) s0 = Some (Inr (Success, n), s1)"
    by (auto simp: wrote_snoc)
  have "ssl_send A L buffers deadline ec s = ssl_send_loop A L buffers deadline (length ns) (code_after ec ns)
      (of_nat (sum_list ns)) (concat (map (\<lambda>n. take n buffers) ns)) s0"
    using snoc.IH [OF s0(1)] snoc.prems(2) by (simp add: misses_snoc)
  also have "\<dots> = ssl_send_loop A L buffers deadline (Suc (length ns)) Success (of_nat (sum_list ns) + of_nat n)
      (concat (map (\<lambda>n. take n buffers) ns) @ take n buffers) s1"
    using s0(2) snoc.prems(2) by (subst ssl_send_loop.simps) (simp add: misses_snoc)
  finally show ?case by (simp add: code_after_def)
qed (simp add: ssl_send_def code_after_def)

fun received :: "byte list \<Rightarrow> byte list list \<Rightarrow> byte list" where
  "received contents [] = contents"
| "received contents (bs # bss) = received (store_front bs contents) bss"

lemma received_snoc [simp]: "received contents (bss @ [bs]) = store_front bs (received contents bss)"
  by (induction bss arbitrary: contents) simp_all

lemma store_front_length: "length bs \<le> length contents \<Longrightarrow> length (store_front bs contents) = length contents"
  by (simp add: store_front_def)

lemma received_length:
  "\<forall>bs \<in> set bss. length bs \<le> length contents \<Longrightarrow> length (received contents bss) = length contents"
  by (induction bss rule: rev_induct) (simp_all add: store_front_length)

lemma received_drop: "\<forall>bs \<in> set bss. length bs \<le> k \<Longrightarrow> drop k (received contents bss) = drop k contents"
  by (induction bss rule: rev_induct) (simp_all add: store_front_def)

lemma receive_after:
  assumes "was_read A L (length contents) deadline 0 bss s = Some s1" and "misses (length contents) (map length bss)"
    and "\<forall>bs \<in> set bss. length bs \<le> length contents"
  shows "ssl_receive A L contents deadline ec s =
    ssl_receive_loop A L deadline (length bss) (code_after ec bss) (of_nat (sum_list (map length bss)))
      (received contents bss) s1"
  using assms
proof (induction bss arbitrary: s1 rule: rev_induct)
  case (snoc bs bss)
  then obtain s0 where s0: "was_read A L (length contents) deadline 0 bss s = Some s0"
    "ssl_read_some A L (length bss) (length contents) (Time_point deadline) s0 = Some (Inr (Success, bs), s1)"
    by (auto simp: was_read_snoc)
  have len: "length (received contents bss) = length contents"
    using snoc.prems(3) by (intro received_length) simp
  have "ssl_receive A L contents deadline ec s = ssl_receive_loop A L deadline (length bss) (code_after ec bss)
      (of_nat (sum_list (map length bss))) (received contents bss) s0"
    using snoc.IH [OF s0(1)] snoc.prems(2,3) by (simp add: misses_snoc)
  also have "\<dots> = ssl_receive_loop A L deadline (Suc (length bss)) Success
      (of_nat (sum_list (map length bss)) + of_nat (length bs)) (store_front bs (received contents bss)) s1"
    using s0(2) snoc.prems(2) len by (subst ssl_receive_loop.simps) (simp add: misses_snoc)
  finally show ?case by (simp add: code_after_def)
qed (simp add: ssl_receive_def code_after_def)

lemma send_loop_done:
  "ssl_send_loop A L buffers deadline i ec (of_nat (length buffers)) wire s =
     Some (Inr (ec, of_nat (length buffers)), wire, s)"
  by (subst ssl_send_loop.simps) simp

lemma send_loop_fails:
  assumes "transfered \<noteq> of_nat (length buffers)" and "is_error ec'"
    and "ssl_write_some A L i buffers (Time_point deadline) s = Some (Inr (ec', n), s')"
  shows "ssl_send_loop A L buffers deadline i ec transfered wire s =
    Some (Inr (ec', transfered + of_nat n), wire @ take n buffers, s')"
  using assms by (subst ssl_send_loop.simps) simp

lemma receive_loop_done:
  "ssl_receive_loop A L deadline i ec (of_nat (length contents)) contents s =
     Some (Inr (ec, of_nat (length contents)), contents, s)"
  by (subst ssl_receive_loop.simps) simp

lemma receive_loop_fails:
  assumes "transfered \<noteq> of_nat (length contents)" and "is_error ec'"
    and "ssl_read_some A L i (length contents) (Time_point deadline) s = Some (Inr (ec', bs), s')"
  shows "ssl_receive_loop A L deadline i ec transfered contents s =
    Some (Inr (ec', transfered + of_nat (length bs)), store_front bs contents, s')"
  using assms by (subst ssl_receive_loop.simps) simp

section \<open>Properties\<close>

text \<open>
  C33. A handshake, a write or a read of the SSL stream that returns has restored the I/O timeout mode
  of the client underneath, kept its configuration and cleared the deadline it set.
\<close>

theorem ssl_calls_restore_mode:
  assumes "armed s" and "arg \<noteq> Duration kInfiniteDuration" and "timer_saturates A"
    and "0 \<le> t1" and "0 \<le> call_end L i"
    and "layer_keeps (layer_write L i buffers)" and "layer_keeps (layer_read L i room)"
    and "layer_keeps (\<lambda>s. map_option (\<lambda>(ec, s'). (ec, ec, s')) (layer_handshake L s))"
  shows "(\<forall>r s'. ssl_write_some A L i buffers arg s = Some (Inr r, s') \<longrightarrow>
        same_config s s' \<and> timer_expiry s' = kInfiniteDuration) \<and>
    (\<forall>r s'. ssl_read_some A L i room arg s = Some (Inr r, s') \<longrightarrow>
        same_config s s' \<and> timer_expiry s' = kInfiniteDuration) \<and>
    (\<forall>r s'. handshake A L t0 t1 arg s = Some (Inr r, s') \<longrightarrow>
        same_config s s' \<and> timer_expiry s' = kInfiniteDuration)"
proof -
  have eta: "(\<lambda>s1. case layer_handshake L s1 of None \<Rightarrow> None | Some (ec, s2) \<Rightarrow> Some (ec, ec, s2)) =
      (\<lambda>s. map_option (\<lambda>(ec, s'). (ec, ec, s')) (layer_handshake L s))"
    by (auto split: option.splits)
  show ?thesis
    using with_deadline_restores [OF assms(6,1) _ assms(2)] with_deadline_restores [OF assms(7,1) _ assms(2)]
      with_deadline_restores [OF assms(8,1) _ assms(2)] assms(4,5)
    by (auto simp: ssl_write_some_def ssl_read_some_def handshake_def eta timer_infinite [OF assms(3)])
qed

definition sample_layer :: ssl_layer where
  "sample_layer = \<lparr>layer_handshake = (\<lambda>s. Some (Success, s)),
     layer_write = (\<lambda>i buffers s. Some (Success, 2, s)),
     layer_read = (\<lambda>i room s. Some (Success, [9, 9], s)),
     layer_shutdown = (\<lambda>s. (Success, s)), short_read = 1, sni_result = None,
     call_start = (\<lambda>i. 100), call_end = (\<lambda>i. 200)\<rparr>"

lemma sample_layer_keeps [simp]:
  "layer_keeps (layer_write sample_layer i buffers)" "layer_keeps (layer_read sample_layer i room)"
  "layer_keeps (\<lambda>s. map_option (\<lambda>(ec, s'). (ec, ec, s')) (layer_handshake sample_layer s))"
  by (auto simp: layer_keeps_def same_config_def sample_layer_def)

theorem ssl_calls_restore_mode_witness:
  "\<exists>s'. ssl_write_some linux_asio sample_layer 0 [1, 2, 3] (Duration 5000000) sample_socket = Some (Inr (Success, 2), s') \<and>
     io_timeouted s' = io_timeouted sample_socket \<and> timer_expiry s' = kInfiniteDuration"
proof -
  have arm: "armed sample_socket" by (simp add: sample_socket_def armed_def)
  have arg: "Duration 5000000 \<noteq> Duration kInfiniteDuration" by (simp add: duration_defs)
  obtain s' where s': "ssl_write_some linux_asio sample_layer 0 [1, 2, 3] (Duration 5000000) sample_socket =
      Some (Inr (Success, 2), s')"
    by (simp add: ssl_write_some_def with_deadline_def set_io_timeout_enabled_def scope_expire_finite duration_defs
        sample_layer_def)
  have "(\<forall>r s'. ssl_write_some linux_asio sample_layer 0 [1, 2, 3] (Duration 5000000) sample_socket = Some (Inr r, s') \<longrightarrow>
      same_config sample_socket s' \<and> timer_expiry s' = kInfiniteDuration)"
    using ssl_calls_restore_mode [OF arm arg linux_asio_saturates, of 0 sample_layer 0 "[1, 2, 3]" 0 0]
    by (simp add: sample_layer_def [THEN arg_cong, of "\<lambda>L. call_end L 0"])
  with s' show ?thesis by (auto simp: same_config_def)
qed

text \<open>
  When the timeout of such a call is below the timer's resolution the call throws \<open>timed_out\<close> and
  leaves the client's I/O timeouts switched off: every later transfer without an explicit timeout
  waits without a deadline.
\<close>

theorem ssl_short_timeout_disables:
  assumes "d < kDurationResolution"
  shows "\<exists>s'. ssl_write_some A L i buffers (Duration d) s = Some (Inl (System_error Timed_out ''''), s') \<and>
    ssl_read_some A L i room (Duration d) s = Some (Inl (System_error Timed_out ''''), s') \<and>
    \<not> io_timeout_enabled s' \<and> io_timeout s' = kInfiniteDuration \<and> sock_open s' = sock_open s"
  by (simp add: ssl_write_some_def ssl_read_some_def with_deadline_short [OF assms] io_timeout_enabled_def io_timeout_def)

theorem ssl_short_timeout_disables_witness:
  "\<exists>s'. ssl_write_some linux_asio sample_layer 0 [1] (Duration 999) sample_socket =
       Some (Inl (System_error Timed_out ''''), s') \<and> \<not> io_timeout_enabled s'"
  using ssl_short_timeout_disables [of 999 linux_asio sample_layer 0 "[1]" sample_socket 0]
  by (auto simp: kDurationResolution_def)

lemma ssl_send_whole:
  assumes "wrote A L buffers deadline 0 ns s = Some s'" and "misses (length buffers) ns"
    and "sum_list ns = length buffers" and "ns \<noteq> []"
  shows "ssl_send A L buffers deadline ec s =
    Some (Inr (Success, of_nat (length buffers)), concat (map (\<lambda>n. take n buffers) ns), s')"
  using send_after [OF assms(1,2)] assms(3,4) by (simp add: send_loop_done code_after_def)



text \<open>
  C35. What \<open>send\<close> over SSL gives for calls that took \<open>ns\<close> bytes one after the other without making the count equal
  to the size: success and one prefix of the buffer for each call, when the last call makes them equal;
  otherwise, when the next call fails, its code, with everything counted. So a count that has gone past the size
  does not end the loop: it goes on transmitting the beginning of the buffer until a call fails, as it does when the
  deadline of the client underneath passes, and then reports that error and more bytes than the buffer has.
\<close>

theorem ssl_send_outcome:
  assumes "wrote A L buffers deadline 0 ns s = Some s1" and "misses (length buffers) ns"
  shows "(ns \<noteq> [] \<and> sum_list ns = length buffers \<longrightarrow>
      ssl_send A L buffers deadline ec s =
        Some (Inr (Success, of_nat (length buffers)), concat (map (\<lambda>n. take n buffers) ns), s1)) \<and>
    ((of_nat (sum_list ns) :: 64 word) \<noteq> of_nat (length buffers) \<and> is_error ec' \<and>
      ssl_write_some A L (length ns) buffers (Time_point deadline) s1 = Some (Inr (ec', n), s2) \<longrightarrow>
      ssl_send A L buffers deadline ec s =
        Some (Inr (ec', of_nat (sum_list ns + n)), concat (map (\<lambda>n. take n buffers) ns) @ take n buffers, s2))"
  using ssl_send_whole [OF assms] by (auto simp: send_after [OF assms] send_loop_fails)

text \<open>A layer that takes two bytes a call, one call a microsecond, until the deadline of the client.\<close>

definition slow_layer :: ssl_layer where
  "slow_layer = sample_layer\<lparr>
     layer_write := (\<lambda>i buffers s.
       if timer_expiry s \<le> 1000 * int i + 900 then Some (Timed_out, 0, s) else Some (Success, min 2 (length buffers), s)),
     layer_read := (\<lambda>i room s.
       if timer_expiry s \<le> 1000 * int i + 900 then Some (Timed_out, [], s) else Some (Success, take room [7, 8], s)),
     call_start := (\<lambda>i. 1000 * int i), call_end := (\<lambda>i. 1000 * int i + 900)\<rparr>"

lemmas slow_layer_defs = slow_layer_def sample_layer_def ssl_write_some_def ssl_read_some_def with_deadline_def
  set_io_timeout_enabled_def misses_def less_Suc_eq

theorem ssl_send_outcome_witness:
  "\<exists>s2. ssl_send linux_asio slow_layer [1, 2, 3] 2500 Success sample_socket =
     Some (Inr (Timed_out, 4), [1, 2, 1, 2], s2)"
proof -
  obtain s1 where s1: "wrote linux_asio slow_layer [1, 2, 3] 2500 0 [2, 2] sample_socket = Some s1"
    by (simp add: slow_layer_defs)
  moreover have "misses (length [1, 2, 3 :: byte]) [2, 2]" by (auto simp: misses_def less_Suc_eq)
  moreover obtain s2 where "ssl_write_some linux_asio slow_layer (length [2, 2 :: nat]) [1, 2, 3] (Time_point 2500) s1 = Some (Inr (Timed_out, 0), s2)"
    by (simp add: slow_layer_defs)
  ultimately show ?thesis
    using ssl_send_outcome [of linux_asio slow_layer "[1, 2, 3]" 2500 "[2, 2]" sample_socket s1 Success Timed_out 0 s2]
    by (simp del: wrote.simps)
qed

text \<open>
  C27. What \<open>receive\<close> over SSL gives for calls that delivered \<open>bss\<close> one after the other without making the count equal
  to the size of the buffer: each is stored over the beginning of the buffer, so that a success reports a full
  buffer although nothing was stored past the length of the longest delivery; otherwise, when the next call
  fails, its code, with everything counted.
\<close>

theorem ssl_receive_outcome:
  assumes "was_read A L (length contents) deadline 0 bss s = Some s1" and "misses (length contents) (map length bss)"
    and "\<forall>bs \<in> set bss. length bs \<le> length contents"
  shows "(bss \<noteq> [] \<and> sum_list (map length bss) = length contents \<longrightarrow>
      ssl_receive A L contents deadline ec s =
        Some (Inr (Success, of_nat (length contents)), received contents bss, s1)) \<and>
    ((of_nat (sum_list (map length bss)) :: 64 word) \<noteq> of_nat (length contents) \<and> is_error ec' \<and>
      ssl_read_some A L (length bss) (length contents) (Time_point deadline) s1 = Some (Inr (ec', bs), s2) \<longrightarrow>
      ssl_receive A L contents deadline ec s =
        Some (Inr (ec', of_nat (sum_list (map length bss) + length bs)), store_front bs (received contents bss), s2)) \<and>
    (\<forall>k. (\<forall>bs \<in> set bss. length bs \<le> k) \<longrightarrow> drop k (received contents bss) = drop k contents)"
proof (intro conjI)
  have len: "length (received contents bss) = length contents" by (rule received_length [OF assms(3)])
  note after = receive_after [OF assms, of ec]
  show "bss \<noteq> [] \<and> sum_list (map length bss) = length contents \<longrightarrow>
      ssl_receive A L contents deadline ec s = Some (Inr (Success, of_nat (length contents)), received contents bss, s1)"
    using after receive_loop_done [where contents = "received contents bss"] by (simp add: len code_after_def)
  show "(of_nat (sum_list (map length bss)) :: 64 word) \<noteq> of_nat (length contents) \<and> is_error ec' \<and>
      ssl_read_some A L (length bss) (length contents) (Time_point deadline) s1 = Some (Inr (ec', bs), s2) \<longrightarrow>
      ssl_receive A L contents deadline ec s =
        Some (Inr (ec', of_nat (sum_list (map length bss) + length bs)), store_front bs (received contents bss), s2)"
    using after receive_loop_fails [where contents = "received contents bss"] by (simp add: len)
qed (auto intro: received_drop)

theorem ssl_receive_outcome_witness:
  "\<exists>s2. ssl_receive linux_asio slow_layer [0, 0, 0, 0] 2500 Success sample_socket =
     Some (Inr (Success, 4), [7, 8, 0, 0], s2)"
proof -
  obtain s1 where "was_read linux_asio slow_layer (length [0, 0, 0, 0 :: byte]) 2500 0 [[7, 8], [7, 8]] sample_socket = Some s1"
    by (simp add: slow_layer_defs)
  moreover have "misses (length [0, 0, 0, 0 :: byte]) (map length [[7, 8], [7, 8 :: byte]])" by (auto simp: misses_def less_Suc_eq)
  ultimately show ?thesis
    using ssl_receive_outcome [of linux_asio slow_layer "[0, 0, 0, 0]" 2500 "[[7, 8], [7, 8]]" sample_socket s1 Success Timed_out "[]" s1]
    by (simp add: store_front_def)
qed

text \<open>
  With the I/O timeouts switched off the overloads of \<open>send\<close> and \<open>receive\<close> without a timeout
  compute their deadline with a signed overflow: instead of no deadline they get one before the
  clock's epoch, which every clock reading has passed.
\<close>

theorem ssl_default_deadline_overflows:
  assumes "\<not> io_timeout_enabled s" and "0 < now" and "now \<le> tick_max"
  shows "ssl_send_default A L now buffers ec s = ssl_send A L buffers (now - 1 - 2 ^ 63) ec s \<and>
    ssl_receive_default A L now contents ec s = ssl_receive A L contents (now - 1 - 2 ^ 63) ec s \<and>
    now - 1 - 2 ^ 63 < 0"
proof -
  have "io_timeout s = tick_max"
    using assms(1) by (simp add: io_timeout_def io_timeout_enabled_def kInfiniteDuration_def)
  then have "tick_add now (io_timeout s) = now - 1 - 2 ^ 63"
    using tick_add_overflow [OF assms(2,3)] by simp
  then show ?thesis
    using assms(3) by (simp add: ssl_send_default_def ssl_receive_default_def tick_max_def)
qed

theorem ssl_default_deadline_overflows_witness:
  "ssl_send_default linux_asio sample_layer 1000 [1, 2] Success (sample_socket\<lparr>io_timeouted := False\<rparr>) =
     ssl_send linux_asio sample_layer [1, 2] (999 - 2 ^ 63) Success (sample_socket\<lparr>io_timeouted := False\<rparr>)"
  using ssl_default_deadline_overflows [of "sample_socket\<lparr>io_timeouted := False\<rparr>" 1000 linux_asio sample_layer "[1, 2]" Success "[]"]
  by (simp add: io_timeout_enabled_def tick_max_def)

end
