(* ===== verification/Resolver.thy ===== *)
theory Resolver
  imports Timed_Base
begin

text \<open>
  The DNS resolver (\<open>resolver/resolver.hpp\<close>, \<open>resolver/impl/resolver.ipp\<close>): a \<open>timed_base\<close> that
  owns a Boost.Asio resolver and a query. \<open>resolve\<close> is one blocking wait; the deadline actor cancels
  the pending resolve. The endpoints a resolve delivers are a list; the default constructed iterator
  is the empty list.
\<close>

section \<open>State\<close>

datatype ip_family = Ipv4 | Ipv6 | Any_family

text \<open>The query: \<open>Protocol::v4()\<close>, \<open>Protocol::v6()\<close>, or no protocol, with host, port and flags.\<close>

datatype query_protocol = Proto_v4 | Proto_v6 | Proto_unspecified

record 'flags query =
  query_protocol :: query_protocol
  query_host :: string
  query_port :: string
  query_flags :: 'flags

record 'flags base_resolver = timed_base +
  resolver_cancelled :: bool
  resolve_timeout :: tick
  query :: "'flags query"

definition kDefaultIPFamily :: ip_family where
  "kDefaultIPFamily = Any_family"

section \<open>Operations\<close>

definition make_query :: "ip_family \<Rightarrow> string \<Rightarrow> string \<Rightarrow> 'flags \<Rightarrow> 'flags query" where
  "make_query protocol host port resolve_flags =
     (case protocol of
        Ipv4 \<Rightarrow> \<lparr>query_protocol = Proto_v4, query_host = host, query_port = port, query_flags = resolve_flags\<rparr>
      | Ipv6 \<Rightarrow> \<lparr>query_protocol = Proto_v6, query_host = host, query_port = port, query_flags = resolve_flags\<rparr>
      | Any_family \<Rightarrow>
          \<lparr>query_protocol = Proto_unspecified, query_host = host, query_port = port, query_flags = resolve_flags\<rparr>)"

definition base_resolver_ctor ::
  "asio \<Rightarrow> tick \<Rightarrow> string \<Rightarrow> string \<Rightarrow> tick \<Rightarrow> ip_family \<Rightarrow> 'flags \<Rightarrow> 'flags base_resolver" where
  "base_resolver_ctor A now host port timeout protocol resolve_flags =
     timed_base_ctor A now (base_resolver.fields False timeout (make_query protocol host port resolve_flags))"

text \<open>\<open>resolver_.cancel()\<close>: the pending resolve will complete with \<open>operation_aborted\<close>.\<close>

definition resolver_actor :: "('flags, 'a) base_resolver_scheme \<Rightarrow> ('flags, 'a) base_resolver_scheme" where
  "resolver_actor s = s\<lparr>resolver_cancelled := True\<rparr>"

definition set_resolve_timeout ::
  "tick \<Rightarrow> ('flags, 'a) base_resolver_scheme \<Rightarrow> tick \<times> ('flags, 'a) base_resolver_scheme" where
  "set_resolve_timeout new_resolve_timeout s =
     (resolve_timeout s, s\<lparr>resolve_timeout := new_resolve_timeout\<rparr>)"

definition resolve_handler ::
  "bool \<Rightarrow> error_code \<Rightarrow> 'ep list \<Rightarrow> 'ep list \<Rightarrow> error_code \<times> 'ep list" where
  "resolve_handler fired err iterator endpoints = (completion_code fired err, iterator)"

definition get_resolve_timeout_of :: "('flags, 'a) base_resolver_scheme \<Rightarrow> tick" where
  "get_resolve_timeout_of s = resolve_timeout s"

text \<open>
  \<open>async_resolve\<close> sets the expiration up, which may throw, starts the operation and moves the
  expiration into its handler.
\<close>

definition async_resolve ::
  "asio \<Rightarrow> tick \<Rightarrow> time_arg \<Rightarrow> 'flags base_resolver \<Rightarrow> (exn + expiration) \<times> 'flags base_resolver" where
  "async_resolve A now timeout_or_deadline s =
     (case scope_expire A now timeout_or_deadline s of
        (Inl x, s1) \<Rightarrow> (Inl x, s1)
      | (Inr e, s1) \<Rightarrow> (Inr e, s1\<lparr>resolver_cancelled := False\<rparr>))"

text \<open>The \<open>error_code\<close> overload.\<close>

definition resolve ::
  "asio \<Rightarrow> tick \<Rightarrow> 'ep list io_event list \<Rightarrow> time_arg \<Rightarrow> 'flags base_resolver
     \<Rightarrow> ((exn + error_code \<times> 'ep list) \<times> 'flags base_resolver) option" where
  "resolve A now es timeout_or_deadline s =
     (case async_resolve A now timeout_or_deadline s of
        (Inl x, s1) \<Rightarrow> Some (Inl x, s1)
      | (Inr e, s1) \<Rightarrow>
          (case io_run A resolver_actor resolve_handler e es Would_block [] s1 of
             None \<Rightarrow> None
           | Some (ec, endpoints, s2, rest) \<Rightarrow> Some (Inr (ec, endpoints), s2)))"

definition resolve_default ::
  "asio \<Rightarrow> tick \<Rightarrow> 'ep list io_event list \<Rightarrow> 'flags base_resolver
     \<Rightarrow> ((exn + error_code \<times> 'ep list) \<times> 'flags base_resolver) option" where
  "resolve_default A now es s = resolve A now es (Duration (get_resolve_timeout_of s)) s"

definition resolve_throw ::
  "asio \<Rightarrow> tick \<Rightarrow> 'ep list io_event list \<Rightarrow> 'flags base_resolver
     \<Rightarrow> ((exn + 'ep list) \<times> 'flags base_resolver) option" where
  "resolve_throw A now es s =
     (case resolve_default A now es s of
        None \<Rightarrow> None
      | Some (Inl x, s') \<Rightarrow> Some (Inl x, s')
      | Some (Inr (ec, endpoints), s') \<Rightarrow> Some (throw_if_error '''' ec endpoints, s'))"

section \<open>A resolver is a timed object\<close>

definition cancel_fields :: "('flags, 'a) base_resolver_ext \<Rightarrow> ('flags, 'a) base_resolver_ext" where
  "cancel_fields m =
     timed_base.more
       (\<lparr>deadline_fired = False, timer_expiry = 0, wait_posted = False, io_stopped = False, \<dots> = m\<rparr>
          \<lparr>resolver_cancelled := True\<rparr>)"

interpretation resolver_timer: timed_object resolver_actor cancel_fields
proof (unfold_locales, goal_cases)
  case (1 s)
  show ?case by (cases s) (simp add: resolver_actor_def cancel_fields_def)
next
  case (2 m)
  show ?case
    by (cases "\<lparr>deadline_fired = False, timer_expiry = 0, wait_posted = False, io_stopped = False,
          \<dots> = m\<rparr>" rule: base_resolver.cases_scheme) (simp add: cancel_fields_def)
qed

lemma resolver_fields_of_more:
  assumes "timed_base.more s' = (if b then cancel_fields (timed_base.more s) else timed_base.more s)"
  shows "resolver_cancelled s' = (b \<or> resolver_cancelled s)" "resolve_timeout s' = resolve_timeout s"
    "query s' = query s"
  using assms by (cases s; cases s'; cases b; simp add: cancel_fields_def)+

lemma resolve_outcome_lemma:
  assumes "armed s" and "arg_ok arg" and "completes es t err eps"
    and "hit = deadline_hit (expiry_of A now arg (timer_expiry s)) es"
  shows "\<exists>s'. resolve A now es arg s = Some (Inr (completion_code hit err, eps), s') \<and>
    armed s' \<and> resolver_cancelled s' = hit \<and> query s' = query s \<and> resolve_timeout s' = resolve_timeout s \<and>
    (arg \<noteq> Duration kInfiniteDuration \<longrightarrow> timer_expiry s' = time_add A t kInfiniteDuration)"
proof -
  let ?e = "if arg = Duration kInfiniteDuration then Null_timer else Timer"
  let ?s1 = "s\<lparr>deadline_fired := False, timer_expiry := expiry_of A now arg (timer_expiry s),
    resolver_cancelled := False\<rparr>"
  have "armed ?s1" "\<not> deadline_fired ?s1" "timer_expiry ?s1 = expiry_of A now arg (timer_expiry s)"
    "completion_code hit err \<noteq> Would_block" "first_completion es = Some (t, err, eps)"
    using assms(1,3) by (simp_all add: armed_def completes_def completion_code_def)
  then obtain s' where s': "io_run A resolver_actor resolve_handler ?e es Would_block [] ?s1 =
      Some (completion_code hit err, eps, s', after_completion es)" "armed s'"
    "timed_base.more s' = (if hit then cancel_fields (timed_base.more ?s1) else timed_base.more ?s1)"
    "?e = Timer \<longrightarrow> timer_expiry s' = time_add A t kInfiniteDuration"
    using resolver_timer.io_run_result [of ?s1 es t err eps resolve_handler "[]" "completion_code hit err" eps A ?e]
      assms(4) by (auto simp: resolve_handler_def)
  have "resolve A now es arg s = Some (Inr (completion_code hit err, eps), s')"
    using s'(1) by (simp add: resolve_def async_resolve_def scope_expire_ok [OF assms(2)])
  with s' resolver_fields_of_more [OF s'(3)] show ?thesis by (auto split: if_splits)
qed

section \<open>Properties\<close>

text \<open>
  C28. A resolve returns once its operation completes: the code is \<open>timed_out\<close> exactly when the
  deadline was reached first, in which case, and only then, the resolver was told to cancel; the
  query and the default timeout are untouched and the deadline is cleared.
\<close>

theorem resolve_outcome:
  assumes "armed s" and "arg_ok arg" and "completes es t err eps"
    and "hit = deadline_hit (expiry_of A now arg (timer_expiry s)) es"
  shows "\<exists>s'. resolve A now es arg s = Some (Inr (completion_code hit err, eps), s') \<and>
    armed s' \<and> resolver_cancelled s' = hit \<and> query s' = query s \<and> resolve_timeout s' = resolve_timeout s \<and>
    (arg \<noteq> Duration kInfiniteDuration \<longrightarrow> timer_expiry s' = time_add A t kInfiniteDuration)"
  using assms by (rule resolve_outcome_lemma)

definition sample_resolver :: "nat base_resolver" where
  "sample_resolver = base_resolver_ctor linux_asio 0 ''localhost'' ''6666'' 500000000 kDefaultIPFamily 0"

theorem resolve_outcome_witness:
  "\<exists>s'. resolve linux_asio 10 [Deadline 600000000 600000001, Completed 600000002 Operation_aborted ([] :: nat list)]
       (Duration 500000000) sample_resolver = Some (Inr (Timed_out, []), s') \<and> resolver_cancelled s'"
proof -
  let ?es = "[Deadline 600000000 600000001, Completed 600000002 Operation_aborted []] :: nat list io_event list"
  have "armed sample_resolver" "arg_ok (Duration 500000000)" "completes ?es 600000002 Operation_aborted []"
    "True = deadline_hit (expiry_of linux_asio 10 (Duration 500000000) (timer_expiry sample_resolver)) ?es"
    by (simp_all add: sample_resolver_def base_resolver_ctor_def armed_ctor arg_ok_def completes_def
        expiry_of_def linux_asio_def duration_defs)
  from resolve_outcome [OF this] show ?thesis by (auto simp: completion_code_def)
qed

end
