(* ===== verification/Runs.thy ===== *)
theory Runs
  imports Main
begin

text \<open>
  Runs of labelled step relations, and what holds of every one of them. The interleaving machines of
  the development (the connector, the pool, the two composed) each have a step relation and a relation
  of finite runs built from it by appending one step; \<open>labelled_system\<close> is their common interface, and
  \<open>labelled_projection\<close> says that one machine shows another one's runs when its own steps are followed.
  The last section bounds how often a component changes along a sequence of states.
\<close>

section \<open>Finite runs\<close>

text \<open>
  \<open>alive s\<close>: the program has not ended in \<open>s\<close>, so a step may follow. A run is empty, or a run and one more
  step from a state that is alive.
\<close>

locale labelled_system =
  fixes step :: "'l \<Rightarrow> 's \<Rightarrow> 's \<Rightarrow> bool"
    and alive :: "'s \<Rightarrow> bool"
    and run :: "'l list \<Rightarrow> 's \<Rightarrow> 's \<Rightarrow> bool"
  assumes run_empty: "run [] s u \<longleftrightarrow> u = s"
    and run_last: "run (ls @ [l]) s u \<longleftrightarrow> (\<exists>t. run ls s t \<and> alive t \<and> step l t u)"
begin

lemma run_append: "run (ls @ ls') s u \<longleftrightarrow> (\<exists>t. run ls s t \<and> run ls' t u)"
proof (induction ls' arbitrary: u rule: rev_induct)
  case (snoc l ls')
  have "run (ls @ ls' @ [l]) s u \<longleftrightarrow> (\<exists>t. run (ls @ ls') s t \<and> alive t \<and> step l t u)"
    using run_last [of "ls @ ls'" l s u] by simp
  with snoc.IH show ?case by (auto simp: run_last)
qed (simp add: run_empty)

lemma run_one: "run [l] s t \<longleftrightarrow> alive s \<and> step l s t"
  using run_last [of "[]" l s t] by (auto simp: run_empty)

lemma run_first: "run (l # ls) s u \<longleftrightarrow> (\<exists>t. alive s \<and> step l s t \<and> run ls t u)"
  using run_append [of "[l]" ls s u] by (auto simp: run_one)

lemma run_join: "run ls s t \<Longrightarrow> run ls' t u \<Longrightarrow> run (ls @ ls') s u"
  by (auto simp: run_append)

lemma run_step: "step l s t \<Longrightarrow> alive s \<Longrightarrow> run ls t u \<Longrightarrow> run (l # ls) s u"
  by (auto simp: run_first)

lemma run_stepped: "\<exists>ls. run ls t u \<Longrightarrow> step l s t \<Longrightarrow> alive s \<Longrightarrow> \<exists>ls. run ls s u"
  by (blast intro: run_step)

lemma run_chain: "\<exists>ls. run ls s t \<Longrightarrow> \<exists>ls. run ls t u \<Longrightarrow> \<exists>ls. run ls s u"
  by (blast intro: run_join)

text \<open>An invariant that may look at the history of the run.\<close>

lemma run_invariant:
  assumes "run ls s t" and "J [] s"
    and keep: "\<And>ls t l u. run ls s t \<Longrightarrow> J ls t \<Longrightarrow> alive t \<Longrightarrow> step l t u \<Longrightarrow> J (ls @ [l]) u"
  shows "J ls t"
  using assms(1)
proof (induction ls arbitrary: t rule: rev_induct)
  case Nil
  with assms(2) show ?case by (simp add: run_empty)
next
  case (snoc l ls)
  then show ?case by (auto simp: run_last intro: keep)
qed

lemma run_preserves:
  assumes "run ls s t" and "P s" and "\<And>l s t. step l s t \<Longrightarrow> P s \<Longrightarrow> P t"
  shows "P t"
  using run_invariant [of ls s t "\<lambda>_. P"] assms by blast

text \<open>A step that ends a phase is the only way out of it.\<close>

lemma run_leaves:
  assumes "run ls s t" and "P s" and "\<not> P t"
    and "\<And>l s t. alive s \<Longrightarrow> step l s t \<Longrightarrow> P s \<Longrightarrow> P t \<or> out l"
  shows "\<exists>l \<in> set ls. out l"
proof -
  have "P t \<or> (\<exists>l \<in> set ls. out l)"
    using assms(1)
  proof (rule run_invariant)
    fix ls t l u
    assume "P t \<or> (\<exists>l \<in> set ls. out l)" "alive t" "step l t u"
    with assms(4) show "P u \<or> (\<exists>l \<in> set (ls @ [l]). out l)" by fastforce
  qed (use assms(2) in simp)
  with assms(3) show ?thesis by blast
qed

end

text \<open>
  A system whose every step is, seen through \<open>view\<close>, a run of another system with the labels \<open>part\<close>.
\<close>

locale labelled_projection =
  whole: labelled_system step alive run + target: labelled_system step' alive' run'
  for step :: "'l \<Rightarrow> 's \<Rightarrow> 's \<Rightarrow> bool" and alive :: "'s \<Rightarrow> bool" and run :: "'l list \<Rightarrow> 's \<Rightarrow> 's \<Rightarrow> bool"
    and step' :: "'m \<Rightarrow> 't \<Rightarrow> 't \<Rightarrow> bool" and alive' :: "'t \<Rightarrow> bool" and run' :: "'m list \<Rightarrow> 't \<Rightarrow> 't \<Rightarrow> bool" +
  fixes view :: "'s \<Rightarrow> 't" and part :: "'l \<Rightarrow> 'm list"
  assumes step_view: "alive s \<Longrightarrow> step l s t \<Longrightarrow> run' (part l) (view s) (view t)"
begin

lemma run_view:
  assumes "run ls s t"
  shows "run' (concat (map part ls)) (view s) (view t)"
  using assms
proof (rule whole.run_invariant)
  fix ls t l u
  assume "run' (concat (map part ls)) (view s) (view t)" "alive t" "step l t u"
  then show "run' (concat (map part (ls @ [l]))) (view s) (view u)"
    by (auto intro: target.run_join step_view)
qed (simp add: target.run_empty)

end

section \<open>Executions and ranks\<close>

text \<open>
  The places a thread has along an infinite execution, \<open>g 0, g 1, ...\<close>: at every step the thread rests or
  moves down a rank. If it keeps being scheduled until it has \<open>finished\<close>, it does finish.
\<close>

lemma execution_step_rank:
  fixes rank :: "'a \<Rightarrow> nat"
  assumes "\<And>n. g (Suc n) = g n \<or> rank (g (Suc n)) < rank (g n)" and "n \<le> m"
  shows "g m = g n \<or> rank (g m) < rank (g n)"
  using assms(2)
proof (induction m)
  case (Suc m)
  show ?case
  proof (cases "n \<le> m")
    case True
    with Suc.IH assms(1) [of m] show ?thesis by auto
  next
    case False
    with Suc.prems show ?thesis by (simp add: le_Suc_eq)
  qed
qed simp

lemma execution_finishes:
  fixes rank :: "'a \<Rightarrow> nat"
  assumes move: "\<And>n. g (Suc n) = g n \<or> rank (g (Suc n)) < rank (g n)"
    and fair: "\<And>n. \<not> finished (g n) \<Longrightarrow> \<exists>m > n. g m \<noteq> g n"
  shows "\<exists>n. finished (g n)"
proof (rule ccontr)
  assume none: "\<nexists>n. finished (g n)"
  have down: "\<exists>m. rank (g m) < rank (g n)" for n
    using fair [of n] none execution_step_rank [of g rank n, OF move] by (metis less_imp_le)
  have "\<forall>n. rank (g n) = r \<longrightarrow> False" for r
    by (induction r rule: less_induct) (use down in blast)
  then show False by blast
qed

end
