(* ===== verification/Connector.thy ===== *)
theory Connector
  imports Base_Socket Resolver Runs "HOL-Library.Sublist"
begin

text \<open>
  The connector (\<open>connector/connector.hpp\<close>, \<open>connector/impl/connector.ipp\<close>): it resolves a host in a
  background thread and connects new sessions to one of the endpoints found.

  The members are the record \<open>connector\<close>. Each member function is one definition; those that read
  or write a member under its own mutex are atomic steps. \<open>new_session\<close> comes twice: as a function
  of what its thread meets while nothing else moves, and as the program counters of a machine in
  which any number of callers and the resolving thread interleave. The machine's steps are the
  member functions.
\<close>

section \<open>Members and member functions\<close>

record 'ep connector =
  host :: string
  port :: string
  c_resolve_timeout :: tick
  c_connect_timeout :: tick
  c_operation_timeout :: tick
  endpoints :: "'ep list"
  resolving_thread_running :: bool
  resolve_error :: error_code
  resolve_needed :: bool
  resolve_done :: bool

definition connector_ctor :: "string \<Rightarrow> string \<Rightarrow> tick \<Rightarrow> tick \<Rightarrow> tick \<Rightarrow> 'ep connector" where
  "connector_ctor host_arg port_arg resolve_timeout_arg connect_timeout operation_timeout =
     \<lparr>host = host_arg, port = port_arg, c_resolve_timeout = resolve_timeout_arg,
      c_connect_timeout = connect_timeout, c_operation_timeout = operation_timeout,
      endpoints = [], resolving_thread_running = True, resolve_error = Success,
      resolve_needed = True, resolve_done = False\<rparr>"

definition connector_stop :: "'ep connector \<Rightarrow> 'ep connector" where
  "connector_stop c = c\<lparr>resolving_thread_running := False\<rparr>"

definition get_host :: "'ep connector \<Rightarrow> string" where
  "get_host c = host c"

definition get_port :: "'ep connector \<Rightarrow> string" where
  "get_port c = port c"

definition get_target :: "'ep connector \<Rightarrow> string" where
  "get_target c = get_host c @ '':'' @ get_port c"

definition get_resolve_timeout :: "'ep connector \<Rightarrow> tick" where
  "get_resolve_timeout c = c_resolve_timeout c"

definition get_connect_timeout :: "'ep connector \<Rightarrow> tick" where
  "get_connect_timeout c = c_connect_timeout c"

definition get_operation_timeout :: "'ep connector \<Rightarrow> tick" where
  "get_operation_timeout c = c_operation_timeout c"

definition update_endpoints :: "'ep list \<Rightarrow> 'ep connector \<Rightarrow> 'ep connector" where
  "update_endpoints resolved_endpoints c = c\<lparr>endpoints := resolved_endpoints\<rparr>"

definition get_endpoints :: "'ep connector \<Rightarrow> 'ep list" where
  "get_endpoints c = endpoints c"

definition set_resolve_error :: "error_code \<Rightarrow> 'ep connector \<Rightarrow> 'ep connector" where
  "set_resolve_error err c = c\<lparr>resolve_error := err\<rparr>"

definition get_resolve_error :: "'ep connector \<Rightarrow> error_code" where
  "get_resolve_error c = resolve_error c"

definition notify_resolve_needed :: "'ep connector \<Rightarrow> 'ep connector" where
  "notify_resolve_needed c = c\<lparr>resolve_needed := True\<rparr>"

definition notify_resolve_done :: "'ep connector \<Rightarrow> 'ep connector" where
  "notify_resolve_done c = c\<lparr>resolve_done := True\<rparr>"

text \<open>The code reported when \<open>resolve_done_\<close> could not be locked or awaited in time.\<close>

definition resolve_failure_code :: "'ep connector \<Rightarrow> error_code" where
  "resolve_failure_code c =
     (let resolve_ec = get_resolve_error c in if is_error resolve_ec then resolve_ec else Timed_out)"

section \<open>Connecting to an endpoint\<close>

text \<open>
  \<open>connect_until\<close> of the TCP and UDP connectors: the time left until the deadline becomes the
  connect timeout of a new client. \<open>t\<close> is the clock reading of the subtraction.
\<close>

definition connect_until ::
  "asio \<Rightarrow> sock_env \<Rightarrow> tick \<Rightarrow> tick \<Rightarrow> tick \<Rightarrow> tick \<Rightarrow> unit io_event list \<Rightarrow> tick \<Rightarrow> 'ep connector
     \<Rightarrow> (exn + base_socket) option" where
  "connect_until A E t t0 t1 t2 es until_time c =
     base_socket_ctor A E t0 t1 t2 es (tick_sub until_time t) (c_operation_timeout c)"

text \<open>
  The loop of \<open>new_session\<close> over the shuffled endpoints: it returns the first session, and a
  \<open>system_error\<close> breaks out of it with its code. Other exceptions are not caught.
\<close>

fun try_endpoints :: "('ep \<Rightarrow> exn + 's) \<Rightarrow> 'ep list \<Rightarrow> error_code \<Rightarrow> exn + ('s option \<times> error_code)" where
  "try_endpoints connect [] ec = Inr (None, ec)"
| "try_endpoints connect (peer # peers) ec =
     (case connect peer of
        Inr session \<Rightarrow> Inr (Some session, ec)
      | Inl (System_error err what) \<Rightarrow> Inr (None, err)
      | Inl x \<Rightarrow> Inl x)"

text \<open>
  What a call meets: whether \<open>resolve_done_mutex_\<close> was locked in time, whether the wait for
  \<open>resolve_done_\<close> succeeded, the order the shuffle gave, and what connecting to a peer gives.
\<close>

record ('ep, 's) session_env =
  done_locked :: bool
  done_waited :: bool
  shuffled :: "'ep list \<Rightarrow> 'ep list"
  connect_peer :: "'ep \<Rightarrow> exn + 's"

definition new_session ::
  "('ep, 's) session_env \<Rightarrow> error_code \<Rightarrow> 'ep connector
     \<Rightarrow> (exn + 's option \<times> error_code) \<times> 'ep connector" where
  "new_session V ec c =
     (if \<not> done_locked V then (Inr (None, resolve_failure_code c), c)
      else if resolve_done c = False \<and> \<not> done_waited V then (Inr (None, resolve_failure_code c), c)
      else (case try_endpoints (connect_peer V) (shuffled V (get_endpoints c)) ec of
              Inl x \<Rightarrow> (Inl x, c)
            | Inr (Some session, ec') \<Rightarrow> (Inr (Some session, ec'), c)
            | Inr (None, ec') \<Rightarrow>
                let ec'' = (if \<not> is_error ec' then get_resolve_error c else ec') in
                (Inr (None, ec''), notify_resolve_needed c)))"

text \<open>
  The overloads with a duration and with the default one turn it into a deadline; the environment
  of the call depends on that deadline.
\<close>

definition new_session_timeout ::
  "(tick \<Rightarrow> ('ep, 's) session_env) \<Rightarrow> tick \<Rightarrow> tick \<Rightarrow> error_code \<Rightarrow> 'ep connector
     \<Rightarrow> (exn + 's option \<times> error_code) \<times> 'ep connector" where
  "new_session_timeout V now timeout ec c = new_session (V (tick_add now timeout)) ec c"

definition new_session_default ::
  "(tick \<Rightarrow> ('ep, 's) session_env) \<Rightarrow> tick \<Rightarrow> error_code \<Rightarrow> 'ep connector
     \<Rightarrow> (exn + 's option \<times> error_code) \<times> 'ep connector" where
  "new_session_default V now ec c = new_session_timeout V now (get_connect_timeout c) ec c"

text \<open>The overload without \<open>error_code\<close> starts from a clear code and never returns null.\<close>

definition new_session_throw ::
  "(tick \<Rightarrow> ('ep, 's) session_env) \<Rightarrow> tick \<Rightarrow> 'ep connector \<Rightarrow> (exn + 's) \<times> 'ep connector" where
  "new_session_throw V now c =
     (case new_session_default V now Success c of
        (Inl x, c') \<Rightarrow> (Inl x, c')
      | (Inr (session, ec), c') \<Rightarrow>
          (if is_error ec then
             Inl (System_error ec (''Failed to establish new session to '' @ get_target c'))
           else case session of
               None \<Rightarrow> Inl (System_error Operation_aborted
                 (''Failed to establish new session to '' @ get_target c'))
             | Some s \<Rightarrow> Inr s, c'))"

section \<open>The interleaving machine\<close>

text \<open>Where the resolving thread is in \<open>resolve_routine\<close>.\<close>

datatype 'ep resolver_pc =
    R_loop
  | R_wait
  | R_resolving
  | R_resolved error_code "'ep list"
  | R_unlock_failed
  | R_publish "'ep list"
  | R_unlock
  | R_notify
  | R_exit
  | R_terminated

text \<open>Where a caller is in \<open>new_session\<close>, with the value of its \<open>ec\<close>.\<close>

datatype ('ep, 's) caller_pc =
    N_idle
  | N_wait error_code
  | N_failed error_code
  | N_endpoints error_code
  | N_connecting 'ep error_code
  | N_failing error_code
  | N_notify error_code
  | N_return "'s option" error_code
  | N_throw exn

record ('ep, 's) conn_state =
  conn :: "'ep connector"
  needed_locked :: bool
  resolver_pc :: "'ep resolver_pc"
  callers :: "nat \<Rightarrow> ('ep, 's) caller_pc"

datatype ('ep, 's) conn_label =
    Resolve_start
  | Resolve_end error_code "'ep list"
  | Published "'ep list"
  | Requested nat
  | Connected nat 'ep 's
  | Internal

definition conn_init :: "string \<Rightarrow> string \<Rightarrow> tick \<Rightarrow> tick \<Rightarrow> tick \<Rightarrow> ('ep, 's) conn_state" where
  "conn_init h p rt ct ot =
     \<lparr>conn = connector_ctor h p rt ct ot, needed_locked = False, resolver_pc = R_loop, callers = (\<lambda>_. N_idle)\<rparr>"

text \<open>
  \<open>resolves ec eps\<close>: the resolver may answer so; \<open>connects ep r\<close>: connecting to \<open>ep\<close> may give \<open>r\<close>, a
  session or an exception. \<open>resolver_.resolve\<close> throws exactly when its timeout is below the timer's
  resolution, and the exception leaves the thread, which ends the program: no step follows
  \<open>R_terminated\<close>. A wait on a condition variable with its predicate is the step in which the thread,
  holding the lock again, leaves it: with the predicate true, or by the timeout.
\<close>

inductive conn_step ::
  "(error_code \<Rightarrow> 'ep list \<Rightarrow> bool) \<Rightarrow> ('ep \<Rightarrow> exn + 's \<Rightarrow> bool)
     \<Rightarrow> ('ep, 's) conn_label \<Rightarrow> ('ep, 's) conn_state \<Rightarrow> ('ep, 's) conn_state \<Rightarrow> bool"
  for resolves :: "error_code \<Rightarrow> 'ep list \<Rightarrow> bool" and connects :: "'ep \<Rightarrow> exn + 's \<Rightarrow> bool"
  where
  r_check: "resolver_pc s = R_loop \<Longrightarrow> resolving_thread_running (conn s) \<Longrightarrow>
     conn_step resolves connects Internal s (s\<lparr>resolver_pc := R_wait\<rparr>)"
| r_exit: "resolver_pc s = R_loop \<Longrightarrow> \<not> resolving_thread_running (conn s) \<Longrightarrow>
     conn_step resolves connects Internal s (s\<lparr>resolver_pc := R_exit\<rparr>)"
| r_skip: "resolver_pc s = R_wait \<Longrightarrow>
     conn_step resolves connects Internal s (s\<lparr>resolver_pc := R_loop\<rparr>)"
| r_begin: "resolver_pc s = R_wait \<Longrightarrow> \<not> needed_locked s \<Longrightarrow> resolve_needed (conn s) \<Longrightarrow>
     conn_step resolves connects Resolve_start s (s\<lparr>resolver_pc := R_resolving, needed_locked := True\<rparr>)"
| r_resolve: "resolver_pc s = R_resolving \<Longrightarrow> kDurationResolution \<le> c_resolve_timeout (conn s) \<Longrightarrow> resolves ec eps \<Longrightarrow>
     conn_step resolves connects (Resolve_end ec eps) s (s\<lparr>resolver_pc := R_resolved ec eps\<rparr>)"
| r_throw: "resolver_pc s = R_resolving \<Longrightarrow> c_resolve_timeout (conn s) < kDurationResolution \<Longrightarrow>
     conn_step resolves connects Internal s (s\<lparr>resolver_pc := R_terminated\<rparr>)"
| r_error: "resolver_pc s = R_resolved ec eps \<Longrightarrow>
     conn_step resolves connects Internal s
       (s\<lparr>conn := set_resolve_error ec (conn s),
          resolver_pc := (if is_error ec then R_unlock_failed else R_publish eps)\<rparr>)"
| r_unlock_failed: "resolver_pc s = R_unlock_failed \<Longrightarrow>
     conn_step resolves connects Internal s (s\<lparr>resolver_pc := R_loop, needed_locked := False\<rparr>)"
| r_publish: "resolver_pc s = R_publish eps \<Longrightarrow>
     conn_step resolves connects (Published eps) s
       (s\<lparr>conn := update_endpoints eps ((conn s)\<lparr>resolve_needed := False\<rparr>), resolver_pc := R_unlock\<rparr>)"
| r_unlock: "resolver_pc s = R_unlock \<Longrightarrow>
     conn_step resolves connects Internal s (s\<lparr>resolver_pc := R_notify, needed_locked := False\<rparr>)"
| r_notify: "resolver_pc s = R_notify \<Longrightarrow>
     conn_step resolves connects Internal s
       (s\<lparr>conn := notify_resolve_done (conn s), resolver_pc := R_loop\<rparr>)"
| n_call: "callers s i = N_idle \<Longrightarrow>
     conn_step resolves connects Internal s (s\<lparr>callers := (callers s)(i := N_wait ec)\<rparr>)"
| n_timeout: "callers s i = N_wait ec \<Longrightarrow>
     conn_step resolves connects Internal s (s\<lparr>callers := (callers s)(i := N_failed ec)\<rparr>)"
| n_fail: "callers s i = N_failed ec \<Longrightarrow>
     conn_step resolves connects Internal s
       (s\<lparr>callers := (callers s)(i := N_return None (resolve_failure_code (conn s)))\<rparr>)"
| n_ready: "callers s i = N_wait ec \<Longrightarrow> resolve_done (conn s) \<Longrightarrow>
     conn_step resolves connects Internal s (s\<lparr>callers := (callers s)(i := N_endpoints ec)\<rparr>)"
| n_pick: "callers s i = N_endpoints ec \<Longrightarrow> ep \<in> set (get_endpoints (conn s)) \<Longrightarrow>
     conn_step resolves connects Internal s (s\<lparr>callers := (callers s)(i := N_connecting ep ec)\<rparr>)"
| n_none: "callers s i = N_endpoints ec \<Longrightarrow> get_endpoints (conn s) = [] \<Longrightarrow>
     conn_step resolves connects Internal s (s\<lparr>callers := (callers s)(i := N_failing ec)\<rparr>)"
| n_connected: "callers s i = N_connecting ep ec \<Longrightarrow> connects ep (Inr session) \<Longrightarrow>
     conn_step resolves connects (Connected i ep session) s (s\<lparr>callers := (callers s)(i := N_return (Some session) ec)\<rparr>)"
| n_refused: "callers s i = N_connecting ep ec \<Longrightarrow> connects ep (Inl (System_error err what)) \<Longrightarrow>
     conn_step resolves connects Internal s (s\<lparr>callers := (callers s)(i := N_failing err)\<rparr>)"
| n_escape: "callers s i = N_connecting ep ec \<Longrightarrow> connects ep (Inl x) \<Longrightarrow> (\<nexists>err what. x = System_error err what) \<Longrightarrow>
     conn_step resolves connects Internal s (s\<lparr>callers := (callers s)(i := N_throw x)\<rparr>)"
| n_failing: "callers s i = N_failing ec \<Longrightarrow>
     conn_step resolves connects Internal s
       (s\<lparr>callers := (callers s)(i := N_notify (if \<not> is_error ec then get_resolve_error (conn s) else ec))\<rparr>)"
| n_notify: "callers s i = N_notify ec \<Longrightarrow> \<not> needed_locked s \<Longrightarrow>
     conn_step resolves connects (Requested i) s
       (s\<lparr>conn := notify_resolve_needed (conn s), callers := (callers s)(i := N_return None ec)\<rparr>)"
| n_done: "callers s i = N_return r ec \<Longrightarrow>
     conn_step resolves connects Internal s (s\<lparr>callers := (callers s)(i := N_idle)\<rparr>)"
| stop: "conn_step resolves connects Internal s (s\<lparr>conn := connector_stop (conn s)\<rparr>)"

inductive conn_run ::
  "(error_code \<Rightarrow> 'ep list \<Rightarrow> bool) \<Rightarrow> ('ep \<Rightarrow> exn + 's \<Rightarrow> bool)
     \<Rightarrow> ('ep, 's) conn_label list \<Rightarrow> ('ep, 's) conn_state \<Rightarrow> ('ep, 's) conn_state \<Rightarrow> bool"
  for resolves :: "error_code \<Rightarrow> 'ep list \<Rightarrow> bool" and connects :: "'ep \<Rightarrow> exn + 's \<Rightarrow> bool"
  where
  run_nil: "conn_run resolves connects [] s s"
| run_snoc: "conn_run resolves connects ls s t \<Longrightarrow> resolver_pc t \<noteq> R_terminated \<Longrightarrow> conn_step resolves connects l t u \<Longrightarrow>
     conn_run resolves connects (ls @ [l]) s u"

section \<open>Invariants of the machine\<close>

fun published :: "('ep, 's) conn_label list \<Rightarrow> 'ep list list" where
  "published [] = []"
| "published (Published eps # ls) = eps # published ls"
| "published (l # ls) = published ls"

lemma published_append [simp]: "published (ls @ ls') = published ls @ published ls'"
  by (induction ls rule: published.induct) simp_all

definition last_published :: "('ep, 's) conn_label list \<Rightarrow> 'ep list" where
  "last_published ls = (if published ls = [] then [] else last (published ls))"

fun in_resolve :: "'ep resolver_pc \<Rightarrow> bool" where
  "in_resolve R_loop = False"
| "in_resolve R_wait = False"
| "in_resolve R_notify = False"
| "in_resolve R_exit = False"
| "in_resolve _ = True"

text \<open>
  The lock of \<open>resolve_needed_\<close> is held exactly while the thread resolves and publishes; the endpoints
  are those of the last publication; a caller connects to a published endpoint only.
\<close>

definition conn_inv :: "('ep, 's) conn_label list \<Rightarrow> ('ep, 's) conn_state \<Rightarrow> bool" where
  "conn_inv ls s \<longleftrightarrow>
     needed_locked s = in_resolve (resolver_pc s) \<and>
     endpoints (conn s) = last_published ls \<and>
     (resolve_done (conn s) \<or> resolver_pc s \<in> {R_unlock, R_notify} \<longrightarrow> published ls \<noteq> []) \<and>
     (\<forall>i ec. callers s i = N_endpoints ec \<longrightarrow> published ls \<noteq> []) \<and>
     (\<forall>i ep ec. callers s i = N_connecting ep ec \<longrightarrow> ep \<in> \<Union> (set ` set (published ls)))"

lemmas connector_defs =
  connector_ctor_def connector_stop_def update_endpoints_def get_endpoints_def set_resolve_error_def
  get_resolve_error_def notify_resolve_needed_def notify_resolve_done_def

inductive_cases conn_stepE: "conn_step resolves connects l s t"
inductive_cases conn_run_nilE: "conn_run resolves connects [] s t"
inductive_cases conn_run_snocE: "conn_run resolves connects (ls @ [l]) s t"

interpretation conn_runs:
  labelled_system "conn_step resolves connects" "\<lambda>s. resolver_pc s \<noteq> R_terminated" "conn_run resolves connects"
  for resolves :: "error_code \<Rightarrow> 'ep list \<Rightarrow> bool" and connects :: "'ep \<Rightarrow> exn + 's \<Rightarrow> bool"
  by unfold_locales (auto elim: conn_run_nilE conn_run_snocE intro: run_nil run_snoc)

lemma conn_inv_init: "conn_inv [] (conn_init h p rt ct ot)"
  by (simp add: conn_inv_def conn_init_def connector_defs last_published_def)

lemma conn_inv_step:
  assumes "conn_step resolves connects l s t" and "conn_inv ls s"
  shows "conn_inv (ls @ [l]) t"
  using assms
  by cases (auto simp: conn_inv_def connector_defs last_published_def split: if_splits)

lemma conn_inv_run:
  assumes "conn_run resolves connects ls (conn_init h p rt ct ot) s"
  shows "conn_inv ls s"
  using assms by (rule conn_runs.run_invariant) (auto intro: conn_inv_init conn_inv_step)

text \<open>The configuration of a connector never changes.\<close>

lemma conn_step_config:
  "conn_step resolves connects l s t \<Longrightarrow>
     host (conn t) = host (conn s) \<and> port (conn t) = port (conn s) \<and>
     c_resolve_timeout (conn t) = c_resolve_timeout (conn s) \<and>
     c_connect_timeout (conn t) = c_connect_timeout (conn s) \<and>
     c_operation_timeout (conn t) = c_operation_timeout (conn s)"
  by (erule conn_step.cases) (simp_all add: connector_defs)

lemma conn_run_config:
  assumes "conn_run resolves connects ls s t"
  shows "c_resolve_timeout (conn t) = c_resolve_timeout (conn s)"
  using assms by (rule conn_runs.run_preserves) (auto dest: conn_step_config)

text \<open>
  A request made while the lock is free is answered only by a resolve that starts after it. \<open>served\<close>
  follows the thread from the request on: what it has done of such a resolve.
\<close>

definition resolved_anew :: "('ep, 's) conn_label list \<Rightarrow> 'ep list \<Rightarrow> bool" where
  "resolved_anew ls eps \<longleftrightarrow> (\<exists>ec. \<not> is_error ec \<and> subseq [Resolve_start, Resolve_end ec eps] ls)"

definition refreshed :: "('ep, 's) conn_label list \<Rightarrow> bool" where
  "refreshed ls \<longleftrightarrow>
     (\<exists>ec eps. \<not> is_error ec \<and> subseq [Resolve_start, Resolve_end ec eps, Published eps] ls)"

definition served :: "('ep, 's) conn_label list \<Rightarrow> ('ep, 's) conn_state \<Rightarrow> bool" where
  "served ls s \<longleftrightarrow>
     (resolver_pc s = R_resolving \<longrightarrow> Resolve_start \<in> set ls) \<and>
     (\<forall>ec eps. resolver_pc s = R_resolved ec eps \<longrightarrow> subseq [Resolve_start, Resolve_end ec eps] ls) \<and>
     (\<forall>eps. resolver_pc s = R_publish eps \<longrightarrow> resolved_anew ls eps) \<and>
     (resolve_needed (conn s) \<or> refreshed ls)"

lemma subseq_snoc: "subseq xs ys \<Longrightarrow> subseq (xs @ [l]) (ys @ [l])"
  by (simp add: list_emb_append_mono)

lemma served_progress:
  "Resolve_start \<in> set ls \<Longrightarrow> subseq [Resolve_start, Resolve_end ec eps] (ls @ [Resolve_end ec eps])"
  "resolved_anew ls eps \<Longrightarrow> refreshed (ls @ [Published eps])"
  using subseq_snoc [of "[Resolve_start]" ls "Resolve_end ec eps"]
    subseq_snoc [of "[Resolve_start, Resolve_end e eps]" ls "Published eps" for e]
  by (auto simp: resolved_anew_def refreshed_def subseq_singleton_left)

lemma served_keep:
  assumes "served ls s"
  shows "served (ls @ ls') s"
proof -
  have "subseq xs (ls @ ls')" if "subseq xs ls" for xs
    using that by (rule list_emb_prefix)
  then have "resolved_anew ls eps \<Longrightarrow> resolved_anew (ls @ ls') eps" "refreshed ls \<Longrightarrow> refreshed (ls @ ls')" for eps
    by (auto simp: resolved_anew_def refreshed_def)
  with assms show ?thesis
    using list_emb_prefix [of "(=)" _ ls ls'] by (auto simp: served_def)
qed

lemma served_step:
  assumes step: "conn_step resolves connects l s t" and served: "served ls s"
  shows "served (ls @ [l]) t"
  using step
proof cases
  case (r_error ec eps)
  with served_keep [OF served, of "[l]"] show ?thesis
    by (auto simp: served_def resolved_anew_def connector_defs)
qed (use served_keep [OF served, of "[l]"] served in
      \<open>simp_all add: served_def connector_defs served_progress\<close>)

lemma served_run:
  assumes "conn_run resolves connects ls s t" and "served [] s"
  shows "served ls t"
  using assms(1) by (rule conn_runs.run_invariant) (auto intro: assms(2) served_step)

section \<open>Runs of one thread\<close>

text \<open>One round of the resolving thread that finds the request and gets endpoints.\<close>

definition after_round :: "'ep list \<Rightarrow> error_code \<Rightarrow> ('ep, 's) conn_state \<Rightarrow> ('ep, 's) conn_state" where
  "after_round eps ec s =
     s\<lparr>conn := notify_resolve_done (update_endpoints eps ((set_resolve_error ec (conn s))\<lparr>resolve_needed := False\<rparr>)),
       resolver_pc := R_loop, needed_locked := False\<rparr>"

lemma resolve_round:
  assumes "resolver_pc s = R_loop" and "\<not> needed_locked s" and "resolving_thread_running (conn s)"
    and "resolve_needed (conn s)" and "kDurationResolution \<le> c_resolve_timeout (conn s)"
    and "resolves ec eps" and "\<not> is_error ec"
  shows "conn_run resolves connects
    [Internal, Resolve_start, Resolve_end ec eps, Internal, Published eps, Internal, Internal] s (after_round eps ec s)"
proof -
  let ?c = "set_resolve_error ec (conn s)"
  let ?d = "update_endpoints eps (?c\<lparr>resolve_needed := False\<rparr>)"
  have "conn_run resolves connects [Internal] (s\<lparr>conn := ?d, resolver_pc := R_notify, needed_locked := False\<rparr>) (after_round eps ec s)"
    by (rule conn_runs.run_step [OF r_notify]) (simp_all add: after_round_def conn_runs.run_empty)
  then have "conn_run resolves connects [Internal, Internal]
      (s\<lparr>conn := ?d, resolver_pc := R_unlock, needed_locked := True\<rparr>) (after_round eps ec s)"
    using assms(2) by - (rule conn_runs.run_step [OF r_unlock]; cases s; simp)
  then have "conn_run resolves connects [Published eps, Internal, Internal]
      (s\<lparr>conn := ?c, resolver_pc := R_publish eps, needed_locked := True\<rparr>) (after_round eps ec s)"
    by - (rule conn_runs.run_step [OF r_publish [where eps = eps]]; cases s; simp)
  then have "conn_run resolves connects [Internal, Published eps, Internal, Internal]
      (s\<lparr>resolver_pc := R_resolved ec eps, needed_locked := True\<rparr>) (after_round eps ec s)"
    using assms(7) by - (rule conn_runs.run_step [OF r_error [where ec = ec and eps = eps]]; cases s; simp)
  then have "conn_run resolves connects [Resolve_end ec eps, Internal, Published eps, Internal, Internal]
      (s\<lparr>resolver_pc := R_resolving, needed_locked := True\<rparr>) (after_round eps ec s)"
    using assms(5,6) by - (rule conn_runs.run_step [OF r_resolve]; cases s; simp)
  then have "conn_run resolves connects [Resolve_start, Resolve_end ec eps, Internal, Published eps, Internal, Internal]
      (s\<lparr>resolver_pc := R_wait\<rparr>) (after_round eps ec s)"
    using assms(2,4) by - (rule conn_runs.run_step [OF r_begin]; cases s; simp)
  then show ?thesis
    using assms(1,3) by - (rule conn_runs.run_step [OF r_check]; cases s; simp)
qed

text \<open>
  \<open>new_session\<close>, the function, against the machine: \<open>result_pc\<close> is where the caller ends. The
  environment must be one the machine can show: the shuffle permutes, the connects are among
  those possible, and with no other thread moving a wait succeeds only when there is nothing to
  wait for.
\<close>

fun result_pc :: "(exn + 's option \<times> error_code) \<Rightarrow> ('ep, 's) caller_pc" where
  "result_pc (Inl x) = N_throw x"
| "result_pc (Inr (r, ec)) = N_return r ec"

definition env_possible :: "('ep \<Rightarrow> exn + 's \<Rightarrow> bool) \<Rightarrow> ('ep, 's) session_env \<Rightarrow> 'ep connector \<Rightarrow> bool" where
  "env_possible connects V c \<longleftrightarrow>
     mset (shuffled V (endpoints c)) = mset (endpoints c) \<and>
     (\<forall>ep. connects ep (connect_peer V ep)) \<and> (done_waited V \<longrightarrow> resolve_done c)"

abbreviation goto :: "nat \<Rightarrow> ('ep, 's) caller_pc \<Rightarrow> ('ep, 's) conn_state \<Rightarrow> ('ep, 's) conn_state" where
  "goto i p s \<equiv> s\<lparr>callers := (callers s)(i := p)\<rparr>"

lemma caller_step:
  assumes "conn_step resolves connects l (goto i p s) (goto i q s')" and "resolver_pc s \<noteq> R_terminated"
    and "\<exists>ls. conn_run resolves connects ls (goto i q s') u"
  shows "\<exists>ls. conn_run resolves connects ls (goto i p s) u"
  using assms conn_runs.run_step [OF assms(1)] by auto

lemma failing_run:
  assumes "resolver_pc s \<noteq> R_terminated" and "\<not> needed_locked s"
  shows "\<exists>ls. conn_run resolves connects ls (goto i (N_failing ec) s)
    (s\<lparr>conn := notify_resolve_needed (conn s),
       callers := (callers s)(i := N_return None (if \<not> is_error ec then get_resolve_error (conn s) else ec))\<rparr>)"
    (is "\<exists>ls. conn_run _ _ ls _ ?u")
proof (rule caller_step [OF _ assms(1)])
  let ?ec = "if \<not> is_error ec then get_resolve_error (conn s) else ec"
  show "conn_step resolves connects Internal (goto i (N_failing ec) s) (goto i (N_notify ?ec) s)"
    using n_failing [of "goto i (N_failing ec) s" i ec resolves connects]
    by (cases "is_error ec") simp_all
  have "conn_step resolves connects (Requested i) (goto i (N_notify ?ec) s) ?u"
    using n_notify [of "goto i (N_notify ?ec) s" i ?ec resolves connects] assms(2) by simp
  then show "\<exists>ls. conn_run resolves connects ls (goto i (N_notify ?ec) s) ?u"
    using conn_runs.run_step [OF _ _ run_nil] assms(1) by fastforce
qed

text \<open>The part of the call after the wait: pick an endpoint, connect once.\<close>

lemma endpoints_run:
  assumes "resolver_pc s \<noteq> R_terminated" and "\<not> needed_locked s"
    and "mset eps = mset (endpoints (conn s))" and "\<forall>ep. connects ep (peer ep)"
  shows "\<exists>ls. conn_run resolves connects ls (goto i (N_endpoints ec) s)
    (case try_endpoints peer eps ec of
       Inl x \<Rightarrow> goto i (N_throw x) s
     | Inr (Some session, ec') \<Rightarrow> goto i (N_return (Some session) ec') s
     | Inr (None, ec') \<Rightarrow> s\<lparr>conn := notify_resolve_needed (conn s),
         callers := (callers s)(i := N_return None (if \<not> is_error ec' then get_resolve_error (conn s) else ec'))\<rparr>)"
    (is "\<exists>ls. conn_run _ _ ls _ ?u")
proof (cases eps)
  case Nil
  then have "conn_step resolves connects Internal (goto i (N_endpoints ec) s) (goto i (N_failing ec) s)"
    using n_none [of "goto i (N_endpoints ec) s" i ec resolves connects] assms(3)
    by (simp add: get_endpoints_def)
  from caller_step [OF this assms(1) failing_run [OF assms(1,2)]] Nil show ?thesis by simp
next
  case (Cons ep eps')
  then have "ep \<in> set (endpoints (conn s))"
    using assms(3) by (metis list.set_intros(1) mset_eq_setD)
  then have pick: "conn_step resolves connects Internal (goto i (N_endpoints ec) s) (goto i (N_connecting ep ec) s)"
    using n_pick [of "goto i (N_endpoints ec) s" i ec ep resolves connects] by (simp add: get_endpoints_def)
  let ?s = "goto i (N_connecting ep ec) s"
  have "\<exists>ls. conn_run resolves connects ls ?s ?u"
  proof (cases "peer ep")
    case (Inr session)
    then have "conn_step resolves connects (Connected i ep session) ?s (goto i (N_return (Some session) ec) s)"
      using n_connected [of ?s i ep ec connects session resolves] assms(4) [rule_format, of ep] by simp
    from caller_step [OF this assms(1)] Cons Inr show ?thesis by (auto intro: run_nil)
  next
    case (Inl x)
    note conn = assms(4) [rule_format, of ep, unfolded Inl]
    show ?thesis
    proof (cases "\<exists>err what. x = System_error err what")
      case True
      then obtain err what where x: "x = System_error err what" by blast
      then have "conn_step resolves connects Internal ?s (goto i (N_failing err) s)"
        using n_refused [of ?s i ep ec connects err what resolves] conn by simp
      from caller_step [OF this assms(1) failing_run [OF assms(1,2)]] Cons Inl x show ?thesis by simp
    next
      case False
      then have "conn_step resolves connects Internal ?s (goto i (N_throw x) s)"
        using n_escape [of ?s i ep ec connects x resolves] conn by simp
      from caller_step [OF this assms(1)] Cons Inl False show ?thesis
        by (cases x) (auto intro: run_nil)
    qed
  qed
  from caller_step [OF pick assms(1) this] show ?thesis .
qed

lemma new_session_run:
  assumes "callers s i = N_idle" and "resolver_pc s \<noteq> R_terminated" and "\<not> needed_locked s"
    and possible: "env_possible connects V (conn s)"
  shows "\<exists>ls. conn_run resolves connects ls s
    (goto i (result_pc (fst (new_session V ec (conn s)))) (s\<lparr>conn := snd (new_session V ec (conn s))\<rparr>))"
    (is "\<exists>ls. conn_run _ _ ls _ ?u")
proof -
  have s: "goto i N_idle s = s" using assms(1) by (cases s) auto
  have call: "conn_step resolves connects Internal (goto i N_idle s) (goto i (N_wait ec) s)"
    using n_call [of s i resolves connects ec] assms(1) by (simp add: s)
  have "\<exists>ls. conn_run resolves connects ls (goto i (N_wait ec) s) ?u"
  proof (cases "done_locked V \<and> resolve_done (conn s)")
    case True
    then have ready: "conn_step resolves connects Internal (goto i (N_wait ec) s) (goto i (N_endpoints ec) s)"
      using n_ready [of "goto i (N_wait ec) s" i ec resolves connects] by simp
    have "mset (shuffled V (endpoints (conn s))) = mset (endpoints (conn s))" "\<forall>ep. connects ep (connect_peer V ep)"
      using possible by (simp_all add: env_possible_def)
    note run = endpoints_run [where s = s and eps = "shuffled V (endpoints (conn s))" and peer = "connect_peer V"
        and connects = connects, OF assms(2,3) this]
    from caller_step [OF ready assms(2) run]
    show ?thesis
      using True by (auto simp: new_session_def get_endpoints_def Let_def split: sum.splits option.splits)
  next
    case False
    then have "new_session V ec (conn s) = (Inr (None, resolve_failure_code (conn s)), conn s)"
      using possible by (auto simp: new_session_def env_possible_def)
    moreover have fail: "conn_step resolves connects Internal (goto i (N_failed ec) s)
        (goto i (N_return None (resolve_failure_code (conn s))) s)"
      using n_fail [of "goto i (N_failed ec) s" i ec resolves connects] by simp
    moreover have wait: "conn_step resolves connects Internal (goto i (N_wait ec) s) (goto i (N_failed ec) s)"
      using n_timeout [of "goto i (N_wait ec) s" i ec resolves connects] by simp
    ultimately show ?thesis
      using caller_step [OF wait assms(2) caller_step [OF fail assms(2) exI, OF run_nil]] by simp
  qed
  from caller_step [OF call assms(2) this] show ?thesis by (simp only: s)
qed

section \<open>Errors are reported\<close>

text \<open>
  What the connector relies on: a resolve without an error delivers endpoints, and a refused
  connect throws a code that is an error. The second holds of the socket constructor
  (\<open>connect_until_error\<close>).
\<close>

definition answers_ok :: "(error_code \<Rightarrow> 'ep list \<Rightarrow> bool) \<Rightarrow> bool" where
  "answers_ok resolves \<longleftrightarrow> (\<forall>ec. \<not> is_error ec \<longrightarrow> \<not> resolves ec [])"

definition refusals_ok :: "('ep \<Rightarrow> exn + 's \<Rightarrow> bool) \<Rightarrow> bool" where
  "refusals_ok connects \<longleftrightarrow>
     (\<forall>ep err what. connects ep (Inl (System_error err what)) \<longrightarrow> is_error err)"

definition error_inv :: "('ep, 's) conn_label list \<Rightarrow> ('ep, 's) conn_state \<Rightarrow> bool" where
  "error_inv ls s \<longleftrightarrow>
     (\<forall>ec. resolver_pc s = R_resolved ec [] \<longrightarrow> is_error ec) \<and> resolver_pc s \<noteq> R_publish [] \<and>
     [] \<notin> set (published ls) \<and>
     (\<forall>i ec. callers s i \<in> {N_failing ec, N_notify ec, N_return None ec} \<longrightarrow> is_error ec)"

lemma resolve_failure_code_error [simp]: "is_error (resolve_failure_code c)"
  by (simp add: resolve_failure_code_def Let_def)

lemma conn_inv_endpoints:
  assumes "conn_inv ls s" and "callers s i = N_endpoints ec" and "[] \<notin> set (published ls)"
  shows "endpoints (conn s) \<noteq> []"
proof -
  have "published ls \<noteq> []" "endpoints (conn s) = last (published ls)"
    using assms(1,2) by (auto simp: conn_inv_def last_published_def)
  with assms(3) show ?thesis by (metis last_in_set)
qed

lemma error_inv_step:
  assumes "conn_step resolves connects l s t" and "error_inv ls s" and "conn_inv ls s"
    and ok: "answers_ok resolves" "refusals_ok connects"
  shows "error_inv (ls @ [l]) t"
  using assms(1)
proof cases
  case (n_none i ec)
  then show ?thesis
    using conn_inv_endpoints [OF assms(3) n_none(3)] assms(2) by (simp add: error_inv_def get_endpoints_def)
qed (use assms(2) ok in \<open>auto simp: error_inv_def answers_ok_def refusals_ok_def connector_defs split: if_splits\<close>)

lemma error_inv_run:
  assumes "conn_run resolves connects ls (conn_init h p rt ct ot) s"
    and "answers_ok resolves" and "refusals_ok connects"
  shows "error_inv ls s"
proof (rule conn_runs.run_invariant [OF assms(1)])
  show "error_inv [] (conn_init h p rt ct ot)" by (simp add: error_inv_def conn_init_def)
qed (use assms(2,3) in \<open>blast intro: error_inv_step conn_inv_run\<close>)

lemma base_socket_ctor_error:
  assumes "base_socket_ctor A E t0 t1 t2 es connect_timeout operation_timeout = Some (Inl x)"
  shows "\<exists>ec what. x = System_error ec what \<and> is_error ec"
proof -
  have "\<exists>ec what. y = System_error ec what \<and> is_error ec" if "set_options E opts = Inl y" for opts y
    using that by (induction opts) (auto simp: set_option_def ec_simps split: sum.splits)
  then show ?thesis
    using assms
    by (auto simp: base_socket_ctor_def Let_def scope_expire_def expiration_duration_def
        split: if_splits option.splits sum.splits)
qed

lemma connect_until_error:
  "connect_until A E t t0 t1 t2 es until_time c = Some (Inl x) \<Longrightarrow> \<exists>ec what. x = System_error ec what \<and> is_error ec"
  unfolding connect_until_def by (rule base_socket_ctor_error)

section \<open>A resolve timeout below the timer's resolution\<close>

lemma resolve_short_throws:
  assumes "rt < kDurationResolution"
  shows "\<exists>r. resolve_default A now es (base_resolver_ctor A t h p rt family flags) =
    Some (Inl (System_error Timed_out ''''), r)"
  using assms
  by (simp add: resolve_default_def resolve_def async_resolve_def get_resolve_timeout_of_def base_resolver_ctor_def timed_base_ctor_def post_deadline_def
      base_resolver.defs scope_expire_short)

fun silent_label :: "('ep, 's) conn_label \<Rightarrow> bool" where
  "silent_label (Resolve_end ec eps) = False"
| "silent_label (Published eps) = False"
| "silent_label (Connected i ep session) = False"
| "silent_label _ = True"

definition fatal_inv :: "('ep, 's) conn_state \<Rightarrow> bool" where
  "fatal_inv s \<longleftrightarrow>
     c_resolve_timeout (conn s) < kDurationResolution \<and> \<not> resolve_done (conn s) \<and>
     resolver_pc s \<in> {R_loop, R_wait, R_resolving, R_exit, R_terminated} \<and>
     (\<forall>i ec. callers s i \<noteq> N_endpoints ec) \<and> (\<forall>i ep ec. callers s i \<noteq> N_connecting ep ec)"

lemma fatal_inv_step:
  assumes "conn_step resolves connects l s t" and "fatal_inv s"
  shows "fatal_inv t \<and> silent_label l"
  using assms by cases (auto simp: fatal_inv_def connector_defs)

lemma fatal_inv_run:
  assumes "conn_run resolves connects ls s t" and "fatal_inv s"
  shows "fatal_inv t \<and> list_all silent_label ls"
  by (rule conn_runs.run_invariant [OF assms(1)]) (use assms(2) in \<open>auto dest: fatal_inv_step\<close>)

lemma fatal_run:
  assumes "rt < kDurationResolution"
  shows "\<exists>t. conn_run resolves connects [Internal, Resolve_start, Internal] (conn_init h p rt ct ot) t \<and>
    resolver_pc t = R_terminated"
proof -
  let ?s = "conn_init h p rt ct ot"
  have "conn_run resolves connects [Internal] (?s\<lparr>resolver_pc := R_resolving, needed_locked := True\<rparr>)
      (?s\<lparr>resolver_pc := R_terminated, needed_locked := True\<rparr>)"
    using assms by - (rule conn_runs.run_step [OF r_throw]; simp add: conn_init_def connector_ctor_def conn_runs.run_empty)
  then have "conn_run resolves connects [Resolve_start, Internal] (?s\<lparr>resolver_pc := R_wait\<rparr>)
      (?s\<lparr>resolver_pc := R_terminated, needed_locked := True\<rparr>)"
    by - (rule conn_runs.run_step [OF r_begin]; simp add: conn_init_def connector_ctor_def)
  then have "conn_run resolves connects [Internal, Resolve_start, Internal] ?s
      (?s\<lparr>resolver_pc := R_terminated, needed_locked := True\<rparr>)"
    by - (rule conn_runs.run_step [OF r_check]; simp add: conn_init_def connector_ctor_def)
  then show ?thesis by force
qed

section \<open>Connected labels\<close>

lemma connected_from:
  assumes "conn_step resolves connects (Connected i ep session) s t" and "conn_inv ls s"
  shows "ep \<in> \<Union> (set ` set (published ls)) \<and> connects ep (Inr session)"
  using assms by cases (auto simp: conn_inv_def)

section \<open>Properties\<close>

text \<open>
  C2. A request for new endpoints is never lost. Whatever threads interleave, once a caller whose
  connect failed has asked for a resolve, the request is withdrawn only after a resolve that
  started after it has ended without an error and its endpoints have been published.
\<close>

theorem request_not_lost:
  assumes "conn_run resolves connects ls0 (conn_init h p rt ct ot) s"
    and "conn_step resolves connects (Requested i) s t"
    and "conn_run resolves connects ls t u" and "\<not> resolve_needed (conn u)"
  shows "refreshed ls"
proof -
  have free: "\<not> in_resolve (resolver_pc s)"
    using assms(2) conn_inv_run [OF assms(1)] by cases (simp add: conn_inv_def)
  from assms(2) free have "served [] t"
    by cases (auto simp: served_def notify_resolve_needed_def)
  from served_run [OF assms(3) this] assms(4) show ?thesis
    by (simp add: served_def)
qed

definition sample_resolves :: "error_code \<Rightarrow> nat list \<Rightarrow> bool" where
  "sample_resolves ec eps \<longleftrightarrow> ec = Success \<and> eps = [7, 8]"

definition sample_connects :: "nat \<Rightarrow> exn + nat \<Rightarrow> bool" where
  "sample_connects ep r \<longleftrightarrow> r = (if ep = 7 then Inr 70 else Inl (System_error Timed_out ''''))"

definition sample_init :: "(nat, nat) conn_state" where
  "sample_init = conn_init ''localhost'' ''6666'' 500000000 100000000 100000000"

definition sample_resolved :: "(nat, nat) conn_state" where
  "sample_resolved = after_round [7, 8] Success sample_init"

lemma sample_resolved_run:
  "conn_run sample_resolves sample_connects
     [Internal, Resolve_start, Resolve_end Success [7, 8], Internal, Published [7, 8], Internal, Internal]
     sample_init sample_resolved"
  unfolding sample_resolved_def
  by (rule resolve_round) (simp_all add: sample_init_def conn_init_def connector_ctor_def sample_resolves_def
      kDurationResolution_def)

lemma sample_fields [simp]:
  "resolver_pc sample_resolved = R_loop" "\<not> needed_locked sample_resolved" "callers sample_resolved i = N_idle"
  "endpoints (conn sample_resolved) = [7, 8]" "resolve_done (conn sample_resolved)"
  "resolving_thread_running (conn sample_resolved)" "c_resolve_timeout (conn sample_resolved) = 500000000"
  by (simp_all add: sample_resolved_def after_round_def sample_init_def conn_init_def connector_defs)

text \<open>A caller that connects to the refusing endpoint, up to its request for new endpoints.\<close>

lemma refused_run:
  assumes "callers s i = N_idle" and "resolve_done (conn s)" and "8 \<in> set (endpoints (conn s))"
    and "resolver_pc s \<noteq> R_terminated"
  shows "conn_run sample_resolves sample_connects [Internal, Internal, Internal, Internal, Internal] s
    (goto i (N_notify Timed_out) s)"
proof -
  have 1: "conn_step sample_resolves sample_connects Internal s (goto i (N_wait Success) s)"
    using assms(1) by (rule n_call)
  have 2: "conn_step sample_resolves sample_connects Internal (goto i (N_wait Success) s) (goto i (N_endpoints Success) s)"
    using n_ready [of "goto i (N_wait Success) s" i Success] assms(2) by simp
  have 3: "conn_step sample_resolves sample_connects Internal (goto i (N_endpoints Success) s)
      (goto i (N_connecting 8 Success) s)"
    using n_pick [of "goto i (N_endpoints Success) s" i Success 8] assms(3) by (simp add: get_endpoints_def)
  have 4: "conn_step sample_resolves sample_connects Internal (goto i (N_connecting 8 Success) s)
      (goto i (N_failing Timed_out) s)"
    using n_refused [of "goto i (N_connecting 8 Success) s" i 8 Success sample_connects Timed_out "''''"]
    by (simp add: sample_connects_def)
  have 5: "conn_step sample_resolves sample_connects Internal (goto i (N_failing Timed_out) s)
      (goto i (N_notify Timed_out) s)"
    using n_failing [of "goto i (N_failing Timed_out) s" i Timed_out] by simp
  note rest = conn_runs.run_step [OF 3 _ conn_runs.run_step [OF 4 _ conn_runs.run_step [OF 5 _ run_nil]]]
  show ?thesis
    by (rule conn_runs.run_step [OF 1 _ conn_runs.run_step [OF 2 _ rest]]) (simp_all add: assms(4))
qed

lemma sample_refused_run:
  "conn_run sample_resolves sample_connects [Internal, Internal, Internal, Internal, Internal] sample_resolved
     (goto 0 (N_notify Timed_out) sample_resolved)"
  by (rule refused_run) simp_all

definition sample_requested :: "(nat, nat) conn_state" where
  "sample_requested = goto 0 (N_return None Timed_out)
     (sample_resolved\<lparr>conn := notify_resolve_needed (conn sample_resolved)\<rparr>)"

lemma sample_request_step:
  "conn_step sample_resolves sample_connects (Requested 0) (goto 0 (N_notify Timed_out) sample_resolved) sample_requested"
  using n_notify [of "goto 0 (N_notify Timed_out) sample_resolved" 0 Timed_out]
  by (simp add: sample_requested_def)

theorem request_not_lost_witness:
  "refreshed ([Internal, Resolve_start, Resolve_end Success [7, 8], Internal, Published [7, 8], Internal, Internal]
     :: (nat, nat) conn_label list)"
proof -
  have "conn_run sample_resolves sample_connects
     ([Internal, Resolve_start, Resolve_end Success [7, 8], Internal, Published [7, 8], Internal, Internal] @
      [Internal, Internal, Internal, Internal, Internal])
     (conn_init ''localhost'' ''6666'' 500000000 100000000 100000000) (goto 0 (N_notify Timed_out) sample_resolved)"
    using sample_resolved_run sample_refused_run unfolding conn_runs.run_append sample_init_def by blast
  moreover have "conn_run sample_resolves sample_connects
     [Internal, Resolve_start, Resolve_end Success [7, 8], Internal, Published [7, 8], Internal, Internal]
     sample_requested (after_round [7, 8] Success sample_requested)"
    by (rule resolve_round) (simp_all add: sample_requested_def notify_resolve_needed_def sample_resolves_def
        kDurationResolution_def)
  moreover have "\<not> resolve_needed (conn (after_round [7, 8] Success sample_requested))"
    by (simp add: after_round_def connector_defs)
  ultimately show ?thesis
    using request_not_lost [OF _ sample_request_step] by blast
qed

text \<open>
  C12. A call of \<open>new_session\<close> that returns no session always reports an error, whatever code it was
  called with and however the threads interleave, provided a resolve without an error delivers
  endpoints and refused connects carry an error (which those of the library's sockets do).
\<close>

theorem null_session_has_error:
  assumes "answers_ok resolves" and "refusals_ok connects"
    and "conn_run resolves connects ls (conn_init h p rt ct ot) s" and "callers s i = N_return None ec"
  shows "is_error ec"
  using error_inv_run [OF assms(3,1,2)] assms(4) by (auto simp: error_inv_def)

text \<open>The connects of a real socket, in place of the parameter.\<close>

definition socket_connects :: "asio \<Rightarrow> sock_env \<Rightarrow> 'ep connector \<Rightarrow> 'ep \<Rightarrow> exn + base_socket \<Rightarrow> bool" where
  "socket_connects A E c ep r \<longleftrightarrow>
     (\<exists>t t0 t1 t2 es until_time. connect_until A E t t0 t1 t2 es until_time c = Some r)"

lemma socket_refusals_ok: "refusals_ok (socket_connects A E c)"
  using connect_until_error by (fastforce simp: refusals_ok_def socket_connects_def)

theorem null_session_has_error_witness:
  "is_error Timed_out \<and> refusals_ok (socket_connects linux_asio sample_env (conn sample_init))"
proof
  have "conn_run sample_resolves sample_connects
     (([Internal, Resolve_start, Resolve_end Success [7, 8], Internal, Published [7, 8], Internal, Internal] @
      [Internal, Internal, Internal, Internal, Internal]) @ [Requested 0])
     (conn_init ''localhost'' ''6666'' 500000000 100000000 100000000) sample_requested"
  proof (rule run_snoc [OF _ _ sample_request_step])
    show "resolver_pc (goto 0 (N_notify Timed_out) sample_resolved) \<noteq> R_terminated" by simp
  qed (use sample_resolved_run sample_refused_run in \<open>auto simp only: conn_runs.run_append sample_init_def\<close>)
  moreover have "answers_ok sample_resolves" "refusals_ok sample_connects"
    by (auto simp: answers_ok_def refusals_ok_def sample_resolves_def sample_connects_def)
  moreover have "callers sample_requested 0 = N_return None Timed_out"
    by (simp add: sample_requested_def)
  ultimately show "is_error Timed_out" using null_session_has_error by blast
qed (rule socket_refusals_ok)

text \<open>
  Callers see published endpoints only: at every moment the stored endpoints are those of the
  last successful resolve, waiting is over only after one, and a session handed out was obtained
  by connecting to an endpoint some earlier resolve had delivered.
\<close>

theorem sessions_to_published_endpoints:
  assumes "conn_run resolves connects ls (conn_init h p rt ct ot) s"
  shows "endpoints (conn s) = last_published ls \<and>
    (resolve_done (conn s) \<longrightarrow> published ls \<noteq> []) \<and>
    (\<forall>i ep session t. conn_step resolves connects (Connected i ep session) s t \<longrightarrow>
      ep \<in> \<Union> (set ` set (published ls)) \<and> connects ep (Inr session))"
proof (intro conjI allI impI)
  note inv = conn_inv_run [OF assms]
  show "endpoints (conn s) = last_published ls" and "resolve_done (conn s) \<Longrightarrow> published ls \<noteq> []"
    using inv by (simp_all add: conn_inv_def)
  show "ep \<in> \<Union> (set ` set (published ls))" and "connects ep (Inr session)"
    if "conn_step resolves connects (Connected i ep session) s t" for i ep session t
    using connected_from [OF that inv] by simp_all
qed

theorem sessions_to_published_endpoints_witness:
  "endpoints (conn sample_resolved) = [7, 8] \<and> published ([Published [7, 8]] :: (nat, nat) conn_label list) \<noteq> []"
  using sessions_to_published_endpoints [OF sample_resolved_run [unfolded sample_init_def]]
  by (simp add: last_published_def)

text \<open>
  C11. The function \<open>new_session\<close> is what the interleaving machine does when only its caller moves: for
  every environment the machine can show there is a run in which the caller ends with the
  function's result and the connector in the function's final state.
\<close>

theorem new_session_refines:
  assumes "callers s i = N_idle" and "resolver_pc s \<noteq> R_terminated" and "\<not> needed_locked s"
    and "env_possible connects V (conn s)"
  shows "\<exists>ls. conn_run resolves connects ls s
    (s\<lparr>conn := snd (new_session V ec (conn s)),
       callers := (callers s)(i := result_pc (fst (new_session V ec (conn s))))\<rparr>)"
  using new_session_run [OF assms, of resolves ec] by simp

definition sample_session_env :: "(nat, nat) session_env" where
  "sample_session_env = \<lparr>done_locked = True, done_waited = True, shuffled = rev,
     connect_peer = (\<lambda>ep. if ep = 7 then Inr 70 else Inl (System_error Timed_out ''''))\<rparr>"

theorem new_session_refines_witness:
  "\<exists>ls. conn_run sample_resolves sample_connects ls sample_resolved
    (sample_resolved\<lparr>conn := notify_resolve_needed (conn sample_resolved),
       callers := (callers sample_resolved)(1 := N_return None Timed_out)\<rparr>)"
proof -
  have "env_possible sample_connects sample_session_env (conn sample_resolved)"
    by (simp add: env_possible_def sample_session_env_def sample_connects_def)
  from new_session_refines [OF _ _ _ this, of 1 sample_resolves Success] show ?thesis
    by (simp add: new_session_def sample_session_env_def get_endpoints_def)
qed

text \<open>
  The throwing overload returns a session exactly when the endpoints could be awaited before the
  deadline \<open>now + connect_timeout\<close> and connecting to the first endpoint of the shuffled list
  succeeded; the connector is unchanged then. Only that one endpoint is ever tried.
\<close>

theorem new_session_throw_returns:
  "new_session_throw V now c = (Inr session, c') \<longleftrightarrow>
     (let V' = V (tick_add now (get_connect_timeout c)) in
      done_locked V' \<and> (resolve_done c \<or> done_waited V') \<and> c' = c \<and>
      (\<exists>ep eps. shuffled V' (get_endpoints c) = ep # eps \<and> connect_peer V' ep = Inr session))"
proof -
  let ?V = "V (tick_add now (get_connect_timeout c))"
  have tried: "try_endpoints (connect_peer ?V) eps Success = Inr (Some session, ec) \<longleftrightarrow>
      ec = Success \<and> (\<exists>ep eps'. eps = ep # eps' \<and> connect_peer ?V ep = Inr session)" for session eps ec
    by (cases eps) (auto split: sum.splits exn.splits)
  show ?thesis
    by (auto simp: new_session_throw_def new_session_default_def new_session_timeout_def new_session_def
        Let_def tried split: sum.splits option.splits if_splits)
qed

text \<open>
  C29. The resolving thread serves requests: from any state in which it is at the head of its loop,
  the lock is free and a resolve is asked for, the thread alone reaches its loop head again with
  the endpoints of a successful resolve stored, the request withdrawn and the waiters released.
\<close>

theorem resolver_serves_request:
  assumes "resolver_pc s = R_loop" and "\<not> needed_locked s" and "resolving_thread_running (conn s)"
    and "resolve_needed (conn s)" and "kDurationResolution \<le> get_resolve_timeout (conn s)"
    and "resolves ec eps" and "\<not> is_error ec"
  shows "\<exists>ls t. conn_run resolves connects ls s t \<and> endpoints (conn t) = eps \<and> resolve_done (conn t) \<and>
    \<not> resolve_needed (conn t) \<and> get_resolve_error (conn t) = ec \<and> resolver_pc t = R_loop \<and> \<not> needed_locked t \<and>
    callers t = callers s"
proof -
  have "conn_run resolves connects
    [Internal, Resolve_start, Resolve_end ec eps, Internal, Published eps, Internal, Internal] s (after_round eps ec s)"
    by (rule resolve_round) (use assms in \<open>simp_all add: get_resolve_timeout_def\<close>)
  then show ?thesis
    by (rule_tac exI, rule_tac x = "after_round eps ec s" in exI) (simp add: after_round_def connector_defs)
qed

theorem resolver_serves_request_witness:
  "\<exists>ls t. conn_run sample_resolves sample_connects ls sample_init t \<and> endpoints (conn t) = [7, 8]"
proof -
  have "\<exists>ls t. conn_run sample_resolves sample_connects ls sample_init t \<and> endpoints (conn t) = [7, 8] \<and>
    resolve_done (conn t) \<and> \<not> resolve_needed (conn t) \<and> get_resolve_error (conn t) = Success \<and>
    resolver_pc t = R_loop \<and> \<not> needed_locked t \<and> callers t = callers sample_init"
    by (rule resolver_serves_request) (simp_all add: sample_init_def conn_init_def connector_ctor_def
        sample_resolves_def kDurationResolution_def get_resolve_timeout_def)
  then show ?thesis by blast
qed

text \<open>
  C39. A connector built with a resolve timeout below the timer's resolution: its resolver throws from
  every resolve; in every run no endpoint is ever published and no session ever handed out, and
  there is a run in which the exception leaves the resolving thread, which ends the program.
\<close>

theorem short_resolve_timeout_fatal:
  assumes "rt < kDurationResolution"
  shows "(\<exists>r. resolve_default A now es (base_resolver_ctor A t h p rt family flags) =
      Some (Inl (System_error Timed_out ''''), r)) \<and>
    (\<forall>ls s. conn_run resolves connects ls (conn_init h p rt ct ot) s \<longrightarrow>
      list_all silent_label ls \<and> endpoints (conn s) = []) \<and>
    (\<exists>ls s. conn_run resolves connects ls (conn_init h p rt ct ot) s \<and> resolver_pc s = R_terminated)"
proof (intro conjI allI impI)
  fix ls s
  assume run: "conn_run resolves connects ls (conn_init h p rt ct ot) s"
  moreover have "fatal_inv (conn_init h p rt ct ot)"
    using assms by (simp add: fatal_inv_def conn_init_def connector_ctor_def)
  ultimately show silent: "list_all silent_label ls"
    using fatal_inv_run by blast
  then have "published ls = []"
    by (induction ls rule: published.induct) simp_all
  with conn_inv_run [OF run] show "endpoints (conn s) = []"
    by (simp add: conn_inv_def last_published_def)
next
  show "\<exists>ls s. conn_run resolves connects ls (conn_init h p rt ct ot) s \<and> resolver_pc s = R_terminated"
    using fatal_run [OF assms, of resolves connects h p ct ot] by blast
qed (rule resolve_short_throws [OF assms])

theorem short_resolve_timeout_fatal_witness:
  "\<exists>ls s. conn_run sample_resolves sample_connects ls (conn_init ''localhost'' ''6666'' 999 1000000 1000000) s \<and>
     resolver_pc s = R_terminated"
  using short_resolve_timeout_fatal [of 999 linux_asio 0 "[] :: nat list io_event list" 0 "''localhost''" "''6666''"
      kDefaultIPFamily "0 :: nat" sample_resolves sample_connects 1000000 1000000]
  by (simp add: kDurationResolution_def)

end
