(* ===== verification/Pool_Strategy.thy ===== *)
theory Pool_Strategy
  imports Prelude Complex_Main
begin

text \<open>
  The reconnection strategies of the pool (\<open>connector/pool_strategy.hpp\<close>,
  \<open>connector/impl/pool_strategy.ipp\<close>): the greedy one and the conservative one with its back-off.

  A strategy is handed two functions, \<open>connector.new_session()\<close> and \<open>append_func\<close>. Its threads call
  them concurrently; \<open>new_session i\<close> is the result of the call that is the \<open>i\<close>th to come back, and
  the appends take place in that order. \<open>std::size_t\<close> and \<open>unsigned long\<close> are 64-bit words. The
  product of the delay with a random number is computed in IEEE binary64, which the first section
  models on the rationals (round to nearest, ties to even). Threads and memory are assumed to be
  available; the log calls have no effect here.
\<close>

section \<open>Double arithmetic\<close>

definition round_even :: "rat \<Rightarrow> int" where
  "round_even x =
     (let f = \<lfloor>x\<rfloor>; r = x - of_int f in
      if r < 1 / 2 then f else if r > 1 / 2 then f + 1 else if even f then f else f + 1)"

text \<open>How far a positive number below \<open>2^53\<close> is scaled up, or one above it scaled down, to get a 53-bit significand.\<close>

fun scale_up :: "nat \<Rightarrow> rat \<Rightarrow> nat" where
  "scale_up 0 x = 0"
| "scale_up (Suc n) x = (if 2 ^ 52 \<le> x then 0 else Suc (scale_up n (2 * x)))"

fun scale_down :: "nat \<Rightarrow> rat \<Rightarrow> nat" where
  "scale_down 0 x = 0"
| "scale_down (Suc n) x = (if x < 2 ^ 53 then 0 else Suc (scale_down n (x / 2)))"

text \<open>The binary64 number nearest to a nonnegative rational; 1074 is the exponent range below 1.\<close>

definition fl :: "rat \<Rightarrow> rat" where
  "fl x =
     (if x < 2 ^ 53 then let k = scale_up 1074 x in of_int (round_even (x * 2 ^ k)) / 2 ^ k
      else let k = scale_down 1023 x in of_int (round_even (x / 2 ^ k)) * 2 ^ k)"

lemma round_even_le: "x \<le> of_int n \<Longrightarrow> round_even x \<le> n"
  by (auto simp: round_even_def Let_def floor_less_iff le_floor_iff) linarith+

lemma fl_le_int:
  assumes "x \<le> of_int n" and "n < 2 ^ 53"
  shows "fl x \<le> of_int n"
proof -
  define k where "k = scale_up 1074 x"
  have "of_int n < (2 :: rat) ^ 53" using assms(2)
    by (metis of_int_less_iff of_int_numeral of_int_power)
  with assms(1) have small: "x < 2 ^ 53" by (rule le_less_trans)
  have "x * 2 ^ k \<le> of_int (n * 2 ^ k)"
    using assms(1) by simp
  then have "round_even (x * 2 ^ k) \<le> n * 2 ^ k"
    by (rule round_even_le)
  then have "of_int (round_even (x * 2 ^ k)) \<le> (of_int (n * 2 ^ k) :: rat)"
    by (simp only: of_int_le_iff)
  then show ?thesis
    using small by (simp add: fl_def Let_def k_def [symmetric] divide_le_eq)
qed

lemma round_even_nonneg: "0 \<le> x \<Longrightarrow> 0 \<le> round_even x"
  by (auto simp: round_even_def Let_def)

lemma fl_nonneg: "0 \<le> x \<Longrightarrow> 0 \<le> fl x"
  by (auto simp: fl_def Let_def intro!: divide_nonneg_nonneg mult_nonneg_nonneg round_even_nonneg)

text \<open>
  \<open>const auto rand_val = double(r_generator_()) / r_generator_.max(); delay *= rand_val\<close>:
  \<open>g\<close> is the 32-bit number the Mersenne twister gives.
\<close>

definition rand_val :: "32 word \<Rightarrow> rat" where
  "rand_val g = fl (of_nat (unat g) / (2 ^ 32 - 1))"

definition scale_delay :: "32 word \<Rightarrow> 64 word \<Rightarrow> 64 word" where
  "scale_delay g d = word_of_int \<lfloor>fl (fl (of_nat (unat d)) * rand_val g)\<rfloor>"

lemma rand_val_le_1: "rand_val g \<le> 1"
proof -
  have "unat g < 2 ^ 32" using unsigned_less [of g] by simp
  then have "unat g \<le> 2 ^ 32 - 1" by linarith
  then have "of_nat (unat g) \<le> (of_nat (2 ^ 32 - 1) :: rat)" by (simp only: of_nat_le_iff)
  then have "of_nat (unat g) / (2 ^ 32 - 1) \<le> (of_int 1 :: rat)" by simp
  from fl_le_int [OF this] show ?thesis by (simp add: rand_val_def)
qed

lemma rand_val_nonneg: "0 \<le> rand_val g"
  unfolding rand_val_def by (intro fl_nonneg divide_nonneg_nonneg of_nat_0_le_iff) simp

text \<open>A delay that a double holds exactly never grows by the random factor.\<close>

lemma scale_delay_le:
  assumes "unat d < 2 ^ 53"
  shows "unat (scale_delay g d) \<le> unat d"
proof -
  let ?n = "int (unat d)"
  have n: "?n < 2 ^ 53" using assms by (metis of_nat_less_iff of_nat_numeral of_nat_power)
  have "fl (of_nat (unat d)) \<le> of_int ?n" using n by (intro fl_le_int) simp_all
  moreover have "0 \<le> fl (of_nat (unat d))" by (intro fl_nonneg of_nat_0_le_iff)
  ultimately have "fl (of_nat (unat d)) * rand_val g \<le> of_int ?n"
    using rand_val_le_1 [of g] rand_val_nonneg [of g] by (metis mult_left_le order.trans)
  from fl_le_int [OF this n] have le: "\<lfloor>fl (fl (of_nat (unat d)) * rand_val g)\<rfloor> \<le> ?n"
    by (simp add: floor_le_iff)
  moreover have "0 \<le> \<lfloor>fl (fl (of_nat (unat d)) * rand_val g)\<rfloor>"
    unfolding zero_le_floor by (intro fl_nonneg mult_nonneg_nonneg rand_val_nonneg of_nat_0_le_iff)
  ultimately have "uint (scale_delay g d) \<le> ?n"
    unfolding scale_delay_def using uint_word_of_int_eq [where 'a = 64] by (metis take_bit_int_less_eq_self_iff order.trans uint_word_of_int_eq)
  then show ?thesis by (metis of_nat_le_iff uint_nat)
qed

section \<open>Strategies\<close>

text \<open>
  How a call of \<open>refill\<close> ends: it returns, it throws, or an exception leaves one of its threads (or
  unwinding meets a joinable thread), which calls \<open>std::terminate\<close>.
\<close>

datatype refill_outcome = Terminates | Throws exn | Returns bool

text \<open>The lambda \<open>add_session\<close>: \<open>system_error\<close> is caught, any other exception escapes.\<close>

definition add_session :: "('s \<Rightarrow> 'p \<Rightarrow> 'p) \<Rightarrow> exn + 's \<Rightarrow> 'p \<Rightarrow> exn option \<times> 'p" where
  "add_session append_func result p =
     (case result of
        Inr session \<Rightarrow> (None, append_func session p)
      | Inl (System_error ec what) \<Rightarrow> (None, p)
      | Inl x \<Rightarrow> (Some x, p))"

text \<open>The calls of a refill in the order they come back, and the first exception that escapes.\<close>

fun run_adders :: "('s \<Rightarrow> 'p \<Rightarrow> 'p) \<Rightarrow> (exn + 's) list \<Rightarrow> 'p \<Rightarrow> exn option \<times> 'p" where
  "run_adders append_func [] p = (None, p)"
| "run_adders append_func (r # rs) p =
     (case add_session append_func r p of
        (Some x, p') \<Rightarrow> (Some x, p')
      | (None, p') \<Rightarrow> run_adders append_func rs p')"

definition greedy_refill ::
  "('s \<Rightarrow> 'p \<Rightarrow> 'p) \<Rightarrow> (nat \<Rightarrow> exn + 's) \<Rightarrow> 64 word \<Rightarrow> 'p \<Rightarrow> refill_outcome \<times> 'p" where
  "greedy_refill append_func new_session vacant_places p =
     (case run_adders append_func (map new_session [0..<unat vacant_places]) p of
        (Some x, p') \<Rightarrow> (Terminates, p')
      | (None, p') \<Rightarrow> (Returns (0 < vacant_places), p'))"

record conservative_strategy =
  wait_until :: tick
  initial_delay_ms :: "64 word"
  delay_multiplier :: "64 word"
  current_delay_ms :: "64 word"

definition kMaxBackoffMs :: "64 word" where
  "kMaxBackoffMs = 10000"

definition kDefaultDelayMs :: "64 word" where
  "kDefaultDelayMs = 50"

definition kDefaultDelayMul :: "64 word" where
  "kDefaultDelayMul = 3"

text \<open>The constructor's multiplier is an \<open>unsigned\<close>, stored as an \<open>unsigned long\<close>.\<close>

definition conservative_strategy_ctor :: "64 word \<Rightarrow> 32 word \<Rightarrow> exn + conservative_strategy" where
  "conservative_strategy_ctor first_delay_ms multiplier =
     (if (ucast multiplier :: 64 word) < 1 then Inl (Runtime_error ''delay multiplier should be >= 1'')
      else Inr \<lparr>wait_until = 0, initial_delay_ms = first_delay_ms, delay_multiplier = ucast multiplier,
                current_delay_ms = 0\<rparr>)"

definition parallel_adders :: "64 word \<Rightarrow> 64 word" where
  "parallel_adders vacant_places = (vacant_places + 2) div 3 - 1"

text \<open>\<open>std::vector<std::thread>::reserve\<close> throws above its maximal size (8-byte elements).\<close>

definition max_threads :: "64 word" where
  "max_threads = (2 ^ 63 - 1) div 8"

text \<open>The delay after a refill that added nothing.\<close>

definition next_delay :: "32 word \<Rightarrow> conservative_strategy \<Rightarrow> 64 word" where
  "next_delay g st =
     (let d = (if current_delay_ms st = 0 then initial_delay_ms st
               else current_delay_ms st * delay_multiplier st)
      in min kMaxBackoffMs (scale_delay g d))"

text \<open>
  \<open>t0\<close> and \<open>t1\<close> are the two clock readings. \<open>is_added\<close> is set by every call that got past
  \<open>append_func\<close>. An exception that escapes while adders run, or from one of them, terminates.
\<close>

definition conservative_refill ::
  "('s \<Rightarrow> 'p \<Rightarrow> 'p) \<Rightarrow> (nat \<Rightarrow> exn + 's) \<Rightarrow> tick \<Rightarrow> tick \<Rightarrow> 32 word \<Rightarrow> 64 word
     \<Rightarrow> conservative_strategy \<Rightarrow> 'p \<Rightarrow> refill_outcome \<times> conservative_strategy \<times> 'p" where
  "conservative_refill append_func new_session t0 t1 g vacant_places st p =
     (if t0 < wait_until st then (Returns False, st, p)
      else
        let parallel = parallel_adders vacant_places;
            adders = (if current_delay_ms st = 0 \<and> 0 < parallel then unat parallel else 0)
        in
          if adders \<noteq> 0 \<and> max_threads < parallel then (Throws Length_error, st, p)
          else
            let results = map new_session [0..<Suc adders] in
            (case run_adders append_func results p of
               (Some x, p') \<Rightarrow> (if adders = 0 then Throws x else Terminates, st, p')
             | (None, p') \<Rightarrow>
                 if \<exists>r \<in> set results. \<not> isl r then (Returns True, st\<lparr>current_delay_ms := 0\<rparr>, p')
                 else
                   let delay = next_delay g st in
                   (Returns False,
                    st\<lparr>current_delay_ms := delay, wait_until := tick_add t1 (1000000 * int (unat delay))\<rparr>, p')))"

section \<open>Lemmas on the adders\<close>

definition sessions_of :: "(exn + 's) list \<Rightarrow> 's list" where
  "sessions_of rs = map projr (filter (\<lambda>r. \<not> isl r) rs)"

definition escapes :: "exn + 's \<Rightarrow> bool" where
  "escapes r \<longleftrightarrow> (case r of Inr _ \<Rightarrow> False | Inl (System_error _ _) \<Rightarrow> False | Inl _ \<Rightarrow> True)"

lemma sessions_of_simps [simp]:
  "sessions_of [] = []"
  "sessions_of (Inr s # rs) = s # sessions_of rs"
  "sessions_of (Inl x # rs) = sessions_of rs"
  by (simp_all add: sessions_of_def)

lemma sessions_of_Nil: "sessions_of rs = [] \<longleftrightarrow> (\<forall>r \<in> set rs. isl r)"
  by (auto simp: sessions_of_def filter_empty_conv)

lemma sessions_of_length: "length (sessions_of rs) \<le> length rs"
  by (simp add: sessions_of_def)

lemma sessions_of_set: "s \<in> set (sessions_of rs) \<longleftrightarrow> Inr s \<in> set rs"
  by (force simp: sessions_of_def image_iff elim: sum.expand [rotated])

lemma run_adders_quiet:
  assumes "\<forall>r \<in> set rs. \<not> escapes r"
  shows "run_adders append_func rs p = (None, fold append_func (sessions_of rs) p)"
  using assms
  by (induction rs arbitrary: p) (auto simp: add_session_def escapes_def split: sum.splits exn.splits)

text \<open>The number of calls of \<open>new_session\<close> each strategy makes.\<close>

definition conservative_attempts :: "tick \<Rightarrow> 64 word \<Rightarrow> conservative_strategy \<Rightarrow> nat" where
  "conservative_attempts t0 vacant_places st =
     (if t0 < wait_until st then 0
      else if current_delay_ms st = 0 then (unat vacant_places + 2) div 3 else 1)"

lemma parallel_adders_unat:
  assumes "0 < vacant_places" and "unat vacant_places + 2 < 2 ^ 64"
  shows "unat (parallel_adders vacant_places) = (unat vacant_places + 2) div 3 - 1"
proof -
  have "unat (vacant_places + 2) = unat vacant_places + 2"
    using assms(2) by (simp add: unat_word_ariths)
  then have q: "unat ((vacant_places + 2) div 3) = (unat vacant_places + 2) div 3"
    by (simp add: unat_div)
  moreover have "1 \<le> (unat vacant_places + 2) div 3"
    using assms(1) by (simp add: word_less_nat_alt)
  ultimately show ?thesis
    by (simp add: parallel_adders_def unat_sub word_le_nat_alt)
qed

section \<open>The interface of a strategy\<close>

text \<open>
  The numbers of vacant places for which the size arithmetic is exact; a pool never asks for 0.
\<close>

definition vacant_ok :: "64 word \<Rightarrow> bool" where
  "vacant_ok v \<longleftrightarrow> 0 < v \<and> unat v \<le> 2 ^ 60"

text \<open>
  What the pool relies on, for a strategy with environment \<open>e\<close> and private state \<open>st\<close>: it calls
  \<open>new_session\<close> at most once per vacant place, appends exactly the sessions it got, in the order
  they came, and answers \<open>False\<close> only when it appended none.
\<close>

locale pool_strategy =
  fixes refill :: "('s \<Rightarrow> 'p \<Rightarrow> 'p) \<Rightarrow> (nat \<Rightarrow> exn + 's) \<Rightarrow> 'e \<Rightarrow> 64 word \<Rightarrow> 'st \<Rightarrow> 'p
      \<Rightarrow> refill_outcome \<times> 'st \<times> 'p"
    and attempts :: "'e \<Rightarrow> 64 word \<Rightarrow> 'st \<Rightarrow> nat"
    and state_ok :: "'st \<Rightarrow> bool"
  assumes attempts_le: "vacant_ok v \<Longrightarrow> attempts e v st \<le> unat v"
    and refill_quiet: "vacant_ok v \<Longrightarrow> state_ok st \<Longrightarrow> \<forall>i < attempts e v st. \<not> escapes (ns i) \<Longrightarrow>
      \<exists>b st'. refill app ns e v st p =
          (Returns b, st', fold app (sessions_of (map ns [0..<attempts e v st])) p) \<and>
        state_ok st' \<and> (b \<or> sessions_of (map ns [0..<attempts e v st]) = [])"
begin

text \<open>A measure that an append raises by at most one rises by at most the number of vacant places.\<close>

lemma refill_bound:
  assumes "vacant_ok v" and "state_ok st" and "\<forall>i < attempts e v st. \<not> escapes (ns i)"
    and step: "\<And>s p. len (app s p) \<le> Suc (len p :: nat)"
    and "refill app ns e v st p = (r, st', p')"
  shows "len p' \<le> len p + unat v"
proof -
  have grow: "len (fold app xs q) \<le> len q + length xs" for xs q
  proof (induction xs arbitrary: q)
    case (Cons x xs)
    have "len (fold app xs (app x q)) \<le> len (app x q) + length xs" by (rule Cons.IH)
    with step [of x q] show ?case by simp
  qed simp
  obtain b where "p' = fold app (sessions_of (map ns [0..<attempts e v st])) p"
    using refill_quiet [OF assms(1-3), of app p] assms(5) by auto
  then have "len p' \<le> len p + length (sessions_of (map ns [0..<attempts e v st]))"
    using grow by simp
  also have "\<dots> \<le> len p + attempts e v st"
    using sessions_of_length [of "map ns [0..<attempts e v st]"] by simp
  finally show ?thesis using attempts_le [OF assms(1), of e st] by simp
qed

text \<open>Every appended session came from \<open>new_session\<close>, so an invariant of the appends survives a refill.\<close>

lemma refill_invariant:
  assumes "vacant_ok v" and "state_ok st" and "\<forall>i < attempts e v st. \<not> escapes (ns i)"
    and keep: "\<And>i s p. ns i = Inr s \<Longrightarrow> P p \<Longrightarrow> P (app s p)" and "P p"
    and "refill app ns e v st p = (r, st', p')"
  shows "P p'"
proof -
  have "P (fold app xs q)" if "\<forall>s \<in> set xs. \<exists>i. ns i = Inr s" "P q" for xs q
    using that by (induction xs arbitrary: q) (auto intro: keep)
  moreover have "\<forall>s \<in> set (sessions_of (map ns [0..<attempts e v st])). \<exists>i. ns i = Inr s"
    by (force simp: sessions_of_set)
  ultimately show ?thesis
    using refill_quiet [OF assms(1-3), of app p] assms(5,6) by auto
qed

end

text \<open>The greedy strategy has neither environment nor state.\<close>

definition greedy_call ::
  "('s \<Rightarrow> 'p \<Rightarrow> 'p) \<Rightarrow> (nat \<Rightarrow> exn + 's) \<Rightarrow> unit \<Rightarrow> 64 word \<Rightarrow> unit \<Rightarrow> 'p
     \<Rightarrow> refill_outcome \<times> unit \<times> 'p" where
  "greedy_call app ns e v st p = (case greedy_refill app ns v p of (r, p') \<Rightarrow> (r, (), p'))"

lemma greedy_refill_quiet:
  assumes "\<forall>i < unat v. \<not> escapes (ns i)"
  shows "greedy_refill app ns v p = (Returns (0 < v), fold app (sessions_of (map ns [0..<unat v])) p)"
proof -
  have "run_adders app (map ns [0..<unat v]) p = (None, fold app (sessions_of (map ns [0..<unat v])) p)"
    using assms by (intro run_adders_quiet) auto
  then show ?thesis by (simp add: greedy_refill_def)
qed

interpretation greedy: pool_strategy greedy_call "\<lambda>e v st. unat v" "\<lambda>st. True"
  by unfold_locales (auto simp: greedy_call_def greedy_refill_quiet vacant_ok_def)

text \<open>
  The conservative strategy: the invariant of its state keeps the delay below the cap and the
  multiplier in the range of the constructor's argument, so that their product fits.
\<close>

definition backoff_ok :: "conservative_strategy \<Rightarrow> bool" where
  "backoff_ok st \<longleftrightarrow> current_delay_ms st \<le> kMaxBackoffMs \<and> 1 \<le> delay_multiplier st \<and>
     unat (delay_multiplier st) < 2 ^ 32"

definition conservative_call ::
  "('s \<Rightarrow> 'p \<Rightarrow> 'p) \<Rightarrow> (nat \<Rightarrow> exn + 's) \<Rightarrow> tick \<times> tick \<times> 32 word \<Rightarrow> 64 word
     \<Rightarrow> conservative_strategy \<Rightarrow> 'p \<Rightarrow> refill_outcome \<times> conservative_strategy \<times> 'p" where
  "conservative_call app ns e v st p =
     (case e of (t0, t1, g) \<Rightarrow> conservative_refill app ns t0 t1 g v st p)"

text \<open>The state after a refill that made its calls.\<close>

definition after_attempts :: "tick \<Rightarrow> 32 word \<Rightarrow> bool \<Rightarrow> conservative_strategy \<Rightarrow> conservative_strategy" where
  "after_attempts t1 g added st =
     (if added then st\<lparr>current_delay_ms := 0\<rparr>
      else st\<lparr>current_delay_ms := next_delay g st,
              wait_until := tick_add t1 (1000000 * int (unat (next_delay g st)))\<rparr>)"

lemma conservative_adders:
  assumes "vacant_ok v" and "\<not> t0 < wait_until st"
  shows "Suc (if current_delay_ms st = 0 \<and> 0 < parallel_adders v then unat (parallel_adders v) else 0) =
      conservative_attempts t0 v st"
    and "\<not> max_threads < parallel_adders v"
proof -
  have v: "0 < unat v" "unat v \<le> 2 ^ 60" using assms(1) by (simp_all add: vacant_ok_def word_less_nat_alt)
  then have p: "unat (parallel_adders v) = (unat v + 2) div 3 - 1"
    using assms(1) by (intro parallel_adders_unat) (simp_all add: vacant_ok_def)
  then show "Suc (if current_delay_ms st = 0 \<and> 0 < parallel_adders v then unat (parallel_adders v) else 0) =
      conservative_attempts t0 v st"
    using assms(2) v(1) by (auto simp: conservative_attempts_def word_less_nat_alt)
  show "\<not> max_threads < parallel_adders v"
    using p v(2) by (simp add: word_less_nat_alt max_threads_def)
qed

lemma conservative_refill_quiet:
  assumes "vacant_ok v" and "\<forall>i < conservative_attempts t0 v st. \<not> escapes (ns i)"
  shows "conservative_refill app ns t0 t1 g v st p =
    (let got = sessions_of (map ns [0..<conservative_attempts t0 v st]) in
     (Returns (got \<noteq> []),
      if t0 < wait_until st then st else after_attempts t1 g (got \<noteq> []) st, fold app got p))"
proof (cases "t0 < wait_until st")
  case True
  then show ?thesis by (simp add: conservative_refill_def conservative_attempts_def)
next
  case False
  let ?rs = "map ns [0..<conservative_attempts t0 v st]"
  have "run_adders app ?rs p = (None, fold app (sessions_of ?rs) p)"
    using assms(2) by (intro run_adders_quiet) auto
  moreover have "(\<exists>r \<in> set ?rs. \<not> isl r) \<longleftrightarrow> sessions_of ?rs \<noteq> []"
    by (auto simp: sessions_of_Nil)
  ultimately show ?thesis
    using False conservative_adders [OF assms(1) False]
    by (simp add: conservative_refill_def Let_def after_attempts_def del: upt_Suc)
qed

lemma next_delay_le: "next_delay g st \<le> kMaxBackoffMs"
  by (simp add: next_delay_def Let_def)

lemma backoff_product:
  assumes "backoff_ok st"
  shows "unat (current_delay_ms st * delay_multiplier st) = unat (current_delay_ms st) * unat (delay_multiplier st)"
    and "unat (current_delay_ms st) * unat (delay_multiplier st) < 2 ^ 53"
proof -
  have "unat (current_delay_ms st) \<le> 10000" "unat (delay_multiplier st) < 2 ^ 32"
    using assms by (simp_all add: backoff_ok_def kMaxBackoffMs_def word_le_nat_alt)
  then have "unat (current_delay_ms st) * unat (delay_multiplier st) \<le> 10000 * 2 ^ 32"
    by (intro mult_le_mono) simp_all
  then show bound: "unat (current_delay_ms st) * unat (delay_multiplier st) < 2 ^ 53"
    by (rule le_less_trans) simp
  then show "unat (current_delay_ms st * delay_multiplier st) = unat (current_delay_ms st) * unat (delay_multiplier st)"
    by (simp add: unat_word_ariths)
qed

lemma next_delay_grows_at_most:
  assumes "backoff_ok st" and "current_delay_ms st \<noteq> 0"
  shows "unat (next_delay g st) \<le> unat (current_delay_ms st) * unat (delay_multiplier st)"
proof -
  let ?d = "current_delay_ms st * delay_multiplier st"
  have "unat (scale_delay g ?d) \<le> unat ?d"
    using backoff_product [OF assms(1)] by (intro scale_delay_le) simp
  moreover have "unat (next_delay g st) \<le> unat (scale_delay g ?d)"
    using assms(2) by (simp add: next_delay_def Let_def flip: word_le_nat_alt)
  ultimately show ?thesis using backoff_product(1) [OF assms(1)] by simp
qed

lemma after_attempts_ok: "backoff_ok st \<Longrightarrow> backoff_ok (after_attempts t1 g added st)"
  by (simp add: backoff_ok_def after_attempts_def next_delay_le)

interpretation conservative: pool_strategy conservative_call "\<lambda>(t0, t1, g) v st. conservative_attempts t0 v st" backoff_ok
proof unfold_locales
  show "(case e of (t0, t1, g) \<Rightarrow> \<lambda>v st. conservative_attempts t0 v st) v st \<le> unat v"
    if "vacant_ok v" for v and e :: "tick \<times> tick \<times> 32 word" and st
    using that by (auto simp: conservative_attempts_def vacant_ok_def word_less_nat_alt split: prod.split)
  fix v st ns app p and e :: "tick \<times> tick \<times> 32 word"
  obtain t0 t1 g where e: "e = (t0, t1, g)" by (cases e)
  assume "vacant_ok v" "backoff_ok st"
    and "\<forall>i<(case e of (t0, t1, g) \<Rightarrow> \<lambda>v st. conservative_attempts t0 v st) v st. \<not> escapes (ns i)"
  then show "\<exists>b st'. conservative_call app ns e v st p =
      (Returns b, st', fold app (sessions_of (map ns [0..<(case e of (t0, t1, g) \<Rightarrow>
         \<lambda>v st. conservative_attempts t0 v st) v st])) p) \<and> backoff_ok st' \<and>
      (b \<or> sessions_of (map ns [0..<(case e of (t0, t1, g) \<Rightarrow> \<lambda>v st. conservative_attempts t0 v st) v st]) = [])"
    by (auto simp: e conservative_call_def conservative_refill_quiet Let_def after_attempts_ok)
qed

section \<open>Properties\<close>

text \<open>
  The greedy strategy makes one call per vacant place, appends exactly the sessions it got in
  the order they came, drops the failed ones, and asks for another round whenever there was a
  vacant place, even when every connect failed.
\<close>

theorem greedy_refill_outcome:
  assumes "\<forall>i < unat v. \<not> escapes (new_session i)"
  shows "greedy_refill append_func new_session v p =
    (Returns (0 < v), fold append_func (sessions_of (map new_session [0..<unat v])) p)"
  using assms by (rule greedy_refill_quiet)

definition sample_calls :: "nat \<Rightarrow> exn + nat" where
  "sample_calls i = (if i = 1 then Inl (System_error Timed_out '''') else Inr i)"

lemma sample_calls_quiet [simp]: "\<not> escapes (sample_calls i)"
  by (simp add: sample_calls_def escapes_def)

theorem greedy_refill_outcome_witness:
  "greedy_refill (\<lambda>s p. p @ [s]) sample_calls 3 [9] = (Returns True, [9, 0, 2])"
proof -
  have "sessions_of (map sample_calls [0..<unat (3 :: 64 word)]) = [0, 2]"
    by (simp add: upt_conv_Cons sample_calls_def)
  then show ?thesis
    using greedy_refill_outcome [of 3 sample_calls "\<lambda>s p. p @ [s]" "[9]"] by simp
qed

text \<open>
  C30. The conservative strategy on every branch. Before \<open>wait_until_\<close> it makes no call and changes
  nothing. Otherwise it makes one call when it is backing off and a third of the vacant places,
  rounded up, when it is not; it appends exactly the sessions it got. With one at least it
  resets the delay and returns true; with none it returns false and sets the new delay and the
  time until which it will stay quiet.
\<close>

theorem conservative_refill_outcome:
  assumes "vacant_ok v"
    and "n = (if t0 < wait_until st then 0 else if current_delay_ms st = 0 then (unat v + 2) div 3 else 1)"
    and "\<forall>i < n. \<not> escapes (new_session i)" and "got = sessions_of (map new_session [0..<n])"
  shows "conservative_refill append_func new_session t0 t1 g v st p =
    (if t0 < wait_until st then (Returns False, st, p)
     else if got \<noteq> [] then (Returns True, st\<lparr>current_delay_ms := 0\<rparr>, fold append_func got p)
     else (Returns False, st\<lparr>current_delay_ms := next_delay g st,
             wait_until := tick_add t1 (1000000 * int (unat (next_delay g st)))\<rparr>, p))"
proof -
  have n: "n = conservative_attempts t0 v st" using assms(2) by (simp add: conservative_attempts_def)
  show ?thesis
    using conservative_refill_quiet [OF assms(1), of t0 st new_session] assms(3)
    by (auto simp: n assms(4) Let_def after_attempts_def conservative_attempts_def)
qed

definition sample_strategy :: conservative_strategy where
  "sample_strategy = \<lparr>wait_until = 0, initial_delay_ms = 50, delay_multiplier = 3, current_delay_ms = 0\<rparr>"

lemma sample_strategy_idle: "\<not> 5 < wait_until sample_strategy" "sample_strategy\<lparr>current_delay_ms := 0\<rparr> = sample_strategy"
  by (simp_all add: sample_strategy_def)

theorem conservative_refill_outcome_witness:
  "conservative_refill (\<lambda>s p. p @ [s]) sample_calls 5 9 7 6 sample_strategy [] = (Returns True, sample_strategy, [0])"
proof -
  have "vacant_ok 6" by (simp add: vacant_ok_def)
  moreover have "(2 :: nat) = (if 5 < wait_until sample_strategy then 0
      else if current_delay_ms sample_strategy = 0 then (unat (6 :: 64 word) + 2) div 3 else 1)"
    by (simp add: sample_strategy_def)
  moreover have "[0] = sessions_of (map sample_calls [0..<2])"
    by (simp add: upt_conv_Cons sample_calls_def)
  ultimately show ?thesis
    using conservative_refill_outcome [of 6 2 5 sample_strategy sample_calls "[0]" "\<lambda>s p. p @ [s]" 9 7 "[]"]
      sample_calls_quiet
    by (metis (no_types) fold_simps append_Nil list.distinct(1) sample_strategy_idle)
qed

text \<open>
  C31. The back-off is bounded. With a multiplier in the range of the constructor's argument the
  product of the delay and the multiplier never wraps around; the new delay is at most that
  product and at most ten seconds, so the strategy is never quiet for longer than that; and every
  refill, whatever it meets, keeps this state invariant.
\<close>

theorem backoff_bounded:
  assumes "backoff_ok st"
  shows "unat (current_delay_ms st * delay_multiplier st) = unat (current_delay_ms st) * unat (delay_multiplier st) \<and>
    unat (next_delay g st) \<le> 10000 \<and>
    (current_delay_ms st = 0 \<or> unat (next_delay g st) \<le> unat (current_delay_ms st) * unat (delay_multiplier st)) \<and>
    backoff_ok (fst (snd (conservative_refill append_func new_session t0 t1 g v st p)))"
proof (intro conjI)
  show "unat (next_delay g st) \<le> 10000"
    using next_delay_le [of g st] by (simp add: word_le_nat_alt kMaxBackoffMs_def)
  show "backoff_ok (fst (snd (conservative_refill append_func new_session t0 t1 g v st p)))"
    using assms next_delay_le [of g st]
    by (auto simp: conservative_refill_def Let_def backoff_ok_def split: prod.splits option.splits)
qed (use backoff_product(1) [OF assms] next_delay_grows_at_most [OF assms] in auto)

theorem backoff_bounded_witness:
  "unat (next_delay 4294967295 (sample_strategy\<lparr>current_delay_ms := 40\<rparr>)) \<le> 120"
proof -
  have "backoff_ok (sample_strategy\<lparr>current_delay_ms := 40\<rparr>)"
    by (simp add: backoff_ok_def sample_strategy_def kMaxBackoffMs_def)
  from backoff_bounded [OF this, of 4294967295 "\<lambda>s p. p" sample_calls 0 0 1 "()"] show ?thesis
    by (auto simp: sample_strategy_def)
qed

text \<open>
  The constructor accepts exactly the multipliers of at least 1, and the strategy it makes
  satisfies the invariant, is not backing off and not quiet at any time the clock can show.
\<close>

theorem conservative_ctor_ok:
  "case conservative_strategy_ctor d m of
     Inl x \<Rightarrow> m = 0 \<and> x = Runtime_error ''delay multiplier should be >= 1''
   | Inr st \<Rightarrow> 1 \<le> m \<and> backoff_ok st \<and> initial_delay_ms st = d \<and> current_delay_ms st = 0 \<and> \<not> 0 < wait_until st"
proof -
  have "unat m < 2 ^ 32" using unsigned_less [of m] by simp
  then have "unat (ucast m :: 64 word) = unat m" by (simp add: unsigned_ucast_eq take_bit_nat_eq_self)
  then show ?thesis
    using unsigned_less [of m]
    by (auto simp: conservative_strategy_ctor_def backoff_ok_def word_less_nat_alt word_le_nat_alt unat_eq_0
        Suc_le_eq simp flip: neq0_conv)
qed

text \<open>
  Asked to fill no place at all, which the pool never does, the conservative strategy computes
  its number of threads with a wrap-around and throws, before any call of \<open>new_session\<close>.
\<close>

theorem conservative_zero_vacant:
  assumes "\<not> t0 < wait_until st" and "current_delay_ms st = 0"
  shows "parallel_adders 0 = -1 \<and>
    conservative_refill append_func new_session t0 t1 g 0 st p = (Throws Length_error, st, p)"
proof -
  have "parallel_adders 0 = - 1" by (simp add: parallel_adders_def)
  moreover have "max_threads < - 1" by (simp add: max_threads_def word_less_def unsigned_minus_1_eq_mask mask_eq_exp_minus_1)
  moreover have "(0 :: 64 word) < - 1" by (simp add: word_less_def unsigned_minus_1_eq_mask mask_eq_exp_minus_1)
  moreover from this have "unat (- 1 :: 64 word) \<noteq> 0" by (simp add: word_less_nat_alt)
  ultimately show ?thesis using assms by (simp add: conservative_refill_def Let_def)
qed

theorem conservative_zero_vacant_witness:
  "conservative_refill (\<lambda>s p. p @ [s]) sample_calls 5 9 7 0 sample_strategy [] = (Throws Length_error, sample_strategy, [])"
  using conservative_zero_vacant [of 5 sample_strategy "\<lambda>s p. p @ [s]" sample_calls 9 7 "[]"]
  by (simp add: sample_strategy_def)

end
