(* ===== verification/Connection_Pool.thy ===== *)
theory Connection_Pool
  imports Connector Pool_Strategy
begin

text \<open>
  The connection pool (\<open>connector/connection_pool.hpp\<close>, \<open>connector/impl/connection_pool.ipp\<close>): a list of
  connected sessions with the time each was put there, filled by a background thread through a
  strategy, used by any number of client threads.

  Every access to the list happens under \<open>pool_mutex_\<close>, so each member function is one atomic step
  on the pool; whether the lock was acquired in time is an input, and the pool a waiting function
  sees is the one at the moment its wait ends. \<open>session_open\<close> stands for
  \<open>session->next_layer().is_open()\<close> of the stream type, a template parameter of the class.
\<close>

section \<open>Members and member functions\<close>

record ('ep, 's) pool =
  pool_name :: string
  pool_connector :: "'ep connector"
  pool_max_size :: "64 word"
  idle_timeout :: tick
  sesson_pool :: "(tick \<times> 's) list"
  watch_pool :: bool

definition pool_ctor :: "64 word \<Rightarrow> tick \<Rightarrow> 'ep connector \<Rightarrow> ('ep, 's) pool" where
  "pool_ctor n idle_timeout_arg connector_arg =
     \<lparr>pool_name = ''connection_pool['' @ get_target connector_arg @ '']('' @ to_string (unat n) @ '')'',
      pool_connector = connector_arg, pool_max_size = n, idle_timeout = idle_timeout_arg,
      sesson_pool = [], watch_pool = True\<rparr>"

definition pool_ctor_no_idle :: "64 word \<Rightarrow> 'ep connector \<Rightarrow> ('ep, 's) pool" where
  "pool_ctor_no_idle n connector_arg = pool_ctor n tick_max connector_arg"

definition pool_dtor :: "('ep, 's) pool \<Rightarrow> ('ep, 's) pool" where
  "pool_dtor p = p\<lparr>watch_pool := False\<rparr>"

text \<open>Lock, then wait for the list to be non-empty; \<open>p\<close> is the pool when the wait ends.\<close>

definition ensure_session :: "bool \<Rightarrow> error_code \<Rightarrow> ('ep, 's) pool \<Rightarrow> bool \<times> error_code" where
  "ensure_session locked ec p =
     (if \<not> locked then (False, Timed_out)
      else if sesson_pool p = [] then (False, Not_found)
      else (True, ec))"

definition pop_front :: "('ep, 's) pool \<Rightarrow> 's option \<times> ('ep, 's) pool" where
  "pop_front p =
     (case sesson_pool p of
        [] \<Rightarrow> (None, p)
      | (t, session) # rest \<Rightarrow> (Some session, p\<lparr>sesson_pool := rest\<rparr>))"

definition get_session ::
  "bool \<Rightarrow> error_code \<Rightarrow> ('ep, 's) pool \<Rightarrow> ('s option \<times> error_code) \<times> ('ep, 's) pool" where
  "get_session locked ec p =
     (case ensure_session locked ec p of
        (False, ec') \<Rightarrow> ((None, ec'), p)
      | (True, ec') \<Rightarrow> (case pop_front p of (session, p') \<Rightarrow> ((session, ec'), p')))"

text \<open>\<open>try_get_session\<close> does not wait: \<open>p\<close> is the pool when the lock is acquired.\<close>

definition try_get_session ::
  "bool \<Rightarrow> error_code \<Rightarrow> ('ep, 's) pool \<Rightarrow> ('s option \<times> error_code) \<times> ('ep, 's) pool" where
  "try_get_session locked ec p =
     (if \<not> locked then ((None, Timed_out), p)
      else if sesson_pool p = [] then ((None, Not_found), p)
      else (case pop_front p of (session, p') \<Rightarrow> ((session, ec), p')))"

definition return_session ::
  "('s \<Rightarrow> bool) \<Rightarrow> bool \<Rightarrow> tick \<Rightarrow> 's option \<Rightarrow> ('ep, 's) pool \<Rightarrow> ('ep, 's) pool" where
  "return_session session_open locked now session p =
     (case session of
        None \<Rightarrow> p
      | Some s \<Rightarrow>
          if \<not> session_open s then p
          else if \<not> locked then p
          else p\<lparr>sesson_pool := sesson_pool p @ [(now, s)]\<rparr>)"

definition is_connected :: "bool \<Rightarrow> error_code \<Rightarrow> ('ep, 's) pool \<Rightarrow> bool \<times> error_code" where
  "is_connected locked ec p = ensure_session locked ec p"

text \<open>
  The overloads turn a duration into a deadline; \<open>locks d\<close> says whether the mutex could be locked
  until the deadline \<open>d\<close>.
\<close>

definition pool_connect_timeout :: "('ep, 's) pool \<Rightarrow> tick" where
  "pool_connect_timeout p = get_connect_timeout (pool_connector p)"

definition pool_resolve_timeout :: "('ep, 's) pool \<Rightarrow> tick" where
  "pool_resolve_timeout p = get_resolve_timeout (pool_connector p)"

definition pool_operation_timeout :: "('ep, 's) pool \<Rightarrow> tick" where
  "pool_operation_timeout p = get_operation_timeout (pool_connector p)"

definition deadline_of :: "tick \<Rightarrow> time_arg \<Rightarrow> tick" where
  "deadline_of now arg = (case arg of Duration d \<Rightarrow> tick_add now d | Time_point t \<Rightarrow> t)"

definition get_session_until ::
  "(tick \<Rightarrow> bool) \<Rightarrow> tick \<Rightarrow> time_arg \<Rightarrow> error_code \<Rightarrow> ('ep, 's) pool
     \<Rightarrow> ('s option \<times> error_code) \<times> ('ep, 's) pool" where
  "get_session_until locks now arg ec p = get_session (locks (deadline_of now arg)) ec p"

definition get_session_default ::
  "(tick \<Rightarrow> bool) \<Rightarrow> tick \<Rightarrow> error_code \<Rightarrow> ('ep, 's) pool
     \<Rightarrow> ('s option \<times> error_code) \<times> ('ep, 's) pool" where
  "get_session_default locks now ec p = get_session_until locks now (Duration (pool_connect_timeout p)) ec p"

definition pool_failure :: "('ep, 's) pool \<Rightarrow> string" where
  "pool_failure p = ''Failed to get a session from the pool connected to '' @ get_target (pool_connector p)"

definition get_session_throw ::
  "(tick \<Rightarrow> bool) \<Rightarrow> tick \<Rightarrow> time_arg \<Rightarrow> ('ep, 's) pool \<Rightarrow> (exn + 's) \<times> ('ep, 's) pool" where
  "get_session_throw locks now arg p =
     (case get_session_until locks now arg Success p of
        ((session, ec), p') \<Rightarrow>
          (if is_error ec then Inl (System_error ec (pool_failure p'))
           else case session of
               None \<Rightarrow> Inl (System_error Operation_aborted (pool_failure p'))
             | Some s \<Rightarrow> Inr s, p'))"

definition get_session_throw_default ::
  "(tick \<Rightarrow> bool) \<Rightarrow> tick \<Rightarrow> ('ep, 's) pool \<Rightarrow> (exn + 's) \<times> ('ep, 's) pool" where
  "get_session_throw_default locks now p = get_session_throw locks now (Duration (pool_connect_timeout p)) p"

definition try_get_session_timeout ::
  "(tick \<Rightarrow> bool) \<Rightarrow> tick \<Rightarrow> tick \<Rightarrow> error_code \<Rightarrow> ('ep, 's) pool
     \<Rightarrow> ('s option \<times> error_code) \<times> ('ep, 's) pool" where
  "try_get_session_timeout locks now timeout ec p = try_get_session (locks (tick_add now timeout)) ec p"

definition is_connected_timeout ::
  "(tick \<Rightarrow> bool) \<Rightarrow> tick \<Rightarrow> tick \<Rightarrow> error_code \<Rightarrow> ('ep, 's) pool \<Rightarrow> bool \<times> error_code" where
  "is_connected_timeout locks now timeout ec p = is_connected (locks (tick_add now timeout)) ec p"

definition is_connected_default ::
  "(tick \<Rightarrow> bool) \<Rightarrow> tick \<Rightarrow> error_code \<Rightarrow> ('ep, 's) pool \<Rightarrow> bool \<times> error_code" where
  "is_connected_default locks now ec p = is_connected (locks (tick_add now (pool_connect_timeout p))) ec p"

definition is_connected_throw :: "(tick \<Rightarrow> bool) \<Rightarrow> tick \<Rightarrow> ('ep, 's) pool \<Rightarrow> exn + bool" where
  "is_connected_throw locks now p =
     (case is_connected_default locks now Success p of
        (answer, ec) \<Rightarrow>
          throw_if_error (''Failed to lock the pool connected to '' @ get_target (pool_connector p)) ec answer)"

section \<open>The watcher\<close>

text \<open>The loop that erases the sessions idle for too long and counts those that stay.\<close>

fun purge_idle :: "tick \<Rightarrow> tick \<Rightarrow> (tick \<times> 's) list \<Rightarrow> 64 word \<Rightarrow> (tick \<times> 's) list \<times> 64 word" where
  "purge_idle now limit [] n = ([], n)"
| "purge_idle now limit ((t, s) # rest) n =
     (if limit \<le> tick_sub now t then purge_idle now limit rest n
      else (case purge_idle now limit rest (n + 1) of (kept, m) \<Rightarrow> ((t, s) # kept, m)))"

definition vacant_places :: "64 word \<Rightarrow> 64 word \<Rightarrow> 64 word" where
  "vacant_places max_size current_size = (if current_size < max_size then max_size - current_size else 0)"

definition purge :: "tick \<Rightarrow> ('ep, 's) pool \<Rightarrow> 64 word \<times> ('ep, 's) pool" where
  "purge now p =
     (case purge_idle now (idle_timeout p) (sesson_pool p) 0 of
        (kept, current_size) \<Rightarrow> (vacant_places (pool_max_size p) current_size, p\<lparr>sesson_pool := kept\<rparr>))"

text \<open>
  One iteration of \<open>watch_pool_routine\<close>, given a strategy's \<open>refill\<close> applied to its environment:
  whether the loop goes on, whether it sleeps first, the strategy's state and the pool. \<open>now'\<close> and
  \<open>locked'\<close> are what the appends of the new sessions meet.
\<close>

datatype round_end = Stopped | Died | Next bool

definition watch_round ::
  "(('s \<Rightarrow> ('ep, 's) pool \<Rightarrow> ('ep, 's) pool) \<Rightarrow> 64 word \<Rightarrow> 'st \<Rightarrow> ('ep, 's) pool
      \<Rightarrow> refill_outcome \<times> 'st \<times> ('ep, 's) pool)
     \<Rightarrow> ('s \<Rightarrow> bool) \<Rightarrow> bool \<Rightarrow> ('s \<Rightarrow> bool) \<Rightarrow> tick \<Rightarrow> tick \<Rightarrow> 'st \<Rightarrow> ('ep, 's) pool
     \<Rightarrow> round_end \<times> 'st \<times> ('ep, 's) pool" where
  "watch_round refill session_open locked locked' now now' st p =
     (if \<not> watch_pool p then (Stopped, st, p)
      else if \<not> locked then (Next False, st, p)
      else
        (case purge now p of
           (vacant, p1) \<Rightarrow>
             if vacant = 0 then (Next True, st, p1)
             else (case refill (\<lambda>s. return_session session_open (locked' s) now' (Some s)) vacant st p1 of
                     (Returns need_more, st', p2) \<Rightarrow> (Next (\<not> need_more), st', p2)
                   | (_, st', p2) \<Rightarrow> (Died, st', p2))))"

section \<open>The interleaving machine\<close>

text \<open>
  Where the watcher is: at the head of its loop, with a number of vacant places counted, with a
  number of calls of \<open>new_session\<close> still to come back, or gone. The adder threads of a refill are
  the order in which these calls come back.
\<close>

datatype watcher_pc = W_loop | W_refill "64 word" | W_fill nat | W_exit

record ('ep, 's) pool_state =
  the_pool :: "('ep, 's) pool"
  clock :: tick
  watcher :: watcher_pc

datatype 's pool_label =
    Took 's
  | Refused error_code
  | Returned 's
  | Opened 's
  | Lost 's
  | Evicted "'s list"
  | Silent

definition pool_init :: "64 word \<Rightarrow> tick \<Rightarrow> 'ep connector \<Rightarrow> tick \<Rightarrow> ('ep, 's) pool_state" where
  "pool_init n limit c t0 = \<lparr>the_pool = pool_ctor n limit c, clock = t0, watcher = W_loop\<rparr>"

text \<open>Is a session taken back: it is open and the lock was acquired.\<close>

definition accepted :: "('s \<Rightarrow> bool) \<Rightarrow> bool \<Rightarrow> 's \<Rightarrow> bool" where
  "accepted session_open locked s \<longleftrightarrow> session_open s \<and> locked"

text \<open>
  \<open>attempts v n\<close>: for \<open>v\<close> vacant places the strategy may call \<open>new_session\<close> \<open>n\<close> times. Clients may call any
  member function at any time, and the steady clock moves forward only.
\<close>

inductive pool_step ::
  "('s \<Rightarrow> bool) \<Rightarrow> (64 word \<Rightarrow> nat \<Rightarrow> bool) \<Rightarrow> 's pool_label
     \<Rightarrow> ('ep, 's) pool_state \<Rightarrow> ('ep, 's) pool_state \<Rightarrow> bool"
  for session_open :: "'s \<Rightarrow> bool" and attempts :: "64 word \<Rightarrow> nat \<Rightarrow> bool"
  where
  p_tick: "clock s \<le> t \<Longrightarrow> t \<le> tick_max \<Longrightarrow> pool_step session_open attempts Silent s (s\<lparr>clock := t\<rparr>)"
| p_get: "get_session locked ec (the_pool s) = ((Some x, ec'), p) \<Longrightarrow>
     pool_step session_open attempts (Took x) s (s\<lparr>the_pool := p\<rparr>)"
| p_get_fails: "get_session locked ec (the_pool s) = ((None, ec'), p) \<Longrightarrow>
     pool_step session_open attempts (Refused ec') s (s\<lparr>the_pool := p\<rparr>)"
| p_try_get: "try_get_session locked ec (the_pool s) = ((Some x, ec'), p) \<Longrightarrow>
     pool_step session_open attempts (Took x) s (s\<lparr>the_pool := p\<rparr>)"
| p_try_get_fails: "try_get_session locked ec (the_pool s) = ((None, ec'), p) \<Longrightarrow>
     pool_step session_open attempts (Refused ec') s (s\<lparr>the_pool := p\<rparr>)"
| p_return: "pool_step session_open attempts (if accepted session_open locked x then Returned x else Lost x) s
     (s\<lparr>the_pool := return_session session_open locked (clock s) (Some x) (the_pool s)\<rparr>)"
| p_return_null: "pool_step session_open attempts Silent s
     (s\<lparr>the_pool := return_session session_open locked (clock s) None (the_pool s)\<rparr>)"
| p_stop: "pool_step session_open attempts Silent s (s\<lparr>the_pool := pool_dtor (the_pool s)\<rparr>)"
| w_exit: "watcher s = W_loop \<Longrightarrow> \<not> watch_pool (the_pool s) \<Longrightarrow>
     pool_step session_open attempts Silent s (s\<lparr>watcher := W_exit\<rparr>)"
| w_purge: "watcher s = W_loop \<Longrightarrow> watch_pool (the_pool s) \<Longrightarrow> purge (clock s) (the_pool s) = (v, p) \<Longrightarrow>
     pool_step session_open attempts
       (Evicted (map snd (filter (\<lambda>(t, x). idle_timeout (the_pool s) \<le> tick_sub (clock s) t) (sesson_pool (the_pool s)))))
       s (s\<lparr>the_pool := p, watcher := W_refill v\<rparr>)"
| w_full: "watcher s = W_refill 0 \<Longrightarrow> pool_step session_open attempts Silent s (s\<lparr>watcher := W_loop\<rparr>)"
| w_refill: "watcher s = W_refill v \<Longrightarrow> v \<noteq> 0 \<Longrightarrow> attempts v n \<Longrightarrow>
     pool_step session_open attempts Silent s (s\<lparr>watcher := W_fill n\<rparr>)"
| w_add: "watcher s = W_fill (Suc n) \<Longrightarrow>
     pool_step session_open attempts (if accepted session_open locked x then Opened x else Lost x) s
       (s\<lparr>the_pool := return_session session_open locked (clock s) (Some x) (the_pool s), watcher := W_fill n\<rparr>)"
| w_fail: "watcher s = W_fill (Suc n) \<Longrightarrow>
     pool_step session_open attempts Silent s (s\<lparr>watcher := W_fill n\<rparr>)"
| w_next: "watcher s = W_fill 0 \<Longrightarrow> pool_step session_open attempts Silent s (s\<lparr>watcher := W_loop\<rparr>)"

inductive pool_run ::
  "('s \<Rightarrow> bool) \<Rightarrow> (64 word \<Rightarrow> nat \<Rightarrow> bool) \<Rightarrow> 's pool_label list
     \<Rightarrow> ('ep, 's) pool_state \<Rightarrow> ('ep, 's) pool_state \<Rightarrow> bool"
  for session_open :: "'s \<Rightarrow> bool" and attempts :: "64 word \<Rightarrow> nat \<Rightarrow> bool"
  where
  pool_nil: "pool_run session_open attempts [] s s"
| pool_snoc: "pool_run session_open attempts ls s t \<Longrightarrow> pool_step session_open attempts l t u \<Longrightarrow>
     pool_run session_open attempts (ls @ [l]) s u"

inductive_cases pool_stepE: "pool_step session_open attempts l s t"
inductive_cases pool_run_nilE: "pool_run session_open attempts [] s t"
inductive_cases pool_run_snocE: "pool_run session_open attempts (ls @ [l]) s t"

interpretation pool_runs:
  labelled_system "pool_step session_open attempts" "\<lambda>_. True" "pool_run session_open attempts"
  for session_open :: "'s \<Rightarrow> bool" and attempts :: "64 word \<Rightarrow> nat \<Rightarrow> bool"
  by unfold_locales (auto elim: pool_run_nilE pool_run_snocE intro: pool_nil pool_snoc)

section \<open>Lemmas on the member functions\<close>

lemmas pool_defs =
  pool_ctor_def pool_dtor_def ensure_session_def pop_front_def get_session_def try_get_session_def
  return_session_def purge_def accepted_def

lemma purge_idle_filter:
  "purge_idle now limit xs n =
     (let kept = filter (\<lambda>(t, s). \<not> limit \<le> tick_sub now t) xs in (kept, n + of_nat (length kept)))"
  by (induction xs arbitrary: n) (auto simp: Let_def)

text \<open>On a list in the order of its times the purge removes a prefix.\<close>

lemma sorted_split:
  assumes "sorted (map fst xs)" and "\<forall>(t, s) \<in> set xs. 0 \<le> t \<and> t \<le> now" and "now \<le> tick_max"
  shows "filter (\<lambda>(t, s). limit \<le> tick_sub now t) xs @ filter (\<lambda>(t, s). \<not> limit \<le> tick_sub now t) xs = xs"
  using assms
proof (induction xs)
  case (Cons x xs)
  obtain t s where x: "x = (t, s)" by (cases x)
  have sub: "tick_sub now t' = now - t'" if "0 \<le> t'" "t' \<le> now" for t'
    using that Cons.prems(3) by (intro tick_sub_exact) (auto simp: representable_def tick_min_def)
  show ?case
  proof (cases "limit \<le> tick_sub now t")
    case False
    have "\<not> limit \<le> tick_sub now t'" if "(t', s') \<in> set xs" for t' s'
    proof -
      have "t \<le> t'" "0 \<le> t'" "t' \<le> now" "0 \<le> t" "t \<le> now"
        using Cons.prems(1,2) that x by fastforce+
      with False show ?thesis by (simp add: sub)
    qed
    then have "filter (\<lambda>(t, s). limit \<le> tick_sub now t) xs = []"
      and "filter (\<lambda>(t, s). \<not> limit \<le> tick_sub now t) xs = xs"
      by (auto simp: filter_empty_conv filter_id_conv)
    with False x show ?thesis by simp
  qed (use Cons x in simp)
qed simp

section \<open>Invariants of the machine\<close>

text \<open>The sessions that entered the list and those that left it, in the order of the events.\<close>

fun entered :: "'s pool_label list \<Rightarrow> 's list" where
  "entered [] = []"
| "entered (Returned x # ls) = x # entered ls"
| "entered (Opened x # ls) = x # entered ls"
| "entered (l # ls) = entered ls"

fun departed :: "'s pool_label list \<Rightarrow> 's list" where
  "departed [] = []"
| "departed (Took x # ls) = x # departed ls"
| "departed (Evicted xs # ls) = xs @ departed ls"
| "departed (l # ls) = departed ls"

fun taken :: "'s pool_label list \<Rightarrow> 's list" where
  "taken [] = []"
| "taken (Took x # ls) = x # taken ls"
| "taken (l # ls) = taken ls"

fun returns :: "'s pool_label list \<Rightarrow> nat" where
  "returns [] = 0"
| "returns (Returned x # ls) = Suc (returns ls)"
| "returns (l # ls) = returns ls"

lemma entered_append [simp]: "entered (ls @ ls') = entered ls @ entered ls'"
  by (induction ls rule: entered.induct) simp_all

lemma departed_append [simp]: "departed (ls @ ls') = departed ls @ departed ls'"
  by (induction ls rule: departed.induct) simp_all

lemma taken_append [simp]: "taken (ls @ ls') = taken ls @ taken ls'"
  by (induction ls rule: taken.induct) simp_all

lemma returns_append [simp]: "returns (ls @ ls') = returns ls + returns ls'"
  by (induction ls rule: returns.induct) simp_all

lemma taken_departed: "mset (taken ls) \<subseteq># mset (departed ls)"
  by (induction ls rule: departed.induct) (auto intro: subset_mset.add_increasing)

lemma taken_distinct: "distinct (departed ls) \<Longrightarrow> distinct (taken ls)"
  using mset_subset_eqD [OF taken_departed]
  by (induction ls rule: departed.induct) (fastforce simp: set_mset_mset [symmetric] simp del: set_mset_mset)+

definition sessions :: "('ep, 's) pool \<Rightarrow> 's list" where
  "sessions p = map snd (sesson_pool p)"

definition fifo_inv :: "'s pool_label list \<Rightarrow> ('ep, 's) pool_state \<Rightarrow> bool" where
  "fifo_inv ls s \<longleftrightarrow>
     entered ls = departed ls @ sessions (the_pool s) \<and> clock s \<le> tick_max \<and>
     sorted (map fst (sesson_pool (the_pool s))) \<and>
     (\<forall>(t, x) \<in> set (sesson_pool (the_pool s)). 0 \<le> t \<and> t \<le> clock s) \<and> 0 \<le> clock s"

lemma fifo_inv_return:
  assumes "fifo_inv ls s"
  shows "fifo_inv (ls @ [if accepted session_open locked x then Returned x else Lost x])
      (s\<lparr>the_pool := return_session session_open locked (clock s) (Some x) (the_pool s)\<rparr>)"
    and "fifo_inv (ls @ [if accepted session_open locked x then Opened x else Lost x])
      (s\<lparr>the_pool := return_session session_open locked (clock s) (Some x) (the_pool s), watcher := w\<rparr>)"
  using assms by (auto simp: fifo_inv_def sessions_def return_session_def accepted_def sorted_append)

lemma fifo_inv_pop:
  assumes "fifo_inv ls s" and "sesson_pool (the_pool s) = (t, x) # rest"
  shows "fifo_inv (ls @ [Took x]) (s\<lparr>the_pool := (the_pool s)\<lparr>sesson_pool := rest\<rparr>\<rparr>)"
  using assms by (auto simp: fifo_inv_def sessions_def)

lemma fifo_inv_purge:
  fixes s :: "('ep, 's) pool_state"
  assumes inv: "fifo_inv ls s" and "purge (clock s) (the_pool s) = (v, p)"
  shows "fifo_inv (ls @ [Evicted (map snd (filter (\<lambda>(t, x). idle_timeout (the_pool s) \<le> tick_sub (clock s) t)
      (sesson_pool (the_pool s))))]) (s\<lparr>the_pool := p, watcher := w\<rparr>)"
proof -
  let ?xs = "sesson_pool (the_pool s)"
  let ?old = "\<lambda>(t, x :: 's). idle_timeout (the_pool s) \<le> tick_sub (clock s) t"
  have p: "sesson_pool p = filter (\<lambda>(t, x). \<not> idle_timeout (the_pool s) \<le> tick_sub (clock s) t) ?xs"
    using assms(2) by (auto simp: purge_def purge_idle_filter Let_def)
  have "filter ?old ?xs @ sesson_pool p = ?xs"
    using inv unfolding p by (intro sorted_split) (auto simp: fifo_inv_def)
  then have "map snd (filter ?old ?xs) @ sessions p = sessions (the_pool s)"
    unfolding sessions_def by (metis map_append)
  moreover have "sorted (map fst (sesson_pool p))" "set (sesson_pool p) \<subseteq> set ?xs"
    using inv by (auto simp: p fifo_inv_def intro: sorted_filter)
  ultimately show ?thesis using inv by (auto simp: fifo_inv_def)
qed

lemma take_cases:
  assumes "get_session locked ec p = ((Some x, ec'), q) \<or> try_get_session locked ec p = ((Some x, ec'), q)"
  obtains t rest where "sesson_pool p = (t, x) # rest" "q = p\<lparr>sesson_pool := rest\<rparr>"
  using assms by (auto simp: pool_defs split: if_splits list.splits)

lemma take_fails:
  "get_session locked ec p = ((None, ec'), q) \<Longrightarrow> q = p"
  "try_get_session locked ec p = ((None, ec'), q) \<Longrightarrow> q = p"
  by (auto simp: pool_defs split: if_splits list.splits)

lemma fifo_inv_step:
  assumes "pool_step session_open attempts l s t" and inv: "fifo_inv ls s"
  shows "fifo_inv (ls @ [l]) t"
  using assms(1)
proof cases
  case (p_get locked ec x ec' p)
  with take_cases [of locked ec "the_pool s" x ec' p] show ?thesis
    using fifo_inv_pop [OF inv] by metis
next
  case (p_try_get locked ec x ec' p)
  with take_cases [of locked ec "the_pool s" x ec' p] show ?thesis
    using fifo_inv_pop [OF inv] by metis
next
  case (p_get_fails locked ec ec' p)
  with inv show ?thesis by (auto dest!: take_fails simp: fifo_inv_def)
next
  case (p_try_get_fails locked ec ec' p)
  with inv show ?thesis by (auto dest!: take_fails simp: fifo_inv_def)
next
  case (w_purge v p)
  with fifo_inv_purge [OF inv] show ?thesis by simp
next
  case (p_return locked x)
  with fifo_inv_return(1) [OF inv] show ?thesis by simp
next
  case (w_add n locked x)
  with fifo_inv_return(2) [OF inv] show ?thesis by simp
qed (use inv in \<open>auto simp: fifo_inv_def sessions_def return_session_def pool_dtor_def\<close>)

lemma fifo_inv_run:
  assumes "pool_run session_open attempts ls (pool_init n limit c t0) s" and "0 \<le> t0" and "t0 \<le> tick_max"
  shows "fifo_inv ls s"
proof (rule pool_runs.run_invariant [OF assms(1)])
  show "fifo_inv [] (pool_init n limit c t0)"
    using assms(2,3) by (simp add: fifo_inv_def pool_init_def pool_ctor_def sessions_def)
qed (rule fifo_inv_step)

text \<open>
  The watcher never overfills the pool: the list and the sessions still to come exceed the maximal
  size by no more than the sessions that clients have returned.
\<close>

fun pending :: "watcher_pc \<Rightarrow> nat" where
  "pending (W_refill v) = unat v"
| "pending (W_fill n) = n"
| "pending _ = 0"

definition size_inv :: "64 word \<Rightarrow> 's pool_label list \<Rightarrow> ('ep, 's) pool_state \<Rightarrow> bool" where
  "size_inv n ls s \<longleftrightarrow> pool_max_size (the_pool s) = n \<and>
     (unat n + returns ls < 2 ^ 64 \<longrightarrow>
        length (sesson_pool (the_pool s)) + pending (watcher s) \<le> unat n + returns ls)"

lemma vacant_places_unat:
  assumes "m < 2 ^ 64"
  shows "unat (vacant_places n (of_nat m)) = unat n - m"
proof -
  have "unat (of_nat m :: 64 word) = m" using assms by (simp add: unat_of_nat take_bit_nat_eq_self)
  then show ?thesis
    by (auto simp: vacant_places_def word_less_nat_alt unat_sub word_le_nat_alt)
qed

lemma purge_pool:
  assumes "purge now p = (v, q)"
  shows "sesson_pool q = filter (\<lambda>(t, x). \<not> idle_timeout p \<le> tick_sub now t) (sesson_pool p)"
    and "v = vacant_places (pool_max_size p) (of_nat (length (sesson_pool q)))"
    and "pool_max_size q = pool_max_size p" "idle_timeout q = idle_timeout p"
    and "pool_connector q = pool_connector p" "watch_pool q = watch_pool p"
  using assms by (auto simp: purge_def purge_idle_filter Let_def)

text \<open>
  What one step does to the size: the list together with the connects still under way shrinks by one
  when a client takes a session, grows by one when a client returns one, and otherwise does not grow
  beyond the maximal size.
\<close>

definition filling :: "('ep, 's) pool_state \<Rightarrow> nat" where
  "filling s = length (sesson_pool (the_pool s)) + pending (watcher s)"

definition size_change :: "64 word \<Rightarrow> 's pool_label \<Rightarrow> nat \<Rightarrow> nat \<Rightarrow> bool" where
  "size_change n l m m' \<longleftrightarrow>
     (case l of Took x \<Rightarrow> Suc m' = m | Returned x \<Rightarrow> m' = Suc m | _ \<Rightarrow> m' \<le> m \<or> m' \<le> unat n)"

lemma size_purge:
  assumes "purge now (the_pool s) = (v, p)" and "length (sesson_pool (the_pool s)) < 2 ^ 64"
  shows "filling (s\<lparr>the_pool := p, watcher := W_refill v\<rparr>) \<le> max (filling s) (unat (pool_max_size (the_pool s)))"
proof -
  note p = purge_pool [OF assms(1)]
  have "length (sesson_pool p) \<le> length (sesson_pool (the_pool s))" by (simp add: p(1))
  with assms(2) p(2) vacant_places_unat [of "length (sesson_pool p)" "pool_max_size (the_pool s)"]
  show ?thesis by (simp add: filling_def)
qed

lemma pool_step_max:
  assumes "pool_step session_open attempts l s t"
  shows "pool_max_size (the_pool t) = pool_max_size (the_pool s)"
  using assms
proof cases
  case (w_purge v p)
  with purge_pool(3) show ?thesis by simp
qed (auto dest!: take_fails simp: pool_defs split: if_splits list.splits)

lemma pool_step_size:
  assumes "pool_step session_open attempts l s t" and "\<And>v m. attempts v m \<Longrightarrow> m \<le> unat v"
    and "length (sesson_pool (the_pool s)) < 2 ^ 64"
  shows "size_change (pool_max_size (the_pool s)) l (filling s) (filling t)"
  using assms(1)
proof cases
  case (p_get locked ec x ec' p)
  with take_cases [of locked ec "the_pool s" x ec' p] show ?thesis by (fastforce simp: size_change_def filling_def)
next
  case (p_try_get locked ec x ec' p)
  with take_cases [of locked ec "the_pool s" x ec' p] show ?thesis by (fastforce simp: size_change_def filling_def)
next
  case (w_purge v p)
  with size_purge [OF w_purge(5) assms(3)] show ?thesis
    by (auto simp: size_change_def max_def split: if_splits)
next
  case (w_refill v m)
  with assms(2) [of v m] show ?thesis by (auto simp: size_change_def filling_def)
qed (auto dest!: take_fails simp: size_change_def filling_def return_session_def accepted_def pool_dtor_def split: if_splits)

lemma size_inv_step:
  assumes "pool_step session_open attempts l s t" and inv: "size_inv n ls s"
    and bound: "\<And>v m. attempts v m \<Longrightarrow> m \<le> unat v"
  shows "size_inv n (ls @ [l]) t"
proof (cases "unat n + returns (ls @ [l]) < 2 ^ 64")
  case True
  then have "length (sesson_pool (the_pool s)) < 2 ^ 64" using inv by (simp add: size_inv_def)
  from pool_step_size [OF assms(1) bound this] pool_step_max [OF assms(1)] True inv show ?thesis
    by (cases l) (auto simp: size_inv_def size_change_def filling_def)
next
  case False
  then show ?thesis using pool_step_max [OF assms(1)] inv by (simp add: size_inv_def)
qed

lemma size_inv_run:
  assumes "pool_run session_open attempts ls (pool_init n limit c t0) s"
    and "\<And>v m. attempts v m \<Longrightarrow> m \<le> unat v"
  shows "size_inv n ls s"
proof (rule pool_runs.run_invariant [OF assms(1)])
  show "size_inv n [] (pool_init n limit c t0)" by (simp add: size_inv_def pool_init_def pool_ctor_def)
qed (use assms(2) in \<open>blast intro: size_inv_step\<close>)

section \<open>The watcher with a strategy\<close>

lemma return_frame [simp]:
  "pool_max_size (return_session session_open locked now x p) = pool_max_size p"
  "idle_timeout (return_session session_open locked now x p) = idle_timeout p"
  "watch_pool (return_session session_open locked now x p) = watch_pool p"
  by (simp_all add: return_session_def split: option.split)

definition kept :: "tick \<Rightarrow> ('ep, 's) pool \<Rightarrow> (tick \<times> 's) list" where
  "kept now p = filter (\<lambda>(t, x). \<not> idle_timeout p \<le> tick_sub now t) (sesson_pool p)"

text \<open>
  What a round promises with any strategy that keeps the contract: it does not die, keeps the
  sessions that are not idle for too long in their order, adds behind them only, and never lifts
  the list above the larger of its length and the maximal size.
\<close>

definition round_ok :: "tick \<Rightarrow> ('ep, 's) pool \<Rightarrow> round_end \<times> 'st \<times> ('ep, 's) pool \<Rightarrow> bool" where
  "round_ok now p result \<longleftrightarrow>
     (case result of (r, st', q) \<Rightarrow>
        (\<exists>b. r = Next b) \<and> prefix (kept now p) (sesson_pool q) \<and>
        length (sesson_pool q) \<le> max (unat (pool_max_size p)) (length (kept now p)) \<and>
        pool_max_size q = pool_max_size p \<and> idle_timeout q = idle_timeout p)"

lemma purge_vacant_ok:
  assumes "purge now p = (v, q)" and "length (sesson_pool p) < 2 ^ 64" and "unat (pool_max_size p) \<le> 2 ^ 60"
  shows "length (sesson_pool q) < 2 ^ 64" and "v \<noteq> 0 \<Longrightarrow> vacant_ok v"
proof -
  show small: "length (sesson_pool q) < 2 ^ 64"
    using assms(2) unfolding purge_pool(1) [OF assms(1)] by (rule le_less_trans [OF length_filter_le])
  have "unat v \<le> unat (pool_max_size p)"
    using purge_pool(2) [OF assms(1)] vacant_places_unat [OF small, of "pool_max_size p"] by simp
  with assms(3) show "vacant_ok v" if "v \<noteq> 0" using that by (simp add: vacant_ok_def word_gt_0)
qed

locale watched_pool = pool_strategy refill attempts state_ok
  for refill :: "('s \<Rightarrow> ('ep, 's) pool \<Rightarrow> ('ep, 's) pool) \<Rightarrow> (nat \<Rightarrow> exn + 's) \<Rightarrow> 'e \<Rightarrow> 64 word \<Rightarrow> 'st
      \<Rightarrow> ('ep, 's) pool \<Rightarrow> refill_outcome \<times> 'st \<times> ('ep, 's) pool"
    and attempts :: "'e \<Rightarrow> 64 word \<Rightarrow> 'st \<Rightarrow> nat" and state_ok :: "'st \<Rightarrow> bool"
begin

lemma refilled_round:
  assumes st: "state_ok st" and v: "vacant_ok v" and quiet: "\<And>i. \<not> escapes (ns i)"
    and q: "purge now p = (v, q)" and small: "length (sesson_pool p) < 2 ^ 64"
  shows "\<exists>b st' q'. refill (\<lambda>s. return_session session_open (locks s) now' (Some s)) ns e v st q = (Returns b, st', q') \<and>
    state_ok st' \<and> prefix (kept now p) (sesson_pool q') \<and>
    length (sesson_pool q') \<le> unat (pool_max_size p) \<and> pool_max_size q' = pool_max_size p \<and> idle_timeout q' = idle_timeout p"
proof -
  let ?app = "\<lambda>s. return_session session_open (locks s) now' (Some s)"
  obtain b st' q' where r: "refill ?app ns e v st q = (Returns b, st', q')" "state_ok st'"
    using refill_quiet [OF v st, of e ns ?app q] quiet by blast
  have k: "sesson_pool q = kept now p" and eq: "pool_max_size q = pool_max_size p" "idle_timeout q = idle_timeout p"
    using purge_pool [OF q] by (simp_all add: kept_def)
  let ?P = "\<lambda>x. prefix (kept now p) (sesson_pool x) \<and> pool_max_size x = pool_max_size p \<and> idle_timeout x = idle_timeout p"
  have "?P q'"
    by (rule refill_invariant [OF v st _ _ _ r(1)]) (use quiet in \<open>auto simp: k eq return_session_def\<close>)
  moreover have "length (sesson_pool q') \<le> length (sesson_pool q) + unat v"
    by (rule refill_bound [OF v st _ _ r(1), where len = "\<lambda>x. length (sesson_pool x)"])
      (use quiet in \<open>auto simp: return_session_def\<close>)
  moreover have "length (sesson_pool q) + unat v \<le> unat (pool_max_size p)"
  proof -
    have "length (sesson_pool q) < 2 ^ 64"
      using small unfolding k kept_def by (rule le_less_trans [OF length_filter_le])
    from vacant_places_unat [OF this, of "pool_max_size p"] v show ?thesis
      using purge_pool(2) [OF q] by (simp add: vacant_ok_def word_less_nat_alt)
  qed
  ultimately show ?thesis using r by auto
qed

lemma round_keeps:
  assumes "state_ok st" and "\<And>i. \<not> escapes (ns i)" and "watch_pool p"
    and "length (sesson_pool p) < 2 ^ 64" and "unat (pool_max_size p) \<le> 2 ^ 60"
  shows "round_ok now p (watch_round (\<lambda>app. refill app ns e) session_open True locks now now' st p)"
proof -
  obtain v q where q: "purge now p = (v, q)" by (cases "purge now p")
  have k: "sesson_pool q = kept now p" using purge_pool(1) [OF q] by (simp add: kept_def)
  show ?thesis
  proof (cases "v = 0")
    case True
    with q assms(3) show ?thesis
      by (auto simp: watch_round_def round_ok_def k purge_pool(3,4) [OF q])
  next
    case False
    have "vacant_ok v" using purge_vacant_ok(2) [OF q assms(4,5) False] .
    from refilled_round [where session_open = session_open and locks = locks and now' = now' and e = e
        and ns = ns, OF assms(1) this assms(2) q assms(4)]
    show ?thesis using q assms(3) False by (auto simp: watch_round_def round_ok_def)
  qed
qed

end

interpretation greedy_pool: watched_pool greedy_call "\<lambda>e v st. unat v" "\<lambda>st. True" ..

interpretation conservative_pool:
  watched_pool conservative_call "\<lambda>(t0, t1, g) v st. conservative_attempts t0 v st" backoff_ok ..

section \<open>Properties\<close>

text \<open>
  C5. The pool is a first-in first-out queue under every interleaving of clients and watcher: what
  has entered the list is, in order, what has left it (handed to a client or evicted) followed by
  what is still in it. No session is lost inside the pool, duplicated or overtaken.
\<close>

theorem pool_is_fifo:
  assumes "pool_run session_open attempts ls (pool_init n limit c t0) s" and "0 \<le> t0" and "t0 \<le> tick_max"
  shows "entered ls = departed ls @ sessions (the_pool s)"
  using fifo_inv_run [OF assms] by (simp add: fifo_inv_def)

definition sample_connector :: "nat connector" where
  "sample_connector = connector_ctor ''localhost'' ''6666'' 500000000 100000000 100000000"

definition one_per_place :: "64 word \<Rightarrow> nat \<Rightarrow> bool" where
  "one_per_place v n \<longleftrightarrow> n = unat v"

definition sample_start :: "(nat, nat) pool_state" where
  "sample_start = pool_init 2 1000 sample_connector 5"

definition sample_filled :: "(nat, nat) pool_state" where
  "sample_filled = sample_start\<lparr>the_pool := (the_pool sample_start)\<lparr>sesson_pool := [(5, 7), (5, 8)]\<rparr>, watcher := W_fill 0\<rparr>"

definition sample_taken :: "(nat, nat) pool_state" where
  "sample_taken = sample_filled\<lparr>the_pool := (the_pool sample_start)\<lparr>sesson_pool := [(5, 8)]\<rparr>\<rparr>"

lemma sample_pool_run:
  "pool_run (\<lambda>_. True) one_per_place [Evicted [], Silent, Opened 7, Opened 8, Took 7] sample_start sample_taken"
proof -
  let ?s = sample_start
  let ?run = "pool_run (\<lambda>_. True) one_per_place"
  have 1: "pool_step (\<lambda>_. True) one_per_place (Evicted []) ?s (?s\<lparr>watcher := W_refill 2\<rparr>)"
    using w_purge [of ?s 2 "the_pool ?s" "\<lambda>_. True" one_per_place]
    by (simp add: sample_start_def pool_init_def pool_ctor_def purge_def vacant_places_def)
  have 2: "pool_step (\<lambda>_. True) one_per_place Silent (?s\<lparr>watcher := W_refill 2\<rparr>) (?s\<lparr>watcher := W_fill 2\<rparr>)"
    using w_refill [of "?s\<lparr>watcher := W_refill 2\<rparr>" 2 one_per_place 2] by (simp add: one_per_place_def)
  have 3: "pool_step (\<lambda>_. True) one_per_place (Opened 7) (?s\<lparr>watcher := W_fill 2\<rparr>)
      (?s\<lparr>the_pool := (the_pool ?s)\<lparr>sesson_pool := [(5, 7)]\<rparr>, watcher := W_fill 1\<rparr>)"
    using w_add [of "?s\<lparr>watcher := W_fill 2\<rparr>" 1 "\<lambda>_. True" one_per_place True 7]
    by (simp add: accepted_def return_session_def sample_start_def pool_init_def pool_ctor_def numeral_2_eq_2)
  have 4: "pool_step (\<lambda>_. True) one_per_place (Opened 8)
      (?s\<lparr>the_pool := (the_pool ?s)\<lparr>sesson_pool := [(5, 7)]\<rparr>, watcher := W_fill 1\<rparr>) sample_filled"
    using w_add [of "?s\<lparr>the_pool := (the_pool ?s)\<lparr>sesson_pool := [(5, 7)]\<rparr>, watcher := W_fill 1\<rparr>" 0
        "\<lambda>_. True" one_per_place True 8]
    by (simp add: accepted_def return_session_def sample_filled_def sample_start_def pool_init_def pool_ctor_def)
  have 5: "pool_step (\<lambda>_. True) one_per_place (Took 7) sample_filled sample_taken"
    using p_get [of True Success sample_filled 7 Success "(the_pool ?s)\<lparr>sesson_pool := [(5, 8)]\<rparr>"]
    by (simp add: sample_taken_def sample_filled_def pool_defs)
  show ?thesis
    using pool_snoc [OF pool_snoc [OF pool_snoc [OF pool_snoc [OF pool_snoc [OF pool_nil 1] 2] 3] 4] 5] by simp
qed

theorem pool_is_fifo_witness:
  "entered [Evicted [], Silent, Opened 7, Opened 8, Took (7 :: nat)] = [7] @ sessions (the_pool sample_taken)"
  using pool_is_fifo [OF sample_pool_run [unfolded sample_start_def]] by (simp add: tick_max_def)

text \<open>
  No session is handed out twice: the sessions the clients have taken together with those still
  in the pool occur, with multiplicity, among those that were put in. If every session that
  entered was a different one, the ones taken are different and none of them is in the pool.
\<close>

theorem no_double_handout:
  assumes "pool_run session_open attempts ls (pool_init n limit c t0) s" and "0 \<le> t0" and "t0 \<le> tick_max"
  shows "mset (taken ls) + mset (sessions (the_pool s)) \<subseteq># mset (entered ls) \<and>
    (distinct (entered ls) \<longrightarrow> distinct (taken ls) \<and> set (taken ls) \<inter> set (sessions (the_pool s)) = {})"
proof
  have fifo: "entered ls = departed ls @ sessions (the_pool s)"
    using fifo_inv_run [OF assms] by (simp add: fifo_inv_def)
  with taken_departed [of ls] show "mset (taken ls) + mset (sessions (the_pool s)) \<subseteq># mset (entered ls)" by simp
  have "set (taken ls) \<subseteq> set (departed ls)"
    using set_mset_mono [OF taken_departed [of ls]] by simp
  with fifo show "distinct (entered ls) \<longrightarrow> distinct (taken ls) \<and> set (taken ls) \<inter> set (sessions (the_pool s)) = {}"
    using taken_distinct [of ls] by auto
qed

theorem no_double_handout_witness:
  "mset (taken [Evicted [], Silent, Opened 7, Opened 8, Took (7 :: nat)]) + mset (sessions (the_pool sample_taken))
     \<subseteq># {#7, 8#} \<and> set (sessions (the_pool sample_taken)) \<inter> {7} = {}"
  using no_double_handout [OF sample_pool_run [unfolded sample_start_def]]
  by (auto simp: tick_max_def add_mset_commute)

text \<open>
  The watcher never overfills the pool: with a strategy that makes at most one connect per
  vacant place, the list and the connects still under way exceed the maximal size by at most the
  number of sessions the clients have returned, as long as that sum fits the size type.
\<close>

theorem pool_size_bounded:
  assumes "pool_run session_open attempts ls (pool_init n limit c t0) s"
    and "\<forall>v m. attempts v m \<longrightarrow> m \<le> unat v" and "unat n + returns ls < 2 ^ 64"
  shows "length (sesson_pool (the_pool s)) + pending (watcher s) \<le> unat n + returns ls"
  using size_inv_run [OF assms(1)] assms(2,3) by (simp add: size_inv_def)

theorem pool_size_bounded_witness: "length (sesson_pool (the_pool sample_taken)) \<le> 2"
proof -
  have "\<forall>v m. one_per_place v m \<longrightarrow> m \<le> unat v" by (simp add: one_per_place_def)
  from pool_size_bounded [OF sample_pool_run [unfolded sample_start_def] this] show ?thesis by simp
qed

text \<open>
  A purge on times the clock has shown removes exactly the sessions that have been in the pool
  for the idle timeout or longer and counts the vacant places exactly.
\<close>

theorem purge_removes_idle:
  assumes "\<forall>(t, x) \<in> set (sesson_pool p). 0 \<le> t \<and> t \<le> now" and "now \<le> tick_max"
    and "length (sesson_pool p) < 2 ^ 64" and "purge now p = (v, q)"
  shows "sesson_pool q = filter (\<lambda>(t, x). now - t < idle_timeout p) (sesson_pool p) \<and>
    unat v = unat (pool_max_size p) - length (sesson_pool q)"
proof
  note q = purge_pool [OF assms(4)]
  have "tick_sub now t = now - t" if "(t, x) \<in> set (sesson_pool p)" for t x
    using assms(1,2) that by (intro tick_sub_exact) (auto simp: representable_def tick_min_def)
  then show "sesson_pool q = filter (\<lambda>(t, x). now - t < idle_timeout p) (sesson_pool p)"
    unfolding q(1) by (intro filter_cong) auto
  have "length (sesson_pool q) < 2 ^ 64"
    using assms(3) unfolding q(1) by (rule le_less_trans [OF length_filter_le])
  then show "unat v = unat (pool_max_size p) - length (sesson_pool q)"
    unfolding q(2) by (rule vacant_places_unat)
qed

definition sample_pool :: "(nat, nat) pool" where
  "sample_pool = (pool_ctor 4 1000 sample_connector)\<lparr>sesson_pool := [(0, 1), (400, 2), (900, 3)]\<rparr>"

theorem purge_removes_idle_witness:
  "map snd (sesson_pool (snd (purge 1400 sample_pool))) = [3] \<and> unat (fst (purge 1400 sample_pool)) = 3"
proof -
  obtain v q where q: "purge 1400 sample_pool = (v, q)" by (cases "purge 1400 sample_pool")
  have "sesson_pool q = [(900, 3)] \<and> unat v = 3"
    using purge_removes_idle [OF _ _ _ q] by (simp add: sample_pool_def pool_ctor_def tick_max_def)
  then show ?thesis by (simp add: q)
qed

text \<open>
  Pulling a session, on every branch, waiting or not: without the lock \<open>timed_out\<close>, from an empty
  list \<open>not_found\<close>, both with a null session and an untouched pool; otherwise the oldest session
  and its removal, with the caller's code unchanged.
\<close>

theorem pull_outcome:
  "get_session locked ec p =
     (if \<not> locked then ((None, Timed_out), p)
      else case sesson_pool p of
          [] \<Rightarrow> ((None, Not_found), p)
        | (t, x) # rest \<Rightarrow> ((Some x, ec), p\<lparr>sesson_pool := rest\<rparr>)) \<and>
   try_get_session locked ec p = get_session locked ec p \<and>
   is_connected locked ec p = (locked \<and> sesson_pool p \<noteq> [], snd (fst (get_session locked ec p)))"
  by (auto simp: pool_defs is_connected_def split: list.split)

text \<open>
  The throwing overloads of \<open>get_session\<close> never hand out a null session: they return the oldest
  session exactly when the lock was acquired before the deadline and the list was not empty, and
  otherwise throw a \<open>system_error\<close> that names the target.
\<close>

theorem get_session_throws:
  "get_session_throw locks now arg p =
     (if \<not> locks (deadline_of now arg) then (Inl (System_error Timed_out (pool_failure p)), p)
      else case sesson_pool p of
          [] \<Rightarrow> (Inl (System_error Not_found (pool_failure p)), p)
        | (t, x) # rest \<Rightarrow> (Inr x, p\<lparr>sesson_pool := rest\<rparr>))"
  by (auto simp: get_session_throw_def get_session_until_def pool_defs split: list.split)

text \<open>
  Returning a session and pulling one: an open session returned to an empty pool is the one the
  next pull gets, and the pool is as before; behind other sessions it goes to the end.
\<close>

theorem return_then_get:
  assumes "session_open x"
  shows "get_session True ec (return_session session_open True now (Some x) p) =
    (case sesson_pool p of
       [] \<Rightarrow> ((Some x, ec), p)
     | (t, y) # rest \<Rightarrow> ((Some y, ec), p\<lparr>sesson_pool := rest @ [(now, x)]\<rparr>))"
  using assms by (auto simp: pool_defs split: list.split)

theorem return_then_get_witness:
  "fst (get_session True Success (return_session even True 2000 (Some 8) sample_pool)) = (Some 1, Success)"
  using return_then_get [of even 8 Success 2000 sample_pool] by (simp add: sample_pool_def)

text \<open>
  A round of the watcher, with either strategy and whatever the connects give: it does not end the
  thread, keeps the sessions that are not idle for too long in front and in order, and never lifts
  the list above the larger of its length and the maximal size.
\<close>

theorem rounds_safe:
  assumes "\<forall>i. \<not> escapes (ns i)" and "watch_pool p" and "length (sesson_pool p) < 2 ^ 64"
    and "unat (pool_max_size p) \<le> 2 ^ 60" and "backoff_ok st"
  shows "round_ok now p (watch_round (\<lambda>app. greedy_call app ns ()) session_open True locks now now' () p) \<and>
    round_ok now p (watch_round (\<lambda>app. conservative_call app ns e) session_open True locks now now' st p)"
  by (intro conjI greedy_pool.round_keeps conservative_pool.round_keeps) (use assms in simp_all)

theorem rounds_safe_witness:
  "round_ok 1400 sample_pool
     (watch_round (\<lambda>app. greedy_call app sample_calls ()) even True (\<lambda>_. True) 1400 1500 () sample_pool) \<and>
   round_ok 1400 sample_pool
     (watch_round (\<lambda>app. conservative_call app sample_calls (1400, 1600, 5)) even True (\<lambda>_. True) 1400 1500
        sample_strategy sample_pool)"
  using rounds_safe [of sample_calls sample_pool sample_strategy]
  by (simp add: sample_pool_def pool_ctor_def sample_strategy_def backoff_ok_def kMaxBackoffMs_def)

text \<open>The appends of a list of sessions: those that are open and get the lock go to the end, in order.\<close>

lemma fold_return_session:
  "fold (\<lambda>s. return_session session_open (locks s) now (Some s)) xs p =
     p\<lparr>sesson_pool := sesson_pool p @ map (Pair now) (filter (\<lambda>x. session_open x \<and> locks x) xs)\<rparr>"
  by (induction xs arbitrary: p) (simp_all add: return_session_def)

lemma sessions_all_appended:
  "length (filter P (sessions_of rs)) = length rs \<longleftrightarrow> (\<forall>r \<in> set rs. \<exists>x. r = Inr x \<and> P x)"
proof -
  have "length (filter P (sessions_of rs)) = length (filter (\<lambda>r. \<not> isl r \<and> P (projr r)) rs)"
    by (induction rs) (simp_all add: sessions_of_def)
  moreover have "length (filter Q rs) = length rs \<longleftrightarrow> (\<forall>r \<in> set rs. Q r)" for Q :: "exn + 'a \<Rightarrow> bool"
    by (metis filter_True length_filter_less nat_less_le)
  moreover have "\<not> isl r \<and> P (projr r) \<longleftrightarrow> (\<exists>x. r = Inr x \<and> P x)" for r :: "exn + 'a" by (cases r) auto
  ultimately show ?thesis by simp
qed

text \<open>
  C32. One round of the watcher with the greedy strategy that gets the lock, while no client touches the pool:
  the sessions that are not idle for too long stay in front, and behind them come, in the order in which the
  connects for the vacant places come back, the open sessions whose append gets the lock within its
  millisecond; a session whose append does not get it is dropped. So the list has the maximal size (or the
  length it had, when it was longer already) exactly when every connect gives an open session and every append
  gets the lock. The watcher sleeps next only when there was no vacant place.
\<close>

theorem greedy_round_fills:
  assumes "\<forall>i. \<not> escapes (ns i)" and "watch_pool p" and "length (sesson_pool p) < 2 ^ 64"
    and "vacant = unat (pool_max_size p) - length (kept now p)"
  shows "\<exists>q. watch_round (\<lambda>app. greedy_call app ns ()) session_open True locks now now' () p = (Next (vacant = 0), (), q) \<and>
    sesson_pool q = kept now p @
      map (Pair now') (filter (\<lambda>x. session_open x \<and> locks x) (sessions_of (map ns [0..<vacant]))) \<and>
    (length (sesson_pool q) = max (unat (pool_max_size p)) (length (kept now p)) \<longleftrightarrow>
      (\<forall>i < vacant. \<exists>x. ns i = Inr x \<and> session_open x \<and> locks x))"
proof -
  let ?app = "\<lambda>s. return_session session_open (locks s) now' (Some s)"
  let ?in = "\<lambda>x. session_open x \<and> locks x"
  obtain v q where q: "purge now p = (v, q)" by (cases "purge now p")
  have k: "sesson_pool q = kept now p" using purge_pool(1) [OF q] by (simp add: kept_def)
  have "length (sesson_pool q) < 2 ^ 64"
    using assms(3) unfolding k kept_def by (rule le_less_trans [OF length_filter_le])
  then have v: "unat v = vacant"
    using purge_pool(2) [OF q] vacant_places_unat by (simp add: k assms(4))
  then have v0: "v = 0 \<longleftrightarrow> vacant = 0" by (metis unat_eq_0)
  let ?new = "filter ?in (sessions_of (map ns [0..<vacant]))"
  have r: "greedy_refill ?app ns v q = (Returns (0 < v), q\<lparr>sesson_pool := kept now p @ map (Pair now') ?new\<rparr>)"
    using greedy_refill_quiet [of v ns ?app q] assms(1) by (simp add: fold_return_session k v)
  have "length (kept now p @ map (Pair now') ?new) = max (unat (pool_max_size p)) (length (kept now p)) \<longleftrightarrow>
      (\<forall>i < vacant. \<exists>x. ns i = Inr x \<and> session_open x \<and> locks x)"
    using sessions_all_appended [of ?in "map ns [0..<vacant]"] assms(4) by (auto simp: max_def)
  then show ?thesis
    using q assms(2) r v0 k
    by (auto simp: watch_round_def greedy_call_def word_gt_0 sessions_of_def)
qed

theorem greedy_round_fills_witness:
  "(\<exists>q. watch_round (\<lambda>app. greedy_call app (\<lambda>i. Inr (2 * i)) ()) even True (\<lambda>x. True) 1400 1500 () sample_pool =
       (Next False, (), q) \<and> map snd (sesson_pool q) = [3, 0, 2, 4]) \<and>
   (\<exists>q. watch_round (\<lambda>app. greedy_call app (\<lambda>i. Inr (2 * i)) ()) even True (\<lambda>x. x \<noteq> 2) 1400 1500 () sample_pool =
       (Next False, (), q) \<and> map snd (sesson_pool q) = [3, 0, 4])"
proof -
  have k: "kept 1400 sample_pool = [(900, 3)]" "unat (pool_max_size sample_pool) = 4"
    by (simp_all add: kept_def sample_pool_def pool_ctor_def tick_defs)
  have p: "watch_pool sample_pool" "length (sesson_pool sample_pool) < 2 ^ 64" "\<forall>i. \<not> escapes (Inr (2 * i) :: exn + nat)"
    by (simp_all add: sample_pool_def pool_ctor_def escapes_def)
  have n: "[0..<3] = [0, 1, 2 :: nat]" by (simp add: upt_rec)
  note round = greedy_round_fills [OF p(3,1,2), of 3 1400, unfolded k, simplified]
  show ?thesis
    using round [of even "\<lambda>x. True" 1500] round [of even "\<lambda>x. x \<noteq> 2" 1500] by (auto simp: n sessions_of_def)
qed

end
