(* ===== verification/Contracts.thy ===== *)
theory Contracts
  imports Dgram_Socket Ssl_Socket Resolver Connection_Pool
begin

text \<open>
  What the comments of the public headers promise, as predicates on the outcome of a call, and how far
  the code keeps it. The definitions are the abstract specifications of the member functions, taken
  from the text above their declarations; the theorems relate them to the models of the
  functions, and where the code does not keep a promise they say exactly when.
\<close>

section \<open>Shapes of promises\<close>

text \<open>
  \<open>all_or_error\<close>: \<^emph>\<open>all of the data has been written\<close> (or the buffers are full), or \<^emph>\<open>an error or timeout
  occurred\<close>. \<open>some_or_error\<close>: \<^emph>\<open>one or more bytes\<close> were moved, or an error occurred and 0 is returned.
  \<open>code_call\<close>: an overload with an \<open>error_code\<close> returns, without an exception; \<open>throwing_call\<close>: an overload
  without one returns or throws a \<open>system_error\<close> that carries an error.
\<close>

definition all_or_error :: "nat \<Rightarrow> error_code \<times> nat \<Rightarrow> bool" where
  "all_or_error len r = (case r of (ec, n) \<Rightarrow> is_error ec \<or> n = len)"

definition some_or_error :: "nat \<Rightarrow> error_code \<times> nat \<Rightarrow> bool" where
  "some_or_error len r = (case r of (ec, n) \<Rightarrow> if is_error ec then n = 0 else 0 < n \<and> n \<le> len)"

definition code_call :: "('r \<Rightarrow> bool) \<Rightarrow> ((exn + 'r) \<times> 's) option \<Rightarrow> bool" where
  "code_call ok res = (case res of Some (Inr r, s) \<Rightarrow> ok r | _ \<Rightarrow> False)"

definition throwing_call :: "('r \<Rightarrow> bool) \<Rightarrow> ((exn + 'r) \<times> 's) option \<Rightarrow> bool" where
  "throwing_call ok res =
     (case res of
        Some (Inr r, s) \<Rightarrow> ok r
      | Some (Inl (System_error ec what), s) \<Rightarrow> is_error ec
      | _ \<Rightarrow> False)"

section \<open>Streams\<close>

text \<open>Each predicate takes the size of the buffers and the outcomes of the two overloads.\<close>

type_synonym throwing_result = "((exn + nat) \<times> base_socket) option"

definition send_documented :: "nat \<Rightarrow> io_result \<Rightarrow> throwing_result \<Rightarrow> bool" where
  "send_documented len r r' \<longleftrightarrow> code_call (all_or_error len) r \<and> throwing_call (\<lambda>n. n = len) r'"

definition receive_documented :: "nat \<Rightarrow> io_result \<Rightarrow> throwing_result \<Rightarrow> bool" where
  "receive_documented len r r' \<longleftrightarrow> code_call (all_or_error len) r \<and> throwing_call (\<lambda>n. n = len) r'"

definition write_some_documented :: "nat \<Rightarrow> io_result \<Rightarrow> throwing_result \<Rightarrow> bool" where
  "write_some_documented len r r' \<longleftrightarrow>
     code_call (some_or_error len) r \<and> throwing_call (\<lambda>n. 0 < n \<and> n \<le> len) r'"

definition read_some_documented :: "nat \<Rightarrow> io_result \<Rightarrow> throwing_result \<Rightarrow> bool" where
  "read_some_documented len r r' \<longleftrightarrow>
     code_call (some_or_error len) r \<and> throwing_call (\<lambda>n. 0 < n \<and> n \<le> len) r'"

text \<open>The UDP client documents its calls in the words of the TCP client.\<close>

definition dgram_send_documented :: "nat \<Rightarrow> io_result \<Rightarrow> throwing_result \<Rightarrow> bool" where
  "dgram_send_documented len r r' \<longleftrightarrow> code_call (all_or_error len) r \<and> throwing_call (\<lambda>n. n = len) r'"

definition dgram_receive_documented :: "nat \<Rightarrow> io_result \<Rightarrow> throwing_result \<Rightarrow> bool" where
  "dgram_receive_documented len r r' \<longleftrightarrow> code_call (all_or_error len) r \<and> throwing_call (\<lambda>n. n = len) r'"

text \<open>
  The SSL stream: \<open>handshake\<close> returns the code it sets; of \<open>send\<close> the wire, and of \<open>receive\<close> the contents
  of the buffer, show whether the data itself was moved.
\<close>

definition handshake_documented ::
  "((exn + error_code \<times> error_code) \<times> base_socket) option \<Rightarrow> ((exn + unit) \<times> base_socket) option \<Rightarrow> bool" where
  "handshake_documented r r' \<longleftrightarrow> code_call (\<lambda>(ec, returned). returned = ec) r \<and> throwing_call (\<lambda>_. True) r'"

definition ssl_send_documented ::
  "byte list \<Rightarrow> ((exn + error_code \<times> 64 word) \<times> byte list \<times> base_socket) option \<Rightarrow> bool" where
  "ssl_send_documented buffers r =
     (case r of
        Some (Inr (ec, n), wire, s) \<Rightarrow> is_error ec \<or> n = of_nat (length buffers) \<and> wire = buffers
      | _ \<Rightarrow> False)"

definition ssl_receive_documented ::
  "byte list \<Rightarrow> ((exn + error_code \<times> 64 word) \<times> byte list \<times> base_socket) option \<Rightarrow> bool" where
  "ssl_receive_documented arriving r =
     (case r of
        Some (Inr (ec, n), contents, s) \<Rightarrow> is_error ec \<or> n = of_nat (length contents) \<and> prefix contents arriving
      | _ \<Rightarrow> False)"

definition ssl_write_some_documented :: "nat \<Rightarrow> io_result \<Rightarrow> throwing_result \<Rightarrow> bool" where
  "ssl_write_some_documented len r r' \<longleftrightarrow>
     code_call (some_or_error len) r \<and> throwing_call (\<lambda>n. 0 < n \<and> n \<le> len) r'"

definition ssl_read_some_documented ::
  "nat \<Rightarrow> ((exn + error_code \<times> byte list) \<times> base_socket) option \<Rightarrow> throwing_result \<Rightarrow> bool" where
  "ssl_read_some_documented len r r' \<longleftrightarrow>
     code_call (\<lambda>(ec, bytes). some_or_error len (ec, length bytes)) r \<and> throwing_call (\<lambda>n. 0 < n \<and> n \<le> len) r'"

section \<open>Resolver and pool\<close>

text \<open>\<^emph>\<open>A successful call is guaranteed to return at least one entry\<close>, a failed one returns the end iterator.\<close>

definition resolve_documented :: "((exn + error_code \<times> 'ep list) \<times> 'flags base_resolver) option \<Rightarrow> bool" where
  "resolve_documented r = code_call (\<lambda>(ec, endpoints). if is_error ec then endpoints = [] else endpoints \<noteq> []) r"

text \<open>\<^emph>\<open>Real number of established connections may be size + 1\<close>.\<close>

definition pool_size_documented :: "64 word \<Rightarrow> ('ep, 's) pool \<Rightarrow> bool" where
  "pool_size_documented max_size p \<longleftrightarrow> length (sesson_pool p) \<le> unat max_size + 1"

text \<open>A session or null; the code says what error occurred, if any.\<close>

definition get_session_documented :: "'s option \<times> error_code \<Rightarrow> bool" where
  "get_session_documented r = (case r of (session, ec) \<Rightarrow> (session = None) = is_error ec)"

definition try_get_session_documented :: "'s option \<times> error_code \<Rightarrow> bool" where
  "try_get_session_documented r = (case r of (session, ec) \<Rightarrow> (session = None) = is_error ec)"

text \<open>
  \<^emph>\<open>true if the pool is not empty, false if it is empty or the timeout is reached\<close>, and \<open>timed_out\<close> when the lock
  was not acquired. The overload without a code \<^emph>\<open>returns false if the pool is empty\<close> and throws
  \<open>timed_out\<close> only.
\<close>

definition is_connected_documented :: "bool \<Rightarrow> ('ep, 's) pool \<Rightarrow> bool \<times> error_code \<Rightarrow> bool" where
  "is_connected_documented locked p r =
     (case r of (answer, ec) \<Rightarrow> answer = (locked \<and> sesson_pool p \<noteq> []) \<and> (\<not> locked \<longrightarrow> ec = Timed_out))"

definition is_connected_throw_documented :: "bool \<Rightarrow> ('ep, 's) pool \<Rightarrow> exn + bool \<Rightarrow> bool" where
  "is_connected_throw_documented locked p r =
     (case r of
        Inr answer \<Rightarrow> locked \<and> answer = (sesson_pool p \<noteq> [])
      | Inl (System_error ec what) \<Rightarrow> \<not> locked \<and> ec = Timed_out
      | _ \<Rightarrow> False)"

text \<open>
  What \<open>refill\<close> returns, for the results of its calls of \<open>new_session\<close>: of the interface, true \<^emph>\<open>if all sessions
  have been added\<close>; of the greedy strategy, true if there were vacant places; of the conservative one,
  true \<^emph>\<open>if added at least one session\<close>.
\<close>

definition refill_documented :: "64 word \<Rightarrow> (exn + 's) list \<Rightarrow> refill_outcome \<Rightarrow> bool" where
  "refill_documented vacant results r = (r = Returns (length (sessions_of results) = unat vacant))"

definition greedy_refill_documented :: "64 word \<Rightarrow> (exn + 's) list \<Rightarrow> refill_outcome \<Rightarrow> bool" where
  "greedy_refill_documented vacant results r = (r = Returns (0 < vacant))"

definition conservative_refill_documented :: "64 word \<Rightarrow> (exn + 's) list \<Rightarrow> refill_outcome \<Rightarrow> bool" where
  "conservative_refill_documented vacant results r = (r = Returns (sessions_of results \<noteq> []))"

section \<open>Lemmas\<close>

lemma throwing_call_throwing:
  "throwing_call ok (throwing what (Some (Inr (ec, n), s))) \<longleftrightarrow> is_error ec \<or> ok n"
  by (simp add: throwing_call_def throwing_def throw_if_error_def)

lemma code_call_Some [simp]: "code_call ok (Some (Inr r, s)) = ok r"
  by (simp add: code_call_def)

text \<open>A transfer of whole buffers, for an operation that completes without an error only when it moved all.\<close>

lemma loop_documented:
  assumes "armed s" and "arg_ok arg" and "completes es t err n" and "again_ok A" and "err \<noteq> try_again A"
    and "hit = deadline_hit (expiry_of A now arg (timer_expiry s)) es"
  shows "code_call (all_or_error len) (transfer_loop A E now arg True es 0 s) \<longleftrightarrow> hit \<or> is_error err \<or> n = len"
    and "throwing_call (\<lambda>n. n = len) (throwing what (transfer_loop A E now arg True es 0 s)) \<longleftrightarrow> hit \<or> is_error err \<or> n = len"
  using transfer_loop_once [OF assms, of E 0]
  by (auto simp: throwing_call_throwing all_or_error_def completion_code_def)

lemma once_documented:
  assumes "armed s" and "arg_ok arg" and "completes es t err n"
    and "hit = deadline_hit (expiry_of A now arg (timer_expiry s)) es" and "some_or_error len (err, n)"
  shows "code_call (some_or_error len) (transfer_once A E now es arg s) \<longleftrightarrow> \<not> (hit \<and> 0 < n)"
    and "throwing_call (\<lambda>n. 0 < n \<and> n \<le> len) (throwing what (transfer_once A E now es arg s))"
  using transfer_once_outcome [OF assms(1-4), of E] assms(5)
  by (auto simp: throwing_call_throwing some_or_error_def completion_code_def split: if_splits)

section \<open>Properties\<close>

text \<open>
  TCP \<open>send\<close> and \<open>receive\<close> keep their promise, in both overloads, for Boost's composed operations, which
  complete without an error only when they have moved everything.
\<close>

theorem send_receive_documented:
  assumes "armed s" and "arg_ok arg" and "completes es t err n" and "again_ok A" and "err \<noteq> try_again A"
    and "all_or_error len (err, n)"
  shows "send_documented len (stream_send A E now es arg s) (stream_send_throw A E now es arg s) \<and>
    receive_documented len (stream_receive A E now es arg s) (stream_receive_throw A E now es arg s)"
  using loop_documented [OF assms(1-5) refl, where E = E] assms(6)
  by (simp add: send_documented_def receive_documented_def stream_send_def stream_receive_def stream_send_throw_def
      stream_receive_throw_def all_or_error_def)

theorem send_receive_documented_witness:
  "send_documented 7 (stream_send linux_asio sample_env 100 [Completed 200 Success 7] (Time_point 900) sample_socket)
     (stream_send_throw linux_asio sample_env 100 [Completed 200 Success 7] (Time_point 900) sample_socket)"
proof -
  have "arg_ok (Time_point 900)" "completes [Completed 200 Success 7] 200 Success 7" "Success \<noteq> try_again linux_asio"
    "all_or_error 7 (Success, 7)"
    by (simp_all add: arg_ok_def completes_def linux_asio_def all_or_error_def)
  from send_receive_documented [OF sample_socket_ok(1) this(1,2) again_ok_asio(1) this(3,4)] show ?thesis by blast
qed

text \<open>
  \<open>write_some\<close> and \<open>read_some\<close>: the throwing overloads keep their promise. The overloads with an
  \<open>error_code\<close>, documented to return 0 if an error occurred, break it exactly when bytes were moved by an
  operation that completed after the deadline: the code is then \<open>timed_out\<close>, and the count is not 0.
\<close>

theorem some_documented_unless_late:
  assumes "armed s" and "arg_ok arg" and "completes es t err n" and "some_or_error len (err, n)"
    and "late = (deadline_hit (expiry_of A now arg (timer_expiry s)) es \<and> 0 < n)"
  shows "write_some_documented len (write_some A E now es arg s) (write_some_throw A E now es arg s) = (\<not> late) \<and>
    read_some_documented len (read_some A E now es arg s) (read_some_throw A E now es arg s) = (\<not> late) \<and>
    throwing_call (\<lambda>n. 0 < n \<and> n \<le> len) (write_some_throw A E now es arg s) \<and>
    throwing_call (\<lambda>n. 0 < n \<and> n \<le> len) (read_some_throw A E now es arg s)"
  using once_documented [OF assms(1-3) refl assms(4), where E = E] assms(5)
  by (simp add: write_some_documented_def read_some_documented_def write_some_def read_some_def write_some_throw_def
      read_some_throw_def)

theorem some_documented_unless_late_witness:
  "\<not> write_some_documented 5 (write_some linux_asio sample_env 100 [Deadline 6000 6001, Completed 6002 Success 3] (Duration 5000) sample_socket)
     (write_some_throw linux_asio sample_env 100 [Deadline 6000 6001, Completed 6002 Success 3] (Duration 5000) sample_socket)"
proof -
  let ?es = "[Deadline 6000 6001, Completed 6002 Success 3] :: nat io_event list"
  have "arg_ok (Duration 5000)" "completes ?es 6002 Success 3" "some_or_error 5 (Success, 3)"
    "True = (deadline_hit (expiry_of linux_asio 100 (Duration 5000) (timer_expiry sample_socket)) ?es \<and> 0 < (3 :: nat))"
    by (simp_all add: arg_ok_def completes_def expiry_of_def linux_asio_def duration_defs some_or_error_def)
  from some_documented_unless_late [OF sample_socket_ok(1) this, of sample_env] show ?thesis by simp
qed

text \<open>
  The UDP client: what it sends is one datagram, and \<open>send\<close> keeps its promise when all of it was taken. A
  \<open>receive\<close> returns after one datagram, so the promise that the buffers are full is broken by every
  datagram that is shorter than the buffers.
\<close>

theorem dgram_documented:
  assumes "armed s" and "arg_ok arg" and "completes es t err n" and "again_ok A" and "err \<noteq> try_again A"
    and "hit = deadline_hit (expiry_of A now arg (timer_expiry s)) es"
  shows "dgram_send_documented len (dgram_send A E now es arg s) (dgram_send_throw A E now es arg s) =
      (hit \<or> is_error err \<or> n = len) \<and>
    dgram_receive_documented len (dgram_receive A E now es arg s) (dgram_receive_throw A E now es arg s) =
      (hit \<or> is_error err \<or> n = len)"
  using loop_documented [OF assms, where E = E]
  by (simp add: dgram_send_documented_def dgram_receive_documented_def dgram_send_throw_def
      dgram_receive_throw_def)

theorem dgram_documented_witness:
  "\<not> dgram_receive_documented 100 (dgram_receive linux_asio sample_env 100 [Completed 200 Success 7] (Time_point 900) sample_socket)
     (dgram_receive_throw linux_asio sample_env 100 [Completed 200 Success 7] (Time_point 900) sample_socket)"
proof -
  have "arg_ok (Time_point 900)" "completes [Completed 200 Success (7 :: nat)] 200 Success 7" "Success \<noteq> try_again linux_asio"
    "False = deadline_hit (expiry_of linux_asio 100 (Time_point 900) (timer_expiry sample_socket)) [Completed 200 Success (7 :: nat)]"
    by (simp_all add: arg_ok_def completes_def linux_asio_def)
  from dgram_documented [OF sample_socket_ok(1) this(1,2) again_ok_asio(1) this(3,4), of 100 sample_env] show ?thesis by simp
qed

text \<open>
  A resolve keeps its promise exactly when it was not late: an answer that arrives after the deadline
  is returned together with \<open>timed_out\<close>, where an end iterator is promised.
\<close>

theorem resolve_documented_unless_late:
  assumes "armed s" and "arg_ok arg" and "completes es t err eps" and "(eps = []) = is_error err"
  shows "resolve_documented (resolve A now es arg s) =
    (\<not> (deadline_hit (expiry_of A now arg (timer_expiry s)) es \<and> eps \<noteq> []))"
  using resolve_outcome_lemma [OF assms(1-3) refl, of A now] assms(4)
  by (auto simp: resolve_documented_def completion_code_def split: if_splits)

theorem resolve_documented_unless_late_witness:
  "\<not> resolve_documented (resolve linux_asio 10 [Deadline 600000000 600000001, Completed 600000002 Success [7 :: nat]]
       (Duration 500000000) sample_resolver)"
proof -
  let ?es = "[Deadline 600000000 600000001, Completed 600000002 Success [7]] :: nat list io_event list"
  have "armed sample_resolver" "arg_ok (Duration 500000000)" "completes ?es 600000002 Success [7]"
    "deadline_hit (expiry_of linux_asio 10 (Duration 500000000) (timer_expiry sample_resolver)) ?es"
    by (simp_all add: sample_resolver_def base_resolver_ctor_def armed_ctor arg_ok_def completes_def
        expiry_of_def linux_asio_def duration_defs)
  with resolve_documented_unless_late [OF this(1-3)] show ?thesis by simp
qed

lemma with_deadline_returns:
  assumes "arg_ok arg" and "\<And>s. \<exists>ec r s'. call s = Some (ec, r, s') \<and> P (ec, r)"
  obtains ec r s' where "with_deadline A t0 t1 arg call s = Some (Inr (ec, r), s')" "P (ec, r)"
proof -
  obtain e s1 where "scope_expire A t0 arg (snd (set_io_timeout_enabled False s)) = (Inr e, s1)"
    using scope_expire_ok [OF assms(1), of A t0 "snd (set_io_timeout_enabled False s)"] by auto
  moreover obtain ec r s' where "call s1 = Some (ec, r, s')" "P (ec, r)" using assms(2) by blast
  ultimately show thesis by (intro that) (simp_all add: with_deadline_def set_io_timeout_enabled_def)
qed

text \<open>
  The SSL stream: \<open>handshake\<close>, \<open>write_some\<close> and \<open>read_some\<close> keep their promises when the SSL layer does. \<open>send\<close> of
  a buffer that the layer takes in two parts keeps its own only if the second part of the buffer
  repeats its beginning.
\<close>

theorem ssl_documented:
  assumes "arg_ok arg"
    and "\<And>s. \<exists>ec s'. layer_handshake L s = Some (ec, s')"
    and "\<And>s. \<exists>ec n s'. layer_write L i buffers s = Some (ec, n, s') \<and> some_or_error (length buffers) (ec, n)"
    and "\<And>s. \<exists>ec bytes s'. layer_read L i room s = Some (ec, bytes, s') \<and> some_or_error room (ec, length bytes)"
    and "wrote A L data deadline 0 [n, m] s = Some s'" and "length data < 2 ^ 64" and "n < length data" and "n + m = length data"
  shows "handshake_documented (handshake A L t0 t1 arg s) (handshake_throw A L t0 t1 arg s) \<and>
    ssl_write_some_documented (length buffers) (ssl_write_some A L i buffers arg s) (ssl_write_some_throw A L i buffers arg s) \<and>
    ssl_read_some_documented room (ssl_read_some A L i room arg s) (ssl_read_some_throw A L i room arg s) \<and>
    (ssl_send_documented data (ssl_send A L data deadline ec s) \<longleftrightarrow> drop n data = take m data)"
proof (intro conjI)
  let ?hs = "\<lambda>s1. case layer_handshake L s1 of None \<Rightarrow> None | Some (ec, s2) \<Rightarrow> Some (ec, ec, s2)"
  have "\<exists>ec r s'. ?hs s = Some (ec, r, s') \<and> (\<lambda>(ec, r). r = ec) (ec, r)" for s
    using assms(2) [of s] by auto
  then obtain ec r s' where "with_deadline A t0 t1 arg ?hs s = Some (Inr (ec, r), s')" "r = ec"
    using with_deadline_returns [OF assms(1), of ?hs "\<lambda>(ec, r). r = ec"] by (metis (mono_tags, lifting) case_prod_conv)
  then show "handshake_documented (handshake A L t0 t1 arg s) (handshake_throw A L t0 t1 arg s)"
    by (simp add: handshake_documented_def handshake_throw_def handshake_def throwing_call_def throw_if_error_def)
next
  obtain ec n s' where "ssl_write_some A L i buffers arg s = Some (Inr (ec, n), s')" "some_or_error (length buffers) (ec, n)"
    unfolding ssl_write_some_def by (rule with_deadline_returns [OF assms(1,3)])
  then show "ssl_write_some_documented (length buffers) (ssl_write_some A L i buffers arg s) (ssl_write_some_throw A L i buffers arg s)"
    by (auto simp: ssl_write_some_documented_def ssl_write_some_throw_def throwing_call_throwing some_or_error_def split: if_splits)
next
  obtain ec bytes s' where "ssl_read_some A L i room arg s = Some (Inr (ec, bytes), s')" "some_or_error room (ec, length bytes)"
    unfolding ssl_read_some_def
    by (rule with_deadline_returns [OF assms(1), where P = "\<lambda>(ec, bytes). some_or_error room (ec, length bytes)"]) (use assms(4) in auto)
  then show "ssl_read_some_documented room (ssl_read_some A L i room arg s) (ssl_read_some_throw A L i room arg s)"
    by (auto simp: ssl_read_some_documented_def ssl_read_some_throw_def throwing_call_def throw_if_error_def some_or_error_def split: if_splits)
next
  have "ssl_send A L data deadline ec s = Some (Inr (Success, of_nat (length data)), take n data @ take m data, s')"
    using ssl_send_whole [OF assms(5), of ec] misses_below [of "[n, m]" "length data"] assms(6-8) by simp
  then show "ssl_send_documented data (ssl_send A L data deadline ec s) \<longleftrightarrow> drop n data = take m data"
    by (simp add: ssl_send_documented_def) (metis append_take_drop_id same_append_eq)
qed

theorem ssl_documented_witness:
  "\<not> ssl_send_documented [1, 2, 3, 4] (ssl_send linux_asio sample_layer [1, 2, 3, 4] 5000000 Success sample_socket)"
proof -
  have "arg_ok (Time_point 900)" "\<exists>ec s'. layer_handshake sample_layer s = Some (ec, s')"
    "\<exists>ec n s'. layer_write sample_layer 0 [1, 2] s = Some (ec, n, s') \<and> some_or_error (length [1, 2 :: byte]) (ec, n)"
    "\<exists>ec bytes s'. layer_read sample_layer 0 5 s = Some (ec, bytes, s') \<and> some_or_error 5 (ec, length bytes)" for s
    by (simp_all add: arg_ok_def sample_layer_def some_or_error_def)
  moreover obtain s' where "wrote linux_asio sample_layer [1, 2, 3, 4] 5000000 0 [2, 2] sample_socket = Some s'"
    by (simp add: ssl_write_some_def with_deadline_def set_io_timeout_enabled_def sample_layer_def)
  ultimately show ?thesis
    using ssl_documented [of "Time_point 900" sample_layer 0 "[1, 2]" 5 linux_asio "[1, 2, 3, 4]" 5000000 2 2 sample_socket s']
    by (simp del: wrote.simps)
qed

text \<open>
  Data that \<open>receive\<close> over SSL gets in two parts: the second part is stored over the beginning of the first,
  so the promise that the buffer is full of the data is kept only by accident.
\<close>

theorem ssl_receive_overwrites:
  assumes "was_read A L (length contents) deadline 0 [bs, bs'] s = Some s'" and "length contents < 2 ^ 64"
    and "bs' \<noteq> []" and "length bs + length bs' = length contents"
  shows "ssl_receive_documented (bs @ bs') (ssl_receive A L contents deadline ec s) \<longleftrightarrow>
    store_front bs' (store_front bs contents) = bs @ bs'"
proof -
  let ?c = "received contents [bs, bs']"
  have "length bs < length contents" using assms(3,4) by (cases bs') auto
  then have "misses (length contents) (map length [bs, bs'])" using misses_below [of "map length [bs, bs']"] assms(2) by simp
  moreover have len: "length ?c = length contents" by (rule received_length) (use assms(4) in auto)
  ultimately have r: "ssl_receive A L contents deadline ec s = Some (Inr (Success, of_nat (length contents)), ?c, s')"
    using receive_after [OF assms(1), of ec] receive_loop_done [where contents = ?c] assms(4)
    by (simp add: code_after_def flip: of_nat_add)
  have "prefix ?c (bs @ bs') \<longleftrightarrow> ?c = bs @ bs'"
    using len assms(4) by (metis append_Nil2 append_eq_append_conv length_append prefix_def)
  then show ?thesis using r len by (simp add: ssl_receive_documented_def)
qed

theorem ssl_receive_overwrites_witness:
  "\<not> ssl_receive_documented ([7, 8] @ [7, 8]) (ssl_receive linux_asio slow_layer [0, 0, 0, 0] 2500 Success sample_socket)"
proof -
  obtain s1 where "was_read linux_asio slow_layer (length [0, 0, 0, 0 :: byte]) 2500 0 [[7, 8], [7, 8]] sample_socket = Some s1"
    by (simp add: slow_layer_defs)
  from ssl_receive_overwrites [OF this, of Success] show ?thesis by (simp add: store_front_def)
qed

text \<open>
  \<open>get_session\<close>, \<open>try_get_session\<close> and \<open>is_connected\<close> keep their promises, given a clear \<open>error_code\<close>. The overload of
  \<open>is_connected\<close> without a code breaks its own on an empty pool: it is documented to return false, and
  throws \<open>not_found\<close>.
\<close>

theorem pool_calls_documented:
  "get_session_documented (fst (get_session locked Success p)) \<and>
   try_get_session_documented (fst (try_get_session locked Success p)) \<and>
   is_connected_documented locked p (is_connected locked ec p) \<and>
   is_connected_throw_documented (locks (tick_add now (pool_connect_timeout p))) p (is_connected_throw locks now p) =
     (\<not> locks (tick_add now (pool_connect_timeout p)) \<or> sesson_pool p \<noteq> [])"
  by (auto simp: get_session_documented_def try_get_session_documented_def is_connected_documented_def
      is_connected_throw_documented_def is_connected_throw_def is_connected_default_def is_connected_def throw_if_error_def
      pool_defs split: list.splits)

text \<open>
  What \<open>refill\<close> returns: each strategy keeps the promise in its own comment. The promise of the
  interface is kept by the greedy strategy exactly when every connect succeeded, and by the
  conservative strategy exactly when it got all the sessions or none.
\<close>

theorem refill_return_documented:
  assumes "vacant_ok v" and "\<forall>i. \<not> escapes (ns i)" and "\<not> t0 < wait_until st"
    and "n = (if current_delay_ms st = 0 then (unat v + 2) div 3 else 1)"
    and "greedy = fst (greedy_refill app ns v p)"
    and "conservative = fst (conservative_refill app ns t0 t1 g v st p)"
  shows "greedy_refill_documented v (map ns [0..<unat v]) greedy \<and>
    refill_documented v (map ns [0..<unat v]) greedy =
      (length (sessions_of (map ns [0..<unat v])) = unat v) \<and>
    conservative_refill_documented v (map ns [0..<n]) conservative \<and>
    refill_documented v (map ns [0..<n]) conservative =
      (sessions_of (map ns [0..<n]) = [] \<or> length (sessions_of (map ns [0..<n])) = unat v)"
proof -
  let ?got = "sessions_of (map ns [0..<n])"
  have v: "0 < v" "0 < unat v" using assms(1) by (auto simp: vacant_ok_def word_less_nat_alt)
  have g: "greedy = Returns True" using greedy_refill_quiet [of v ns app p] assms(2,5) v by simp
  have n: "n = conservative_attempts t0 v st" using assms(3,4) by (simp add: conservative_attempts_def)
  have c: "conservative = Returns (?got \<noteq> [])"
    using conservative_refill_quiet [OF assms(1), of t0 st ns app t1 g p] assms(2,3,6)
    by (auto simp: n after_attempts_def Let_def)
  show ?thesis
    using v by (auto simp: g c greedy_refill_documented_def refill_documented_def conservative_refill_documented_def)
qed

theorem refill_return_documented_witness:
  "\<not> refill_documented 3 (map sample_calls [0..<3]) (fst (greedy_refill (\<lambda>s p. p @ [s]) sample_calls 3 [9]))"
proof -
  have "vacant_ok 3" "\<forall>i. \<not> escapes (sample_calls i)" by (simp_all add: vacant_ok_def)
  note doc = refill_return_documented [OF this sample_strategy_idle(1) refl refl refl, where app = "\<lambda>s p. p @ [s]" and p = "[9]"]
  have "sessions_of (map sample_calls [0..<unat (3 :: 64 word)]) = [0, 2]"
    by (simp add: upt_conv_Cons sample_calls_def)
  then show ?thesis using doc by simp
qed

text \<open>
  The watcher spins on a dead target: it is to sleep \<^emph>\<open>if nothing has been added\<close>, but the greedy strategy
  returns true although every connect failed, so the next round starts at once, with the pool as
  it was. With the conservative strategy the watcher sleeps.
\<close>

theorem greedy_watcher_spins:
  assumes "watch_pool p" and "vacant_ok (fst (purge now p))" and "\<forall>i. \<exists>ec what. ns i = Inl (System_error ec what)"
  shows "watch_round (\<lambda>app. greedy_call app ns ()) session_open True locks now now' () p = (Next False, (), snd (purge now p)) \<and>
    (\<exists>st'. watch_round (\<lambda>app. conservative_call app ns (t0, t1, g)) session_open True locks now now' st p =
       (Next True, st', snd (purge now p)))"
proof -
  obtain v q where q: "purge now p = (v, q)" by (cases "purge now p")
  have quiet: "\<not> escapes (ns i)" and left: "isl (ns i)" for i
    using assms(3) [rule_format, of i] by (auto simp: escapes_def)
  then have none: "sessions_of (map ns is) = []" for "is" by (simp add: sessions_of_Nil)
  have v: "vacant_ok v" "v \<noteq> 0" using assms(2) q by (auto simp: vacant_ok_def)
  show ?thesis
    using assms(1) q v greedy_refill_quiet [of v ns _ q] conservative_refill_quiet [OF v(1), of t0 st ns _ t1 g q] quiet
    by (simp add: watch_round_def greedy_call_def conservative_call_def none Let_def word_neq_0_conv)
qed

theorem greedy_watcher_spins_witness:
  "watch_round (\<lambda>app. greedy_call app (\<lambda>i. Inl (System_error Timed_out '''')) ()) (\<lambda>_. True) True (\<lambda>_. True) 1400 1500 () sample_pool =
     (Next False, (), snd (purge 1400 sample_pool))"
proof -
  have "watch_pool sample_pool" by (simp add: sample_pool_def pool_ctor_def)
  moreover have "fst (purge 1400 sample_pool) = 3"
    by (simp add: purge_def purge_idle_filter Let_def sample_pool_def pool_ctor_def vacant_places_def tick_defs)
  ultimately show ?thesis
    using greedy_watcher_spins [of sample_pool 1400 "\<lambda>i. Inl (System_error Timed_out '''')"] by (simp add: vacant_ok_def)
qed

text \<open>One round of the watcher of a pool of size 1, and a client that takes the session at once.\<close>

lemma take_cycle:
  assumes "sesson_pool (the_pool s) = []" and "pool_max_size (the_pool s) = 1" and "watch_pool (the_pool s)"
    and "watcher s = W_loop" and "session_open x"
  shows "pool_run session_open one_per_place [Evicted [], Silent, Opened x] s
      (s\<lparr>the_pool := (the_pool s)\<lparr>sesson_pool := [(clock s, x)]\<rparr>, watcher := W_fill 0\<rparr>)"
    and "pool_run session_open one_per_place [Evicted [], Silent, Opened x, Took x, Silent] s s"
proof -
  let ?filled = "s\<lparr>the_pool := (the_pool s)\<lparr>sesson_pool := [(clock s, x)]\<rparr>, watcher := W_fill 0\<rparr>"
  have 1: "pool_step session_open one_per_place (Evicted []) s (s\<lparr>watcher := W_refill 1\<rparr>)"
  proof -
    have "purge (clock s) (the_pool s) = (1, the_pool s)"
      using assms(1,2) by (cases "the_pool s") (simp add: purge_def vacant_places_def)
    with w_purge [OF assms(4,3), of 1 "the_pool s" session_open one_per_place] assms(1) show ?thesis by (cases s) simp
  qed
  have 2: "pool_step session_open one_per_place Silent (s\<lparr>watcher := W_refill 1\<rparr>) (s\<lparr>watcher := W_fill 1\<rparr>)"
    using w_refill [of "s\<lparr>watcher := W_refill 1\<rparr>" 1 one_per_place 1] by (simp add: one_per_place_def)
  have 3: "pool_step session_open one_per_place (Opened x) (s\<lparr>watcher := W_fill 1\<rparr>) ?filled"
    using w_add [of "s\<lparr>watcher := W_fill 1\<rparr>" 0 session_open one_per_place True x] assms(1,5)
    by (simp add: accepted_def return_session_def)
  have 4: "pool_step session_open one_per_place (Took x) ?filled (s\<lparr>watcher := W_fill 0\<rparr>)"
  proof -
    have "(the_pool s)\<lparr>sesson_pool := []\<rparr> = the_pool s" using assms(1) by (cases "the_pool s") simp
    with p_get [of True Success ?filled x Success "the_pool s"] show ?thesis by (cases s) (simp add: pool_defs)
  qed
  have 5: "pool_step session_open one_per_place Silent (s\<lparr>watcher := W_fill 0\<rparr>) s"
    using w_next [of "s\<lparr>watcher := W_fill 0\<rparr>" session_open one_per_place] assms(4) by (cases s) simp
  note fill = pool_runs.run_step [OF 1 TrueI pool_runs.run_step [OF 2 TrueI pool_runs.run_step [OF 3 TrueI]]]
  show "pool_run session_open one_per_place [Evicted [], Silent, Opened x] s ?filled" by (rule fill [OF pool_nil])
  show "pool_run session_open one_per_place [Evicted [], Silent, Opened x, Took x, Silent] s s"
    by (rule fill [OF pool_runs.run_step [OF 4 TrueI pool_runs.run_step [OF 5 TrueI pool_nil]]])
qed

lemma return_all:
  assumes "list_all session_open xs"
  shows "pool_run session_open attempts (map Returned xs) s
    (s\<lparr>the_pool := (the_pool s)\<lparr>sesson_pool := sesson_pool (the_pool s) @ map (\<lambda>x. (clock s, x)) xs\<rparr>\<rparr>)"
  using assms
proof (induction xs arbitrary: s)
  case (Cons x xs)
  let ?t = "s\<lparr>the_pool := (the_pool s)\<lparr>sesson_pool := sesson_pool (the_pool s) @ [(clock s, x)]\<rparr>\<rparr>"
  have "pool_step session_open attempts (Returned x) s ?t"
    using p_return [of session_open attempts True x s] Cons.prems by (simp add: accepted_def return_session_def)
  from pool_runs.run_step [OF this TrueI Cons.IH [of ?t]] Cons.prems show ?case by simp
qed (simp add: pool_nil)

text \<open>
  The pool does not keep to \<open>size + 1\<close> sessions: a pool of size 1 can hold any number of them, when clients
  take one after the other, the watcher opens a replacement each time, and all of them are returned.
\<close>

theorem pool_exceeds_documented_size:
  fixes c :: "'ep connector" and x :: 's
  assumes "list_all session_open xs" and "session_open x"
  shows "\<exists>ls s. pool_run session_open one_per_place ls (pool_init 1 limit c t0) s \<and>
    taken ls = xs \<and> sessions (the_pool s) = x # xs \<and> (pool_size_documented 1 (the_pool s) \<longleftrightarrow> length xs \<le> 1)"
proof -
  let ?s = "pool_init 1 limit c t0 :: ('ep, 's) pool_state" and ?cycle = "\<lambda>x :: 's. [Evicted [], Silent, Opened x, Took x, Silent]"
  let ?filled = "?s\<lparr>the_pool := (the_pool ?s)\<lparr>sesson_pool := [(clock ?s, x)]\<rparr>, watcher := W_fill 0\<rparr>"
  let ?u = "?filled\<lparr>the_pool := (the_pool ?filled)\<lparr>sesson_pool := sesson_pool (the_pool ?filled) @ map (\<lambda>x. (clock ?filled, x)) xs\<rparr>\<rparr>"
  let ?ls = "concat (map ?cycle xs) @ [Evicted [], Silent, Opened x] @ map Returned xs"
  have init: "sesson_pool (the_pool ?s) = []" "pool_max_size (the_pool ?s) = 1" "watch_pool (the_pool ?s)" "watcher ?s = W_loop"
    by (simp_all add: pool_init_def pool_ctor_def)
  have "pool_run session_open one_per_place (concat (map ?cycle xs)) ?s ?s \<and> taken (concat (map ?cycle xs)) = xs"
    using assms(1) by (induction xs) (auto intro: pool_nil pool_runs.run_join [OF take_cycle(2) [OF init], simplified])
  moreover have "taken (map Returned xs) = []" by (induction xs) simp_all
  ultimately have "pool_run session_open one_per_place ?ls ?s ?u" "taken ?ls = xs"
    using pool_runs.run_join pool_runs.run_join [OF take_cycle(1) [of ?s session_open x, OF init assms(2)] return_all [OF assms(1)]] by auto
  moreover have "sessions (the_pool ?u) = x # xs" "pool_size_documented 1 (the_pool ?u) \<longleftrightarrow> length xs \<le> 1"
    by (simp_all add: sessions_def pool_size_documented_def comp_def)
  ultimately show ?thesis by blast
qed

theorem pool_exceeds_documented_size_witness:
  "\<exists>ls s. pool_run even one_per_place ls (pool_init 1 1000 sample_connector 5) s \<and> taken ls = [2, 4 :: nat] \<and>
     \<not> pool_size_documented 1 (the_pool s)"
  using pool_exceeds_documented_size [of even "[2, 4]" 6 1000 sample_connector 5] by auto

end
