(* ===== verification/Http_Socket.thy ===== *)
theory Http_Socket
  imports Ssl_Socket "HOL-Library.Sublist"
begin

text \<open>
  The HTTP client (\<open>stream/http_socket.hpp\<close>, \<open>stream/impl/http_socket.ipp\<close>): it sends a request and
  receives its response over a stream, a template parameter of the class.

  The stream and the Boost.Beast serializer, parser and flat buffer are parameters: records of
  the functions the code calls, with a state of their own. The calls on the stream are numbered. A
  function that does not return gives \<open>None\<close>.
\<close>

section \<open>What the client works with\<close>

text \<open>
  The stream: \<open>st_write i bytes deadline s\<close> gives the code, how many leading bytes were taken and
  the stream afterwards; \<open>st_read i room deadline s\<close> the code, the bytes read and the stream.
\<close>

record 's http_stream =
  st_write :: "nat \<Rightarrow> byte list \<Rightarrow> tick \<Rightarrow> 's \<Rightarrow> (error_code \<times> nat \<times> 's) option"
  st_read :: "nat \<Rightarrow> nat \<Rightarrow> tick \<Rightarrow> 's \<Rightarrow> (error_code \<times> byte list \<times> 's) option"
  st_io_timeout :: "'s \<Rightarrow> tick"

text \<open>
  \<open>request_serializer\<close>: \<open>ser_next\<close> gives the buffers it calls the visitor with, or the error it sets
  instead of calling it.
\<close>

record ('m, 'z) serializer =
  ser_start :: "'m \<Rightarrow> 'z"
  ser_done :: "'z \<Rightarrow> bool"
  ser_next :: "'z \<Rightarrow> (error_code + byte list) \<times> 'z"
  ser_consume :: "nat \<Rightarrow> 'z \<Rightarrow> 'z"

text \<open>\<open>response_parser\<close>: started with its limits; \<open>pr_put\<close> gives the code and the number of bytes used.\<close>

record ('p, 'm) parser =
  pr_start :: "nat \<Rightarrow> nat \<Rightarrow> 'p"
  pr_done :: "'p \<Rightarrow> bool"
  pr_got_some :: "'p \<Rightarrow> bool"
  pr_put_eof :: "'p \<Rightarrow> error_code \<times> 'p"
  pr_put :: "byte list \<Rightarrow> 'p \<Rightarrow> error_code \<times> nat \<times> 'p"
  pr_get :: "'p \<Rightarrow> 'm"

text \<open>\<open>basic_flat_buffer\<close>: \<open>buf_prepare\<close> gives the size of the writable area, or throws \<open>length_error\<close>.\<close>

record 'b flat_buffer =
  buf_max_size :: "'b \<Rightarrow> 64 word"
  buf_size :: "'b \<Rightarrow> 64 word"
  buf_prepare :: "64 word \<Rightarrow> 'b \<Rightarrow> exn + nat \<times> 'b"
  buf_commit :: "byte list \<Rightarrow> 'b \<Rightarrow> 'b"
  buf_data :: "'b \<Rightarrow> byte list"
  buf_consume :: "64 word \<Rightarrow> 'b \<Rightarrow> 'b"

definition kHeaderLimit :: nat where
  "kHeaderLimit = 2 ^ 20"

definition kBodyLimit :: nat where
  "kBodyLimit = 10 * 2 ^ 20"

record ('s, 'b) http_socket =
  h_stream :: 's
  h_buffer :: 'b

text \<open>The constructor forwards its arguments to the stream and limits the buffer, which \<open>make_buffer\<close> makes.\<close>

definition http_socket_ctor :: "(64 word \<Rightarrow> 'b) \<Rightarrow> 's \<Rightarrow> ('s, 'b) http_socket" where
  "http_socket_ctor make_buffer s = \<lparr>h_stream = s, h_buffer = make_buffer (of_nat (kBodyLimit + kHeaderLimit))\<rparr>"

definition http_next_layer :: "('s, 'b) http_socket \<Rightarrow> 's" where
  "http_next_layer h = h_stream h"

definition http_is_open :: "('s \<Rightarrow> bool) \<Rightarrow> ('s, 'b) http_socket \<Rightarrow> bool" where
  "http_is_open layer_is_open h = layer_is_open (http_next_layer h)"

section \<open>Sending\<close>

text \<open>
  The loop of \<open>send_request\<close>. \<open>ec\<close> is the caller's code; \<open>wire\<close> is what the stream has been given. An
  error that the serializer sets itself comes without a call of the visitor.
\<close>

partial_function (option) send_request_loop ::
  "'s http_stream \<Rightarrow> ('m, 'z) serializer \<Rightarrow> tick \<Rightarrow> nat \<Rightarrow> error_code \<Rightarrow> byte list \<Rightarrow> 'z \<Rightarrow> 's
     \<Rightarrow> (error_code \<times> byte list \<times> 's) option" where
  "send_request_loop S Z deadline i ec wire z s =
     (if ser_done Z z then Some (ec, wire, s)
      else
        (case ser_next Z z of
           (Inl err, z1) \<Rightarrow>
             if is_error err then Some (err, wire, s)
             else send_request_loop S Z deadline i err wire z1 s
         | (Inr buffers, z1) \<Rightarrow>
             (case st_write S i buffers deadline s of
                None \<Rightarrow> None
              | Some (ec', n_bytes, s') \<Rightarrow>
                  let z2 = (if n_bytes \<noteq> 0 then ser_consume Z n_bytes z1 else z1);
                      wire' = wire @ take n_bytes buffers
                  in if is_error ec' then Some (ec', wire', s')
                     else send_request_loop S Z deadline (Suc i) ec' wire' z2 s')))"

definition send_request ::
  "'s http_stream \<Rightarrow> ('m, 'z) serializer \<Rightarrow> 'm \<Rightarrow> error_code \<Rightarrow> tick \<Rightarrow> 's
     \<Rightarrow> (error_code \<times> byte list \<times> 's) option" where
  "send_request S Z request ec deadline s = send_request_loop S Z deadline 0 ec [] (ser_start Z request) s"

section \<open>Receiving\<close>

definition read_size :: "'b flat_buffer \<Rightarrow> 'b \<Rightarrow> 64 word" where
  "read_size B b = min 65536 (buf_max_size B b - buf_size B b - 1)"

text \<open>
  The loop of \<open>recv_response\<close>. \<open>put_eof\<close> and a parse that needs more data make it go on; every other
  code ends it.
\<close>

partial_function (option) recv_loop ::
  "'s http_stream \<Rightarrow> ('p, 'm) parser \<Rightarrow> 'b flat_buffer \<Rightarrow> tick \<Rightarrow> nat \<Rightarrow> error_code \<Rightarrow> 'p \<Rightarrow> 'b \<Rightarrow> 's
     \<Rightarrow> ((exn + error_code) \<times> 'p \<times> 'b \<times> 's) option" where
  "recv_loop S R B deadline i ec p b s =
     (if pr_done R p then Some (Inr ec, p, b, s)
      else
        (case buf_prepare B (read_size B b) b of
           Inl x \<Rightarrow> (if x = Length_error then Some (Inr Buffer_overflow, p, b, s) else Some (Inl x, p, b, s))
         | Inr (room, b1) \<Rightarrow>
             (case st_read S i room deadline s of
                None \<Rightarrow> None
              | Some (ec1, bytes, s1) \<Rightarrow>
                  if ec1 = Eof \<and> pr_got_some R p then
                    (case pr_put_eof R p of
                       (ec2, p1) \<Rightarrow>
                         if \<not> is_error ec2 then recv_loop S R B deadline (Suc i) ec2 p1 b1 s1
                         else Some (Inr ec2, p1, b1, s1))
                  else if ec1 = Eof then Some (Inr End_of_stream, p, b1, s1)
                  else if is_error ec1 then Some (Inr ec1, p, b1, s1)
                  else
                    (case pr_put R (buf_data B (buf_commit B bytes b1)) p of
                       (ec2, n_bytes, p1) \<Rightarrow>
                         let b2 = buf_consume B (of_nat n_bytes) (buf_commit B bytes b1) in
                         if is_error ec2 \<and> ec2 \<noteq> Need_more then Some (Inr ec2, p1, b2, s1)
                         else recv_loop S R B deadline (Suc i) ec2 p1 b2 s1))))"

definition recv_response ::
  "'s http_stream \<Rightarrow> ('p, 'm) parser \<Rightarrow> 'b flat_buffer \<Rightarrow> nat \<Rightarrow> error_code \<Rightarrow> tick \<Rightarrow> ('s, 'b) http_socket
     \<Rightarrow> ((exn + error_code \<times> 'm option) \<times> ('s, 'b) http_socket) option" where
  "recv_response S P B i ec deadline h =
     (let b0 = buf_consume B (buf_size B (h_buffer h)) (h_buffer h) in
      case recv_loop S P B deadline i ec (pr_start P kHeaderLimit kBodyLimit) b0 (h_stream h) of
        None \<Rightarrow> None
      | Some (Inl x, p, b, s) \<Rightarrow> Some (Inl x, \<lparr>h_stream = s, h_buffer = b\<rparr>)
      | Some (Inr ec', p, b, s) \<Rightarrow>
          Some (Inr (ec', if is_error ec' then None else Some (pr_get P p)), \<lparr>h_stream = s, h_buffer = b\<rparr>))"

section \<open>Performing a request\<close>

text \<open>\<open>i\<close> numbers the calls on the stream from where the receiving starts.\<close>

definition perform ::
  "'s http_stream \<Rightarrow> ('m, 'z) serializer \<Rightarrow> ('p, 'r) parser \<Rightarrow> 'b flat_buffer \<Rightarrow> nat \<Rightarrow> 'm \<Rightarrow> error_code \<Rightarrow> tick
     \<Rightarrow> ('s, 'b) http_socket \<Rightarrow> ((exn + error_code \<times> 'r option) \<times> byte list \<times> ('s, 'b) http_socket) option" where
  "perform S Z P B i request ec deadline h =
     (case send_request S Z request ec deadline (h_stream h) of
        None \<Rightarrow> None
      | Some (ec1, wire, s1) \<Rightarrow>
          if is_error ec1 then Some (Inr (ec1, None), wire, h\<lparr>h_stream := s1\<rparr>)
          else
            (case recv_response S P B i ec1 deadline (h\<lparr>h_stream := s1\<rparr>) of
               None \<Rightarrow> None
             | Some (r, h') \<Rightarrow> Some (r, wire, h')))"

definition perform_timeout ::
  "'s http_stream \<Rightarrow> ('m, 'z) serializer \<Rightarrow> ('p, 'r) parser \<Rightarrow> 'b flat_buffer \<Rightarrow> nat \<Rightarrow> tick \<Rightarrow> 'm \<Rightarrow> error_code \<Rightarrow> tick
     \<Rightarrow> ('s, 'b) http_socket \<Rightarrow> ((exn + error_code \<times> 'r option) \<times> byte list \<times> ('s, 'b) http_socket) option" where
  "perform_timeout S Z P B i now request ec timeout h = perform S Z P B i request ec (tick_add now timeout) h"

definition perform_default ::
  "'s http_stream \<Rightarrow> ('m, 'z) serializer \<Rightarrow> ('p, 'r) parser \<Rightarrow> 'b flat_buffer \<Rightarrow> nat \<Rightarrow> tick \<Rightarrow> 'm \<Rightarrow> error_code
     \<Rightarrow> ('s, 'b) http_socket \<Rightarrow> ((exn + error_code \<times> 'r option) \<times> byte list \<times> ('s, 'b) http_socket) option" where
  "perform_default S Z P B i now request ec h =
     perform_timeout S Z P B i now request ec (st_io_timeout S (h_stream h)) h"

definition perform_throw ::
  "'s http_stream \<Rightarrow> ('m, 'z) serializer \<Rightarrow> ('p, 'r) parser \<Rightarrow> 'b flat_buffer \<Rightarrow> nat \<Rightarrow> tick \<Rightarrow> 'm
     \<Rightarrow> ('s, 'b) http_socket \<Rightarrow> ((exn + 'r) \<times> byte list \<times> ('s, 'b) http_socket) option" where
  "perform_throw S Z P B i now request h =
     (case perform_default S Z P B i now request Success h of
        None \<Rightarrow> None
      | Some (Inl x, wire, h') \<Rightarrow> Some (Inl x, wire, h')
      | Some (Inr (ec, response), wire, h') \<Rightarrow>
          Some (if is_error ec then Inl (System_error ec '''')
                else case response of
                    None \<Rightarrow> Inl (System_error Operation_aborted '''')
                  | Some m \<Rightarrow> Inr m, wire, h'))"

section \<open>What Beast and the stream promise\<close>

text \<open>
  The serializer presents what is left of the message (\<open>view\<close>), a non-empty part of it at a time, and
  advances by what is consumed; it is done when nothing is left.
\<close>

definition serializer_ok :: "('m, 'z) serializer \<Rightarrow> ('z \<Rightarrow> byte list) \<Rightarrow> bool" where
  "serializer_ok Z view \<longleftrightarrow>
     (\<forall>z. ser_done Z z \<longleftrightarrow> view z = []) \<and>
     (\<forall>z. \<not> ser_done Z z \<longrightarrow> (\<exists>b z1. ser_next Z z = (Inr b, z1) \<and> b \<noteq> [] \<and> prefix b (view z) \<and> view z1 = view z)) \<and>
     (\<forall>n z. n \<le> length (view z) \<longrightarrow> view (ser_consume Z n z) = drop n (view z))"

text \<open>The flat buffer refuses to grow beyond its maximal size.\<close>

definition buffer_ok :: "'b flat_buffer \<Rightarrow> bool" where
  "buffer_ok B \<longleftrightarrow>
     (\<forall>n b. unat (buf_max_size B b) < unat (buf_size B b) + unat n \<longrightarrow> buf_prepare B n b = Inl Length_error)"

section \<open>The stream as an interface\<close>

text \<open>
  What the client relies on in its stream, while the stream is \<open>live\<close>: a write returns, takes no more than
  it was offered and something unless it fails; reads and writes keep the stream live; and a call
  that does not report \<open>timed_out\<close> leaves the stream open or closed as it was.
\<close>

locale http_transport =
  fixes S :: "'s http_stream" and live :: "'s \<Rightarrow> bool" and opened :: "'s \<Rightarrow> bool"
  assumes write_returns: "live s \<Longrightarrow> b \<noteq> [] \<Longrightarrow>
      \<exists>ec n s'. st_write S i b d s = Some (ec, n, s') \<and> n \<le> length b \<and> (is_error ec \<or> 0 < n)"
    and write_keeps: "live s \<Longrightarrow> st_write S i b d s = Some (ec, n, s') \<Longrightarrow>
      live s' \<and> (ec \<noteq> Timed_out \<longrightarrow> opened s' = opened s)"
    and read_keeps: "live s \<Longrightarrow> st_read S i room d s = Some (ec, bytes, s') \<Longrightarrow>
      live s' \<and> (ec \<noteq> Timed_out \<longrightarrow> opened s' = opened s)"
begin

text \<open>One round of the sending loop: a part of what is left is written, or an error ends it.\<close>

lemma send_loop_round:
  assumes "serializer_ok Z view" and "live s" and "\<not> ser_done Z z"
  obtains ec1 n s1 z1 where "n \<le> length (view z)" "live s1" "ec1 \<noteq> Timed_out \<longrightarrow> opened s1 = opened s"
    "is_error ec1 \<longrightarrow> send_request_loop S Z deadline i ec wire z s = Some (ec1, wire @ take n (view z), s1)"
    "\<not> is_error ec1 \<longrightarrow> 0 < n \<and> view z1 = drop n (view z) \<and>
       send_request_loop S Z deadline i ec wire z s = send_request_loop S Z deadline (Suc i) ec1 (wire @ take n (view z)) z1 s1"
proof -
  obtain b z1 where b: "ser_next Z z = (Inr b, z1)" "b \<noteq> []" "prefix b (view z)" "view z1 = view z"
    using assms(1,3) unfolding serializer_ok_def by metis
  obtain ec1 n s1 where w: "st_write S i b deadline s = Some (ec1, n, s1)" "n \<le> length b" "is_error ec1 \<or> 0 < n"
    using write_returns [OF assms(2) b(2)] by blast
  have keep: "live s1" "ec1 \<noteq> Timed_out \<longrightarrow> opened s1 = opened s"
    using write_keeps [OF assms(2) w(1)] by auto
  have take: "take n b = take n (view z)" and len: "n \<le> length (view z)"
    using b(3) w(2) by (auto simp: prefix_def)
  have "view (ser_consume Z n z1) = drop n (view z)"
    using assms(1) len b(4) by (simp add: serializer_ok_def)
  with assms(3) b(1) w(1,3) take show thesis
    by (intro that [OF len keep, of "ser_consume Z n z1"]; subst send_request_loop.simps) (auto simp: Let_def)
qed

lemma send_loop_total:
  assumes "serializer_ok Z view" and "live s"
  shows "\<exists>ec' sent s'. send_request_loop S Z deadline i ec wire z s = Some (ec', wire @ sent, s') \<and>
    prefix sent (view z) \<and> (is_error ec' \<or> sent = view z) \<and> live s' \<and>
    (ec' \<noteq> Timed_out \<longrightarrow> opened s' = opened s)"
  using assms(2)
proof (induction "length (view z)" arbitrary: i ec wire z s rule: less_induct)
  case less
  show ?case
  proof (cases "ser_done Z z")
    case True
    then have "view z = []" using assms(1) by (simp add: serializer_ok_def)
    with True less.prems show ?thesis by (subst send_request_loop.simps) auto
  next
    case False
    obtain ec1 n s1 z1 where r: "n \<le> length (view z)" "live s1" "ec1 \<noteq> Timed_out \<longrightarrow> opened s1 = opened s"
      "is_error ec1 \<longrightarrow> send_request_loop S Z deadline i ec wire z s = Some (ec1, wire @ take n (view z), s1)"
      "\<not> is_error ec1 \<longrightarrow> 0 < n \<and> view z1 = drop n (view z) \<and>
         send_request_loop S Z deadline i ec wire z s = send_request_loop S Z deadline (Suc i) ec1 (wire @ take n (view z)) z1 s1"
      by (rule send_loop_round [OF assms(1) less.prems False])
    show ?thesis
    proof (cases "is_error ec1")
      case True
      with r(2-4) show ?thesis by (auto intro: take_is_prefix)
    next
      case no: False
      with r(1,5) have "length (view z1) < length (view z)" by auto
      from less.hyps [OF this r(2), of "Suc i" ec1 "wire @ take n (view z)"] no r(5)
      obtain ec' sent s' where ih: "send_request_loop S Z deadline i ec wire z s = Some (ec', wire @ (take n (view z) @ sent), s')"
        "prefix sent (drop n (view z))" "is_error ec' \<or> sent = drop n (view z)"
        "live s'" "ec' \<noteq> Timed_out \<longrightarrow> opened s' = opened s1"
        by auto
      have "prefix (take n (view z) @ sent) (view z)"
        using ih(2) by (metis append_take_drop_id same_prefix_prefix)
      moreover have "ec1 \<noteq> Timed_out" using no by auto
      ultimately show ?thesis using ih r(3) by (metis append_take_drop_id)
    qed
  qed
qed

lemma send_request_total:
  assumes "serializer_ok Z view" and "live s"
  shows "\<exists>ec' wire s'. send_request S Z request ec deadline s = Some (ec', wire, s') \<and>
    prefix wire (view (ser_start Z request)) \<and> (is_error ec' \<or> wire = view (ser_start Z request)) \<and> live s' \<and>
    (ec' \<noteq> Timed_out \<longrightarrow> opened s' = opened s)"
  using send_loop_total [OF assms, of deadline 0 ec "[]" "ser_start Z request"] by (simp add: send_request_def)

end

section \<open>Lemmas\<close>

text \<open>
  The receiving loop ends without an error only with a parser that is done, and throws only what the
  buffer throws, \<open>length_error\<close> excepted.
\<close>

definition ended_ok :: "('p, 'm) parser \<Rightarrow> 'b flat_buffer \<Rightarrow> (exn + error_code) \<times> 'p \<times> 'b \<times> 's \<Rightarrow> bool" where
  "ended_ok P B r \<longleftrightarrow>
     (case r of
        (Inr ec', p', rest) \<Rightarrow> is_error ec' \<or> pr_done P p'
      | (Inl x, rest) \<Rightarrow> x \<noteq> Length_error \<and> (\<exists>n b. buf_prepare B n b = Inl x))"

lemma ended_ok_simps [simp]:
  "ended_ok P B (Inl x, rest') \<longleftrightarrow> x \<noteq> Length_error \<and> (\<exists>n b. buf_prepare B n b = Inl x)"
  "ended_ok P B (Inr ec', p', rest) \<longleftrightarrow> is_error ec' \<or> pr_done P p'"
  by (simp_all add: ended_ok_def)

lemma recv_loop_done:
  fixes S :: "'s http_stream" and P :: "('p, 'm) parser" and B :: "'b flat_buffer"
  assumes "recv_loop S P B deadline i ec p b s = Some r"
  shows "ended_ok P B r"
  using assms
proof (rule recv_loop.raw_induct [where P = "\<lambda>S P B deadline i ec p b s r. ended_ok P B r", rotated])
  fix loop :: "'s http_stream \<Rightarrow> ('p, 'm) parser \<Rightarrow> 'b flat_buffer \<Rightarrow> tick \<Rightarrow> nat \<Rightarrow> error_code \<Rightarrow> 'p \<Rightarrow> 'b \<Rightarrow> 's
      \<Rightarrow> ((exn + error_code) \<times> 'p \<times> 'b \<times> 's) option"
    and S P B deadline i ec p b s r
  assume IH: "\<And>S P B deadline i ec p b s r. loop S P B deadline i ec p b s = Some r \<Longrightarrow>
      ended_ok P B r"
    and body: "(if pr_done P p then Some (Inr ec, p, b, s)
      else case buf_prepare B (read_size B b) b of
             Inl x \<Rightarrow> if x = Length_error then Some (Inr Buffer_overflow, p, b, s) else Some (Inl x, p, b, s)
           | Inr (room, b1) \<Rightarrow>
             (case st_read S i room deadline s of
                None \<Rightarrow> None
              | Some (ec1, bytes, s1) \<Rightarrow>
                  if ec1 = Eof \<and> pr_got_some P p then
                    (case pr_put_eof P p of
                       (ec2, p1) \<Rightarrow> if \<not> is_error ec2 then loop S P B deadline (Suc i) ec2 p1 b1 s1
                         else Some (Inr ec2, p1, b1, s1))
                  else if ec1 = Eof then Some (Inr End_of_stream, p, b1, s1)
                  else if is_error ec1 then Some (Inr ec1, p, b1, s1)
                  else
                    (case pr_put P (buf_data B (buf_commit B bytes b1)) p of
                       (ec2, n_bytes, p1) \<Rightarrow>
                         let b2 = buf_consume B (of_nat n_bytes) (buf_commit B bytes b1) in
                         if is_error ec2 \<and> ec2 \<noteq> Need_more then Some (Inr ec2, p1, b2, s1)
                         else loop S P B deadline (Suc i) ec2 p1 b2 s1))) = Some r"
  from body show "ended_ok P B r"
    by (auto simp: Let_def split: if_splits sum.splits option.splits prod.splits dest: IH) blast
qed

text \<open>On a live stream the receiving loop keeps the stream live, and open unless it reports \<open>timed_out\<close>.\<close>

context http_transport
begin

lemma recv_loop_keeps:
  fixes P :: "('p, 'm) parser" and B :: "'b flat_buffer"
  assumes "recv_loop S P B deadline i ec p b s = Some r" and "live s"
  shows "live (snd (snd (snd r))) \<and> (fst r \<noteq> Inr Timed_out \<longrightarrow> opened (snd (snd (snd r))) = opened s)"
proof -
  have "S = S \<longrightarrow> live s \<longrightarrow>
      live (snd (snd (snd r))) \<and> (fst r \<noteq> Inr Timed_out \<longrightarrow> opened (snd (snd (snd r))) = opened s)"
    using assms(1)
  proof (rule recv_loop.raw_induct [where P = "\<lambda>S' P B deadline i ec p b s r. S' = S \<longrightarrow> live s \<longrightarrow>
      live (snd (snd (snd r))) \<and> (fst r \<noteq> Inr Timed_out \<longrightarrow> opened (snd (snd (snd r))) = opened s)", rotated])
    fix loop :: "'s http_stream \<Rightarrow> ('p, 'm) parser \<Rightarrow> 'b flat_buffer \<Rightarrow> tick \<Rightarrow> nat \<Rightarrow> error_code \<Rightarrow> 'p \<Rightarrow> 'b \<Rightarrow> 's
        \<Rightarrow> ((exn + error_code) \<times> 'p \<times> 'b \<times> 's) option"
      and S' P B deadline i ec p b s r
    assume IH: "\<And>S' P B deadline i ec p b s r. loop S' P B deadline i ec p b s = Some r \<Longrightarrow> S' = S \<longrightarrow> live s \<longrightarrow>
        live (snd (snd (snd r))) \<and> (fst r \<noteq> Inr Timed_out \<longrightarrow> opened (snd (snd (snd r))) = opened s)"
      and body: "(if pr_done P p then Some (Inr ec, p, b, s)
      else case buf_prepare B (read_size B b) b of
             Inl x \<Rightarrow> if x = Length_error then Some (Inr Buffer_overflow, p, b, s) else Some (Inl x, p, b, s)
           | Inr (room, b1) \<Rightarrow>
             (case st_read S' i room deadline s of
                None \<Rightarrow> None
              | Some (ec1, bytes, s1) \<Rightarrow>
                  if ec1 = Eof \<and> pr_got_some P p then
                    (case pr_put_eof P p of
                       (ec2, p1) \<Rightarrow> if \<not> is_error ec2 then loop S' P B deadline (Suc i) ec2 p1 b1 s1
                         else Some (Inr ec2, p1, b1, s1))
                  else if ec1 = Eof then Some (Inr End_of_stream, p, b1, s1)
                  else if is_error ec1 then Some (Inr ec1, p, b1, s1)
                  else
                    (case pr_put P (buf_data B (buf_commit B bytes b1)) p of
                       (ec2, n_bytes, p1) \<Rightarrow>
                         let b2 = buf_consume B (of_nat n_bytes) (buf_commit B bytes b1) in
                         if is_error ec2 \<and> ec2 \<noteq> Need_more then Some (Inr ec2, p1, b2, s1)
                         else loop S' P B deadline (Suc i) ec2 p1 b2 s1))) = Some r"
    show "S' = S \<longrightarrow> live s \<longrightarrow>
        live (snd (snd (snd r))) \<and> (fst r \<noteq> Inr Timed_out \<longrightarrow> opened (snd (snd (snd r))) = opened s)"
    proof (intro impI)
      assume S: "S' = S" and s: "live s"
      have keep: "live s1 \<and> (ec1 = Timed_out \<or> opened s1 = opened s)"
        if "st_read S i room deadline s = Some (ec1, bytes, s1)" for room ec1 bytes s1
        using read_keeps [OF s that] by auto
      have err: "\<not> is_error ec1 \<Longrightarrow> ec1 \<noteq> Timed_out" for ec1 by auto
      show "live (snd (snd (snd r))) \<and> (fst r \<noteq> Inr Timed_out \<longrightarrow> opened (snd (snd (snd r))) = opened s)"
        using body s unfolding S
        by (auto simp: Let_def split: if_splits sum.splits option.splits prod.splits dest!: keep IH [THEN mp, THEN mp] err)
    qed
  qed
  with assms(2) show ?thesis by simp
qed

text \<open>
  The receiving loop returns when its reads do and those from some call on report the timeout: the parser
  may ask for more data as often as it likes before.
\<close>

lemma recv_loop_returns:
  assumes "live s"
    and reads: "\<forall>i room s. live s \<longrightarrow>
      (\<exists>ec bytes s'. st_read S i room deadline s = Some (ec, bytes, s') \<and> (N \<le> i \<longrightarrow> ec = Timed_out))"
  shows "\<exists>r. recv_loop S P B deadline i ec p b s = Some r"
  using assms(1)
proof (induction "N - i" arbitrary: i ec p b s rule: less_induct)
  case less
  have on: "\<exists>r. recv_loop S P B deadline (Suc i) ec1 p1 b1 s1 = Some r" if "i < N" "live s1" for ec1 p1 b1 s1
    using less.hyps that by simp
  show ?case
  proof (cases "pr_done P p")
    case True
    then show ?thesis by (subst recv_loop.simps) simp
  next
    case open_: False
    show ?thesis
    proof (cases "buf_prepare B (read_size B b) b")
      case (Inl x)
      with open_ show ?thesis by (subst recv_loop.simps) simp
    next
      case (Inr rb)
      obtain room b1 where rb: "rb = (room, b1)" by (cases rb)
      obtain ec1 bytes s1 where read: "st_read S i room deadline s = Some (ec1, bytes, s1)" and late: "N \<le> i \<Longrightarrow> ec1 = Timed_out"
        using reads less.prems by blast
      have live1: "live s1" using read_keeps [OF less.prems read] by simp
      show ?thesis
      proof (cases "i < N")
        case True
        obtain ec2 n p1 where put: "pr_put P (buf_data B (buf_commit B bytes b1)) p = (ec2, n, p1)"
          by (cases "pr_put P (buf_data B (buf_commit B bytes b1)) p") auto
        obtain ec3 p2 where eof: "pr_put_eof P p = (ec3, p2)" by (cases "pr_put_eof P p")
        show ?thesis
          using on [OF True live1] by (subst recv_loop.simps) (simp add: open_ Inr rb read put eof Let_def)
      next
        case False
        then have "ec1 = Timed_out" using late by simp
        then show ?thesis by (subst recv_loop.simps) (simp add: open_ Inr rb read)
      qed
    qed
  qed
qed

lemma perform_returns:
  assumes "serializer_ok Z view" and "live (h_stream h)"
    and "\<forall>i room s. live s \<longrightarrow>
      (\<exists>ec bytes s'. st_read S i room deadline s = Some (ec, bytes, s') \<and> (N \<le> i \<longrightarrow> ec = Timed_out))"
  shows "\<exists>r. perform S Z P B i request ec deadline h = Some r"
proof -
  obtain ec1 w s1 where send: "send_request S Z request ec deadline (h_stream h) = Some (ec1, w, s1)" "live s1"
    using send_request_total [OF assms(1,2)] by blast
  from recv_loop_returns [OF send(2) assms(3), of P B i ec1 "pr_start P kHeaderLimit kBodyLimit"
      "buf_consume B (buf_size B (h_buffer h)) (h_buffer h)"] obtain r where
    "recv_loop S P B deadline i ec1 (pr_start P kHeaderLimit kBodyLimit) (buf_consume B (buf_size B (h_buffer h)) (h_buffer h)) s1 = Some r"
    by blast
  then show ?thesis
    using send(1) by (cases r) (auto simp: perform_def recv_response_def Let_def split: sum.splits option.splits)
qed

lemma perform_result:
  assumes "serializer_ok Z view" and "live (h_stream h)"
    and "perform S Z P B i request ec deadline h = Some (Inr (ec', response), wire, h')"
  shows "(response = None) = is_error ec' \<and>
    (\<forall>m. response = Some m \<longrightarrow> (\<exists>p. pr_done P p \<and> m = pr_get P p) \<and> wire = view (ser_start Z request)) \<and>
    prefix wire (view (ser_start Z request)) \<and> live (h_stream h') \<and>
    (ec' \<noteq> Timed_out \<longrightarrow> opened (h_stream h') = opened (h_stream h))"
proof -
  obtain ec1 w s1 where send: "send_request S Z request ec deadline (h_stream h) = Some (ec1, w, s1)"
    "prefix w (view (ser_start Z request))" "is_error ec1 \<or> w = view (ser_start Z request)" "live s1"
    "ec1 \<noteq> Timed_out \<longrightarrow> opened s1 = opened (h_stream h)"
    using send_request_total [OF assms(1,2)] by blast
  show ?thesis
  proof (cases "is_error ec1")
    case True
    with send assms(3) show ?thesis by (auto simp: perform_def)
  next
    case False
    then obtain p b s where r: "recv_loop S P B deadline i ec1 (pr_start P kHeaderLimit kBodyLimit)
        (buf_consume B (buf_size B (h_buffer h)) (h_buffer h)) s1 = Some (Inr ec', p, b, s)"
      "response = (if is_error ec' then None else Some (pr_get P p))" "wire = w" "h' = \<lparr>h_stream = s, h_buffer = b\<rparr>"
      using send(1) assms(3) by (auto simp: perform_def recv_response_def Let_def split: option.splits sum.splits)
    have "ec1 \<noteq> Timed_out" using False by auto
    then show ?thesis
      using recv_loop_done [OF r(1)] recv_loop_keeps [OF r(1) send(4)] r(2-4) False send(2,3,5) by auto
  qed
qed

end

lemma perform_no_throw:
  assumes "\<forall>n b x. buf_prepare B n b = Inl x \<longrightarrow> x = Length_error"
    and "perform S Z P B i request ec deadline h = Some (r, wire, h')"
  shows "\<exists>q. r = Inr q"
proof -
  have "\<not> ended_ok P B (Inl x, rest)" for x rest using assms(1) by auto
  then have "recv_loop S P B deadline i ec1 p b s \<noteq> Some (Inl x, rest)" for ec1 p b s x rest
    using recv_loop_done by metis
  then show ?thesis
    using assms(2) by (auto simp: perform_def recv_response_def Let_def split: option.splits sum.splits if_splits)
qed

section \<open>Sample parameters\<close>

definition list_serializer :: "(byte list, byte list) serializer" where
  "list_serializer = \<lparr>ser_start = (\<lambda>m. m), ser_done = (\<lambda>z. z = []), ser_next = (\<lambda>z. (Inr z, z)), ser_consume = drop\<rparr>"

definition slow_stream :: "unit http_stream" where
  "slow_stream = \<lparr>st_write = (\<lambda>i b d s. Some (Success, min 2 (length b), s)),
     st_read = (\<lambda>i room d s. Some (Success, [42], s)), st_io_timeout = (\<lambda>s. 1000000)\<rparr>"

lemma list_serializer_ok: "serializer_ok list_serializer (\<lambda>z. z)"
  by (simp add: serializer_ok_def list_serializer_def)

definition list_buffer :: "byte list flat_buffer" where
  "list_buffer = \<lparr>buf_max_size = (\<lambda>b. 100), buf_size = (\<lambda>b. of_nat (length b)),
     buf_prepare = (\<lambda>n b. if 100 < unat (of_nat (length b) :: 64 word) + unat n then Inl Length_error else Inr (unat n, b)),
     buf_commit = (\<lambda>bytes b. b @ bytes), buf_data = (\<lambda>b. b), buf_consume = (\<lambda>n b. drop (unat n) b)\<rparr>"

definition byte_parser :: "(byte option, byte) parser" where
  "byte_parser = \<lparr>pr_start = (\<lambda>hl bl. None), pr_done = (\<lambda>p. p \<noteq> None), pr_got_some = (\<lambda>p. False),
     pr_put_eof = (\<lambda>p. (End_of_stream, p)),
     pr_put = (\<lambda>bytes p. case bytes of [] \<Rightarrow> (Need_more, 0, p) | x # xs \<Rightarrow> (Success, 1, Some x)), pr_get = the\<rparr>"

section \<open>Properties\<close>

text \<open>
  The size of a read: with room in the buffer it is at most 64 KiB and leaves at least one byte of
  the buffer free; with a full buffer the subtraction wraps around, the buffer refuses the size,
  and the loop reports an overflow without reading.
\<close>

theorem read_size_bounded:
  assumes "buffer_ok B" and "buf_size B b \<le> buf_max_size B b" and "\<not> pr_done P p"
  shows "unat (read_size B b) \<le> 65536 \<and>
    (buf_size B b < buf_max_size B b \<longrightarrow> unat (buf_size B b) + unat (read_size B b) < unat (buf_max_size B b)) \<and>
    (buf_size B b = buf_max_size B b \<longrightarrow>
       recv_loop S P B deadline i ec p b s = Some (Inr Buffer_overflow, p, b, s))"
proof (intro conjI impI)
  have le: "read_size B b \<le> 65536" by (simp add: read_size_def)
  then show "unat (read_size B b) \<le> 65536" by (simp add: word_le_nat_alt)
  show "unat (buf_size B b) + unat (read_size B b) < unat (buf_max_size B b)"
    if "buf_size B b < buf_max_size B b"
  proof -
    have "1 \<le> buf_max_size B b - buf_size B b"
      using that by (simp add: word_le_nat_alt unat_sub word_less_nat_alt less_imp_le Suc_le_eq)
    then have "unat (buf_max_size B b - buf_size B b - 1) = unat (buf_max_size B b) - unat (buf_size B b) - 1"
      using that by (simp add: unat_sub less_imp_le)
    moreover have "unat (read_size B b) \<le> unat (buf_max_size B b - buf_size B b - 1)"
      by (simp add: read_size_def flip: word_le_nat_alt)
    ultimately show ?thesis using that by (simp add: word_less_nat_alt)
  qed
  show "recv_loop S P B deadline i ec p b s = Some (Inr Buffer_overflow, p, b, s)"
    if "buf_size B b = buf_max_size B b"
  proof -
    have "(65536 :: 64 word) \<le> - 1" by (simp add: word_le_nat_alt unsigned_minus_1_eq_mask mask_eq_exp_minus_1)
    then have "read_size B b = 65536" using that by (simp add: read_size_def)
    then have "buf_prepare B (read_size B b) b = Inl Length_error"
      using assms(1) that by (simp add: buffer_ok_def)
    with assms(3) show ?thesis by (subst recv_loop.simps) simp
  qed
qed

lemma list_buffer_ok: "buffer_ok list_buffer"
  by (simp add: buffer_ok_def list_buffer_def)

theorem read_size_bounded_witness: "unat (read_size list_buffer [1, 2, 3]) + 3 < 100"
  using read_size_bounded [OF list_buffer_ok, of "[1, 2, 3]" byte_parser None slow_stream 0 0 Success "()"]
  by (simp add: list_buffer_def byte_parser_def)

end
