(* ===== verification/Http_Session.thy ===== *)
theory Http_Session
  imports Http_Socket Connection_Pool
begin

text \<open>
  The HTTP client on the streams of the repository: \<open>http_client\<close> is \<open>http::base_socket\<close> over the TCP client,
  \<open>https_client\<close> the same over the SSL stream (\<open>stream/http_socket.hpp\<close>). Both are instances of the interface
  \<open>http_transport\<close>, whose lemmas give the properties of requests for both, and of sessions that go back
  to a pool.
\<close>

section \<open>The two streams\<close>

text \<open>
  What the numbered calls on a TCP client meet: the clock reading of their set-up, their events as a
  function of the size offered, and the bytes that arrive. The calls of the client have a deadline,
  with which \<open>scope_expire\<close> does not throw.
\<close>

record stream_calls =
  call_now :: "nat \<Rightarrow> tick"
  call_events :: "nat \<Rightarrow> nat \<Rightarrow> nat io_event list"
  arrived :: "nat \<Rightarrow> byte list"

definition tcp_stream :: "asio \<Rightarrow> sock_env \<Rightarrow> stream_calls \<Rightarrow> base_socket http_stream" where
  "tcp_stream A E C =
     \<lparr>st_write = (\<lambda>i b d s. case write_some A E (call_now C i) (call_events C i (length b)) (Time_point d) s of
          Some (Inr (ec, n), s') \<Rightarrow> Some (ec, n, s') | _ \<Rightarrow> None),
      st_read = (\<lambda>i room d s. case read_some A E (call_now C i) (call_events C i room) (Time_point d) s of
          Some (Inr (ec, n), s') \<Rightarrow> Some (ec, take n (arrived C i), s') | _ \<Rightarrow> None),
      st_io_timeout = io_timeout\<rparr>"

definition ssl_stream :: "asio \<Rightarrow> ssl_layer \<Rightarrow> base_socket http_stream" where
  "ssl_stream A L =
     \<lparr>st_write = (\<lambda>i b d s. case ssl_write_some A L i b (Time_point d) s of
          Some (Inr (ec, n), s') \<Rightarrow> Some (ec, n, s') | _ \<Rightarrow> None),
      st_read = (\<lambda>i room d s. case ssl_read_some A L i room (Time_point d) s of
          Some (Inr (ec, bytes), s') \<Rightarrow> Some (ec, bytes, s') | _ \<Rightarrow> None),
      st_io_timeout = io_timeout\<rparr>"

text \<open>Every call completes, and a transfer without an error moves at least a byte, at most what was offered.\<close>

definition calls_complete :: "stream_calls \<Rightarrow> bool" where
  "calls_complete C \<longleftrightarrow>
     (\<forall>i len. \<exists>t err n. completes (call_events C i len) t err n \<and> n \<le> len \<and> (0 < len \<longrightarrow> is_error err \<or> 0 < n))"

text \<open>
  The same of the SSL layer; it works through the client underneath, keeps its configuration and
  passes on the code with which the client closed itself.
\<close>

definition layer_completes :: "ssl_layer \<Rightarrow> bool" where
  "layer_completes L \<longleftrightarrow>
     (\<forall>i b s. armed s \<and> b \<noteq> [] \<longrightarrow>
        (\<exists>ec n s'. layer_write L i b s = Some (ec, n, s') \<and> n \<le> length b \<and> (is_error ec \<or> 0 < n))) \<and>
     (\<forall>i b s ec n s'. armed s \<longrightarrow> layer_write L i b s = Some (ec, n, s') \<longrightarrow>
        same_config s s' \<and> (ec \<noteq> Timed_out \<longrightarrow> is_open s' = is_open s)) \<and>
     (\<forall>i room s ec bytes s'. armed s \<longrightarrow> layer_read L i room s = Some (ec, bytes, s') \<longrightarrow>
        same_config s s' \<and> (ec \<noteq> Timed_out \<longrightarrow> is_open s' = is_open s))"

lemma tcp_call:
  assumes "armed s" and "calls_complete C"
  shows "\<exists>err n s' hit. transfer_once A E (call_now C i) (call_events C i len) (Time_point d) s =
      Some (Inr (completion_code hit err, n), s') \<and> n \<le> len \<and> (0 < len \<longrightarrow> is_error err \<or> 0 < n) \<and> after_wait hit s s'"
proof -
  obtain t err n where c: "completes (call_events C i len) t err n" "n \<le> len" "0 < len \<longrightarrow> is_error err \<or> 0 < n"
    using assms(2) unfolding calls_complete_def by metis
  have "arg_ok (Time_point d)" by (simp add: arg_ok_def)
  from transfer_once_outcome [OF assms(1) this c(1) refl] c(2,3) show ?thesis by blast
qed

interpretation tcp_http: http_transport "tcp_stream A E C" "\<lambda>s. armed s \<and> calls_complete C" is_open
proof
  fix s :: base_socket and b :: "byte list" and i d ec n s' room bytes
  assume live: "armed s \<and> calls_complete C"
  note call = tcp_call [of s C A E i _ d]
  { assume "b \<noteq> []"
    then show "\<exists>ec n s'. st_write (tcp_stream A E C) i b d s = Some (ec, n, s') \<and> n \<le> length b \<and> (is_error ec \<or> 0 < n)"
      using call [of "length b"] live by (auto simp: tcp_stream_def write_some_def completion_code_def) }
  { assume "st_write (tcp_stream A E C) i b d s = Some (ec, n, s')"
    then show "(armed s' \<and> calls_complete C) \<and> (ec \<noteq> Timed_out \<longrightarrow> is_open s' = is_open s)"
      using call [of "length b"] live
      by (auto simp: tcp_stream_def write_some_def completion_code_def after_wait_def is_open_def) }
  { assume "st_read (tcp_stream A E C) i room d s = Some (ec, bytes, s')"
    then show "(armed s' \<and> calls_complete C) \<and> (ec \<noteq> Timed_out \<longrightarrow> is_open s' = is_open s)"
      using call [of room] live
      by (auto simp: tcp_stream_def read_some_def completion_code_def after_wait_def is_open_def) }
qed

lemma ssl_call_keeps:
  assumes "with_deadline A t0 t1 (Time_point d) call s = Some (Inr (ec, r), s')" and "armed s"
    and "\<And>s ec r s'. armed s \<Longrightarrow> call s = Some (ec, r, s') \<Longrightarrow> same_config s s' \<and> (ec \<noteq> Timed_out \<longrightarrow> is_open s' = is_open s)"
  shows "armed s' \<and> (ec \<noteq> Timed_out \<longrightarrow> is_open s' = is_open s)"
proof -
  let ?s = "s\<lparr>io_timeouted := False, deadline_fired := False, timer_expiry := d\<rparr>"
  have "armed ?s" using assms(2) by (simp add: armed_def)
  moreover obtain s2 where "call ?s = Some (ec, r, s2)" "s' = expiration_dtor A t1 Timer (s2\<lparr>io_timeouted := io_timeouted s\<rparr>)"
    using assms(1) by (auto simp: with_deadline_def set_io_timeout_enabled_def split: option.splits)
  ultimately show ?thesis
    using assms(3) [of ?s ec r s2] by (auto simp: same_config_def armed_def expiration_dtor_def is_open_def)
qed

interpretation ssl_http: http_transport "ssl_stream A L" "\<lambda>s. armed s \<and> layer_completes L" is_open
proof
  fix s :: base_socket and b :: "byte list" and i d ec n s' room bytes
  assume live: "armed s \<and> layer_completes L"
  { assume "b \<noteq> []"
    moreover have "armed (s\<lparr>io_timeouted := False, deadline_fired := False, timer_expiry := d\<rparr>)"
      using live by (simp add: armed_def)
    ultimately obtain ec n s2 where "layer_write L i b (s\<lparr>io_timeouted := False, deadline_fired := False, timer_expiry := d\<rparr>) =
        Some (ec, n, s2)" "n \<le> length b" "is_error ec \<or> 0 < n"
      using live unfolding layer_completes_def by metis
    then show "\<exists>ec n s'. st_write (ssl_stream A L) i b d s = Some (ec, n, s') \<and> n \<le> length b \<and> (is_error ec \<or> 0 < n)"
      by (simp add: ssl_stream_def write_some_deadline) }
  { assume "st_write (ssl_stream A L) i b d s = Some (ec, n, s')"
    then show "(armed s' \<and> layer_completes L) \<and> (ec \<noteq> Timed_out \<longrightarrow> is_open s' = is_open s)"
      using live ssl_call_keeps [of A "call_start L i" "call_end L i" d "layer_write L i b" s ec n s']
      by (auto simp: ssl_stream_def ssl_write_some_def layer_completes_def split: option.splits sum.splits) }
  { assume "st_read (ssl_stream A L) i room d s = Some (ec, bytes, s')"
    then show "(armed s' \<and> layer_completes L) \<and> (ec \<noteq> Timed_out \<longrightarrow> is_open s' = is_open s)"
      using live ssl_call_keeps [of A "call_start L i" "call_end L i" d "layer_read L i room" s ec bytes s']
      by (auto simp: ssl_stream_def ssl_read_some_def layer_completes_def split: option.splits sum.splits) }
qed

section \<open>Properties\<close>

definition sample_stream_calls :: stream_calls where
  "sample_stream_calls = \<lparr>call_now = (\<lambda>i. 10), call_events = (\<lambda>i len. [Deadline 20 21, Completed 30 Success (min 2 len)]),
     arrived = (\<lambda>i. [42, 43])\<rparr>"

lemma sample_stream_calls_complete: "calls_complete sample_stream_calls"
  by (auto simp: calls_complete_def sample_stream_calls_def completes_def)

lemma sample_socket_armed: "armed sample_socket"
  by (simp add: sample_socket_def armed_def)

lemma slow_layer_completes: "layer_completes slow_layer"
  by (auto simp: layer_completes_def slow_layer_def same_config_def split: if_splits)

text \<open>
  C20. Sending a request over either stream returns, and what it has given to the stream is a prefix of the
  serialized request: all of it, unless an error is reported. No byte is skipped or repeated however the
  stream splits the writes.
\<close>

theorem request_sent_whole:
  assumes "serializer_ok Z view" and "armed s"
  shows "(calls_complete C \<longrightarrow> (\<exists>ec' wire s'. send_request (tcp_stream A E C) Z request ec deadline s = Some (ec', wire, s') \<and>
      prefix wire (view (ser_start Z request)) \<and> (is_error ec' \<or> wire = view (ser_start Z request)))) \<and>
    (layer_completes L \<longrightarrow> (\<exists>ec' wire s'. send_request (ssl_stream A L) Z request ec deadline s = Some (ec', wire, s') \<and>
      prefix wire (view (ser_start Z request)) \<and> (is_error ec' \<or> wire = view (ser_start Z request))))"
  using tcp_http.send_request_total [OF assms(1), of s C A E request ec deadline]
    ssl_http.send_request_total [OF assms(1), of s L A request ec deadline] assms(2)
  by blast

theorem request_sent_whole_witness:
  "(\<exists>ec' wire s'. send_request (tcp_stream linux_asio sample_env sample_stream_calls) list_serializer [1, 2, 3] Success 1000 sample_socket =
       Some (ec', wire, s') \<and> (is_error ec' \<or> wire = [1, 2, 3])) \<and>
   (\<exists>ec' wire s'. send_request (ssl_stream linux_asio slow_layer) list_serializer [1, 2, 3] Success 1000 sample_socket =
       Some (ec', wire, s') \<and> (is_error ec' \<or> wire = [1, 2, 3]))"
  using request_sent_whole [OF list_serializer_ok sample_socket_armed, of sample_stream_calls linux_asio sample_env "[1, 2, 3]" Success 1000
      slow_layer]
    sample_stream_calls_complete slow_layer_completes
  by (fastforce simp: list_serializer_def)

lemma either_stream_perform:
  assumes "serializer_ok Z view" and "armed (h_stream h)"
    and "S = tcp_stream A E C \<and> calls_complete C \<or> S = ssl_stream A L \<and> layer_completes L"
    and "perform S Z P B i request ec deadline h = Some (Inr (ec', response), wire, h')"
  shows "(response = None) = is_error ec'"
    "response = Some m \<Longrightarrow> (\<exists>p. pr_done P p \<and> m = pr_get P p) \<and> wire = view (ser_start Z request)"
    "armed (h_stream h')" "ec' \<noteq> Timed_out \<Longrightarrow> is_open (h_stream h') = is_open (h_stream h)"
proof -
  have "(response = None) = is_error ec' \<and>
    (\<forall>m. response = Some m \<longrightarrow> (\<exists>p. pr_done P p \<and> m = pr_get P p) \<and> wire = view (ser_start Z request)) \<and>
    armed (h_stream h') \<and> (ec' \<noteq> Timed_out \<longrightarrow> is_open (h_stream h') = is_open (h_stream h))"
    using assms(3)
  proof
    assume S: "S = tcp_stream A E C \<and> calls_complete C"
    show ?thesis
      using tcp_http.perform_result [OF assms(1) _ assms(4) [unfolded S [THEN conjunct1]]] S assms(2) by simp
  next
    assume S: "S = ssl_stream A L \<and> layer_completes L"
    show ?thesis
      using ssl_http.perform_result [OF assms(1) _ assms(4) [unfolded S [THEN conjunct1]]] S assms(2) by simp
  qed
  then show "(response = None) = is_error ec'"
    "response = Some m \<Longrightarrow> (\<exists>p. pr_done P p \<and> m = pr_get P p) \<and> wire = view (ser_start Z request)"
    "armed (h_stream h')" "ec' \<noteq> Timed_out \<Longrightarrow> is_open (h_stream h') = is_open (h_stream h)" by blast+
qed

text \<open>
  Performing a request over either stream: a response comes back exactly when no error is reported, it
  is the one of a parser that has seen a complete message, and the whole request has been sent before.
\<close>

theorem perform_outcome:
  assumes "serializer_ok Z view" and "armed (h_stream h)"
    and "S = tcp_stream A E C \<and> calls_complete C \<or> S = ssl_stream A L \<and> layer_completes L"
    and "perform S Z P B i request ec deadline h = Some (Inr (ec', response), wire, h')"
  shows "(response = None) = is_error ec' \<and>
    (\<forall>m. response = Some m \<longrightarrow>
       (\<exists>p. pr_done P p \<and> m = pr_get P p) \<and> wire = view (ser_start Z request))"
  using either_stream_perform(1,2) [OF assms] by blast

abbreviation sample_http :: "(base_socket, byte list) http_socket" where
  "sample_http \<equiv> \<lparr>h_stream = sample_socket, h_buffer = []\<rparr>"

lemma sample_read:
  assumes "2 \<le> room"
  shows "st_read (tcp_stream linux_asio sample_env sample_stream_calls) 0 room 1000 sample_socket = Some (Success, [42, 43], sample_socket)"
proof -
  have "min 2 room = 2" using assms by simp
  then show ?thesis
    by (simp add: tcp_stream_def read_some_def transfer_once_def sample_stream_calls_def sample_socket_def check_deadline_def
        post_deadline_def set_handler_def completion_code_def expiration_dtor_def io_service_reset_def linux_asio_def
        duration_defs)
qed

lemma sample_perform:
  "perform (tcp_stream linux_asio sample_env sample_stream_calls) list_serializer byte_parser list_buffer 0 [] Success 1000
       sample_http = Some (Inr (Success, Some 42), [], \<lparr>h_stream = sample_socket, h_buffer = [43]\<rparr>)"
  by (simp add: perform_def send_request_def send_request_loop.simps recv_response_def Let_def recv_loop.simps
      list_serializer_def list_buffer_def byte_parser_def read_size_def sample_read)

theorem perform_outcome_witness:
  "\<exists>p. perform (tcp_stream linux_asio sample_env sample_stream_calls) list_serializer byte_parser list_buffer 0 [] Success 1000
       sample_http = Some (Inr (Success, Some 42), [], \<lparr>h_stream = sample_socket, h_buffer = [43]\<rparr>) \<and>
     pr_done byte_parser p \<and> 42 = pr_get byte_parser p"
  using perform_outcome [OF list_serializer_ok _ _ sample_perform, of linux_asio sample_env sample_stream_calls sample_layer]
    sample_perform sample_socket_armed sample_stream_calls_complete by auto

text \<open>
  The deadline passes: from the \<open>N\<close>th call on, the clock reaches it before the operation completes. Over SSL
  the layer passes the timeout of the client underneath on.
\<close>

definition late_from :: "nat \<Rightarrow> tick \<Rightarrow> stream_calls \<Rightarrow> bool" where
  "late_from N d C \<longleftrightarrow> (\<forall>i len. N \<le> i \<longrightarrow> deadline_hit d (call_events C i len))"

definition layer_late_from :: "nat \<Rightarrow> tick \<Rightarrow> ssl_layer \<Rightarrow> bool" where
  "layer_late_from N d L \<longleftrightarrow>
     (\<forall>i room s. armed s \<longrightarrow> (\<exists>ec bytes s'. layer_read L i room s = Some (ec, bytes, s') \<and>
        (N \<le> i \<and> timer_expiry s = d \<longrightarrow> ec = Timed_out)))"

lemma slow_layer_late: "d \<le> 1000 * int N + 900 \<Longrightarrow> layer_late_from N d slow_layer"
  by (auto simp: layer_late_from_def slow_layer_def)

lemma tcp_read_late:
  assumes "armed s" and "calls_complete C" and "late_from N d C"
  shows "\<exists>ec bytes s'. st_read (tcp_stream A E C) i room d s = Some (ec, bytes, s') \<and> (N \<le> i \<longrightarrow> ec = Timed_out)"
proof -
  obtain t err n where c: "completes (call_events C i room) t err n"
    using assms(2) unfolding calls_complete_def by metis
  have "arg_ok (Time_point d)" by (simp add: arg_ok_def)
  from transfer_once_outcome [OF assms(1) this c refl, of A E "call_now C i"] obtain s' where
    "transfer_once A E (call_now C i) (call_events C i room) (Time_point d) s =
       Some (Inr (completion_code (deadline_hit d (call_events C i room)) err, n), s')" by (auto simp: expiry_of_def)
  with assms(3) show ?thesis by (simp add: tcp_stream_def read_some_def late_from_def completion_code_def)
qed

lemma ssl_read_late:
  assumes "armed s" and "layer_late_from N d L"
  shows "\<exists>ec bytes s'. st_read (ssl_stream A L) i room d s = Some (ec, bytes, s') \<and> (N \<le> i \<longrightarrow> ec = Timed_out)"
proof -
  let ?s = "s\<lparr>io_timeouted := False, deadline_fired := False, timer_expiry := d\<rparr>"
  have "armed ?s" "timer_expiry ?s = d" using assms(1) by (simp_all add: armed_def)
  with assms(2) obtain ec bytes s2 where "layer_read L i room ?s = Some (ec, bytes, s2)" "N \<le> i \<longrightarrow> ec = Timed_out"
    unfolding layer_late_from_def by blast
  then show ?thesis by (simp add: ssl_stream_def ssl_read_some_def with_deadline_def set_io_timeout_enabled_def)
qed

text \<open>
  \<open>perform\<close> returns: over either stream, whatever the peer sends and however often the parser asks for
  more, a call whose deadline passes at some point comes back.
\<close>

lemma tcp_comes_back:
  assumes "serializer_ok Z view" and "armed (h_stream h)" and "calls_complete C" and "late_from N deadline C"
  shows "\<exists>r. perform (tcp_stream A E C) Z P B i request ec deadline h = Some r"
  by (rule tcp_http.perform_returns [OF assms(1), of h C A E deadline N]) (use assms(2-4) tcp_read_late in blast)+

lemma ssl_comes_back:
  assumes "serializer_ok Z view" and "armed (h_stream h)" and "layer_completes L" and "layer_late_from N deadline L"
  shows "\<exists>r. perform (ssl_stream A L) Z P B i request ec deadline h = Some r"
  by (rule ssl_http.perform_returns [OF assms(1), of h L A deadline N]) (use assms(2-4) ssl_read_late in blast)+

definition stalled_calls :: stream_calls where
  "stalled_calls = sample_stream_calls\<lparr>call_events := \<lambda>i len.
     if i < 3 then [Completed 30 Success (min 2 len)] else [Deadline 2000 2001, Completed 2002 Operation_aborted 0]\<rparr>"

lemma slow_read:
  "2 \<le> room \<Longrightarrow> st_read (ssl_stream linux_asio slow_layer) 0 room 1000 sample_socket =
     Some (Success, [7, 8], sample_socket\<lparr>timer_expiry := kInfiniteDuration\<rparr>)"
  by (simp add: ssl_stream_def slow_layer_defs expiration_dtor_def linux_asio_def duration_defs sample_socket_def)

lemma slow_perform:
  "perform (ssl_stream linux_asio slow_layer) list_serializer byte_parser list_buffer 0 [] Success 1000
       sample_http = Some (Inr (Success, Some 7), [], \<lparr>h_stream = sample_socket\<lparr>timer_expiry := kInfiniteDuration\<rparr>, h_buffer = [8]\<rparr>)"
  by (simp add: perform_def send_request_def send_request_loop.simps recv_response_def Let_def recv_loop.simps
      list_serializer_def list_buffer_def byte_parser_def read_size_def slow_read)

text \<open>
  C21. Sessions and the pool: an open HTTP session over either stream that has answered, or failed without
  timing out, is still open, so that returning it appends it to the pool's list if the pool's mutex is
  locked within the millisecond that \<open>return_session\<close> waits, and drops it otherwise; a session that was closed
  while it performed a request has reported \<open>timed_out\<close> without a response, and the pool drops it in any case.
\<close>

theorem performed_session_pooled:
  assumes "serializer_ok Z view" and "armed (h_stream h)" and "http_is_open is_open h"
    and "S = tcp_stream A E C \<and> calls_complete C \<or> S = ssl_stream A L \<and> layer_completes L"
    and "perform S Z P B i request ec deadline h = Some (Inr (ec', response), wire, h')"
  shows "(response \<noteq> None \<or> ec' \<noteq> Timed_out \<longrightarrow>
      http_is_open is_open h' \<and>
      return_session (http_is_open is_open) locked now (Some h') p =
        (if locked then p\<lparr>sesson_pool := sesson_pool p @ [(now, h')]\<rparr> else p)) \<and>
    (\<not> http_is_open is_open h' \<longrightarrow>
      ec' = Timed_out \<and> response = None \<and> return_session (http_is_open is_open) locked now (Some h') p = p)"
proof -
  note perf = either_stream_perform [OF assms(1,2,4,5)]
  show ?thesis
    using perf(1,4) assms(3)
    by (cases "ec' = Timed_out") (auto simp: http_is_open_def http_next_layer_def return_session_def)
qed

theorem performed_session_pooled_witness:
  "sesson_pool (return_session (http_is_open is_open) True 7 (Some \<lparr>h_stream = sample_socket, h_buffer = [43 :: byte]\<rparr>)
     (pool_ctor 2 1000 sample_connector)) = [(7, \<lparr>h_stream = sample_socket, h_buffer = [43]\<rparr>)] \<and>
   (\<exists>h'. perform (ssl_stream linux_asio slow_layer) list_serializer byte_parser list_buffer 0 [] Success 1000 sample_http =
       Some (Inr (Success, Some 7), [], h') \<and>
     sesson_pool (return_session (http_is_open is_open) True 7 (Some h') (pool_ctor 2 1000 sample_connector)) = [(7, h')] \<and>
     sesson_pool (return_session (http_is_open is_open) False 7 (Some h') (pool_ctor 2 1000 sample_connector)) = [])"
proof -
  have h: "http_is_open is_open sample_http" "armed (h_stream sample_http)"
    by (simp_all add: http_is_open_def http_next_layer_def sample_socket_def is_open_def armed_def)
  have p: "sesson_pool (pool_ctor 2 1000 sample_connector) = []" by (simp add: pool_ctor_def)
  note tcp = performed_session_pooled [OF list_serializer_ok h(2,1) disjI1 [OF conjI [OF refl sample_stream_calls_complete]] sample_perform,
      where now = 7 and p = "pool_ctor 2 1000 sample_connector"]
  note ssl = performed_session_pooled [OF list_serializer_ok h(2,1) disjI2 [OF conjI [OF refl slow_layer_completes]] slow_perform,
      where now = 7 and p = "pool_ctor 2 1000 sample_connector"]
  have t: "sesson_pool (return_session (http_is_open is_open) True 7 (Some \<lparr>h_stream = sample_socket, h_buffer = [43 :: byte]\<rparr>)
      (pool_ctor 2 1000 sample_connector)) = [(7, \<lparr>h_stream = sample_socket, h_buffer = [43]\<rparr>)]"
    using tcp [THEN conjunct1, THEN mp, THEN conjunct2, of True] by (simp add: p)
  let ?h = "\<lparr>h_stream = sample_socket\<lparr>timer_expiry := kInfiniteDuration\<rparr>, h_buffer = [8 :: byte]\<rparr>"
  have l: "sesson_pool (return_session (http_is_open is_open) True 7 (Some ?h) (pool_ctor 2 1000 sample_connector)) = [(7, ?h)]"
    "sesson_pool (return_session (http_is_open is_open) False 7 (Some ?h) (pool_ctor 2 1000 sample_connector)) = []"
    using ssl [THEN conjunct1, THEN mp, THEN conjunct2] by (simp_all add: p)
  show ?thesis by (intro conjI exI [of _ ?h] t slow_perform l)
qed

end
