(* ===== verification/Pool_Clients.thy ===== *)
theory Pool_Clients
  imports Connection_Pool
begin

text \<open>
  The clients of a pool (\<open>connector/impl/connection_pool.ipp\<close>): how many connections exist when clients
  hold sessions, and how clients that find the list empty wait for one.

  \<open>Connection_Pool\<close> takes a call of \<open>get_session\<close> or \<open>is_connected\<close> as one step, at the moment its wait ends.
  Here the wait itself is modelled: the threads blocked on \<open>pool_cv_\<close>, the notification that every
  \<open>return_session\<close> gives after it has unlocked, the relocking and the new look at the list. A section
  between locking and unlocking \<open>pool_mutex_\<close> is one step.
\<close>

section \<open>The number of connections\<close>

text \<open>
  The number of sessions clients hold, before and after an event: pulling one adds at most one,
  returning one removes it, and a client may destroy what it holds at any time.
\<close>

fun held_change :: "'s pool_label \<Rightarrow> nat \<Rightarrow> nat \<Rightarrow> bool" where
  "held_change (Took x) k k' = (k' \<le> Suc k)"
| "held_change (Returned x) k k' = (k' < k)"
| "held_change l k k' = (k' \<le> k)"

fun held :: "nat \<Rightarrow> 's pool_label list \<Rightarrow> nat list \<Rightarrow> bool" where
  "held k [] ks = (ks = [])"
| "held k (l # ls) [] = False"
| "held k (l # ls) (k' # ks) = (held_change l k k' \<and> held k' ls ks)"

lemma held_snoc:
  "held k (ls @ [l]) ks \<longleftrightarrow> (\<exists>ks' k'. ks = ks' @ [k'] \<and> held k ls ks' \<and> held_change l (last (k # ks')) k')"
proof (induction k ls ks rule: held.induct)
  case (1 k ks)
  show ?case by (cases ks) (auto simp: Cons_eq_append_conv neq_Nil_conv)
next
  case (3 k l' ls k' ks)
  then show ?case by (fastforce simp: Cons_eq_append_conv)
qed simp

definition connections_inv :: "64 word \<Rightarrow> nat \<Rightarrow> 's pool_label list \<Rightarrow> ('ep, 's) pool_state \<Rightarrow> bool" where
  "connections_inv n most ls s \<longleftrightarrow> pool_max_size (the_pool s) = n \<and>
     (\<forall>ks. held 0 ls ks \<and> (\<forall>k \<in> set ks. k \<le> most) \<longrightarrow> filling s + last (0 # ks) \<le> unat n + most)"

lemma connections_inv_step:
  assumes "pool_step session_open attempts l s t" and inv: "connections_inv n most ls s"
    and bound: "\<And>v m. attempts v m \<Longrightarrow> m \<le> unat v" and "unat n + most < 2 ^ 64"
  shows "connections_inv n most (ls @ [l]) t"
  unfolding connections_inv_def
proof (intro conjI allI impI)
  show max: "pool_max_size (the_pool t) = n"
    using pool_step_max [OF assms(1)] inv by (simp add: connections_inv_def)
  fix ks
  assume "held 0 (ls @ [l]) ks \<and> (\<forall>k \<in> set ks. k \<le> most)"
  then obtain ks' k' where k: "ks = ks' @ [k']" "held 0 ls ks'" "held_change l (last (0 # ks')) k'"
    "\<forall>k \<in> set ks'. k \<le> most" "k' \<le> most"
    by (auto simp: held_snoc)
  with inv have before: "filling s + last (0 # ks') \<le> unat n + most" by (simp add: connections_inv_def)
  with assms(4) have "length (sesson_pool (the_pool s)) < 2 ^ 64" by (simp add: filling_def)
  from pool_step_size [OF assms(1) bound this] before k(3,5) inv
  have "filling t + k' \<le> unat n + most"
    by (cases l) (auto simp: size_change_def connections_inv_def)
  with k(1) show "filling t + last (0 # ks) \<le> unat n + most" by simp
qed

lemma connections_inv_run:
  assumes "pool_run session_open attempts ls (pool_init n limit c t0) s"
    and "\<And>v m. attempts v m \<Longrightarrow> m \<le> unat v" and "unat n + most < 2 ^ 64"
  shows "connections_inv n most ls s"
proof (rule pool_runs.run_invariant [OF assms(1)])
  show "connections_inv n most [] (pool_init n limit c t0)"
    by (simp add: connections_inv_def pool_init_def pool_ctor_def filling_def)
qed (use assms(2,3) in \<open>blast intro: connections_inv_step\<close>)

text \<open>
  C6. The number of connections: if the clients never hold more than \<open>most\<close> sessions at a time, the
  sessions in the list, the connects under way and the sessions held are together at most the size of
  the pool plus \<open>most\<close>, in every run and with every strategy that connects at most once per vacant
  place. With one session out at a time these are the size + 1 connections of the documentation.
\<close>

theorem connections_bounded:
  assumes "pool_run session_open attempts ls (pool_init n limit c t0) s"
    and "\<forall>v m. attempts v m \<longrightarrow> m \<le> unat v" and "unat n + most < 2 ^ 64"
    and "held 0 ls ks" and "\<forall>k \<in> set ks. k \<le> most"
  shows "length (sesson_pool (the_pool s)) + pending (watcher s) + last (0 # ks) \<le> unat n + most"
  using connections_inv_run [OF assms(1) _ assms(3)] assms(2,4,5) by (simp add: connections_inv_def filling_def)

theorem connections_bounded_witness:
  "length (sesson_pool (the_pool sample_taken)) + pending (watcher sample_taken) + 1 \<le> 3"
proof -
  have "\<forall>v m. one_per_place v m \<longrightarrow> m \<le> unat v" by (simp add: one_per_place_def)
  from connections_bounded [OF sample_pool_run [unfolded sample_start_def] this, of 1 "[0, 0, 0, 0, 1]"]
  show ?thesis by simp
qed

section \<open>Waiting for a session\<close>

text \<open>
  A thread waits in \<open>ensure_session\<close> for \<open>get_session\<close> or for \<open>is_connected\<close>: who it is, for which of the
  two, and until when.
\<close>

datatype purpose = To_take | To_look

type_synonym waiter = "nat \<times> purpose \<times> tick"

text \<open>
  \<open>asleep\<close>: blocked on \<open>pool_cv_\<close>; \<open>woken\<close>: unblocked, about to lock again and look; \<open>late\<close>: its deadline has
  passed, about to lock again and look for the last time; \<open>notifies\<close>: the calls of \<open>return_session\<close> that
  have unlocked and not yet called \<open>notify_one\<close>.
\<close>

record ('ep, 's) wait_state =
  shared :: "('ep, 's) pool_state"
  asleep :: "waiter multiset"
  woken :: "waiter multiset"
  late :: "waiter multiset"
  notifies :: nat

datatype 's wait_label =
    Pool_event "'s pool_label"
  | Blocks waiter
  | Wakes waiter
  | Nobody
  | Spurious waiter
  | Expires waiter
  | Served waiter 's
  | Sees waiter
  | Sleeps_again waiter
  | Gives_up waiter

definition wait_init :: "64 word \<Rightarrow> tick \<Rightarrow> 'ep connector \<Rightarrow> tick \<Rightarrow> ('ep, 's) wait_state" where
  "wait_init n limit c t0 =
     \<lparr>shared = pool_init n limit c t0, asleep = {#}, woken = {#}, late = {#}, notifies = 0\<rparr>"

text \<open>An event that puts a session into the list is followed by a notification.\<close>

fun notifying :: "'s pool_label \<Rightarrow> nat" where
  "notifying (Returned x) = 1"
| "notifying (Opened x) = 1"
| "notifying l = 0"

text \<open>A waiter that has looked and found a session leaves.\<close>

definition leave :: "waiter \<Rightarrow> ('ep, 's) wait_state \<Rightarrow> ('ep, 's) wait_state" where
  "leave w s = (if w \<in># woken s then s\<lparr>woken := woken s - {#w#}\<rparr> else s\<lparr>late := late s - {#w#}\<rparr>)"

text \<open>
  \<open>ws_pool\<close>: the clock, the watcher, the adders, and clients that need not wait. \<open>ws_blocks\<close>: the lock is
  acquired and the list is empty. A waiter whose deadline passes looks once more before it gives up,
  as \<open>wait_until\<close> with a predicate does.
\<close>

inductive wait_step ::
  "('s \<Rightarrow> bool) \<Rightarrow> (64 word \<Rightarrow> nat \<Rightarrow> bool) \<Rightarrow> 's wait_label
     \<Rightarrow> ('ep, 's) wait_state \<Rightarrow> ('ep, 's) wait_state \<Rightarrow> bool"
  for session_open :: "'s \<Rightarrow> bool" and attempts :: "64 word \<Rightarrow> nat \<Rightarrow> bool"
  where
  ws_pool: "pool_step session_open attempts l (shared s) p \<Longrightarrow>
     wait_step session_open attempts (Pool_event l) s (s\<lparr>shared := p, notifies := notifies s + notifying l\<rparr>)"
| ws_blocks: "sesson_pool (the_pool (shared s)) = [] \<Longrightarrow>
     wait_step session_open attempts (Blocks w) s (s\<lparr>asleep := asleep s + {#w#}\<rparr>)"
| ws_wakes: "notifies s = Suc m \<Longrightarrow> w \<in># asleep s \<Longrightarrow>
     wait_step session_open attempts (Wakes w) s
       (s\<lparr>asleep := asleep s - {#w#}, woken := woken s + {#w#}, notifies := m\<rparr>)"
| ws_nobody: "notifies s = Suc m \<Longrightarrow> asleep s = {#} \<Longrightarrow>
     wait_step session_open attempts Nobody s (s\<lparr>notifies := m\<rparr>)"
| ws_spurious: "w \<in># asleep s \<Longrightarrow>
     wait_step session_open attempts (Spurious w) s (s\<lparr>asleep := asleep s - {#w#}, woken := woken s + {#w#}\<rparr>)"
| ws_expires: "w = (i, a, deadline) \<Longrightarrow> w \<in># asleep s \<Longrightarrow> deadline \<le> clock (shared s) \<Longrightarrow>
     wait_step session_open attempts (Expires w) s (s\<lparr>asleep := asleep s - {#w#}, late := late s + {#w#}\<rparr>)"
| ws_served: "w = (i, To_take, deadline) \<Longrightarrow> w \<in># woken s + late s \<Longrightarrow>
     get_session True ec (the_pool (shared s)) = ((Some x, ec'), p) \<Longrightarrow>
     wait_step session_open attempts (Served w x) s
       ((leave w s)\<lparr>shared := (shared s)\<lparr>the_pool := p\<rparr>\<rparr>)"
| ws_sees: "w = (i, To_look, deadline) \<Longrightarrow> w \<in># woken s + late s \<Longrightarrow>
     is_connected True ec (the_pool (shared s)) = (True, ec') \<Longrightarrow>
     wait_step session_open attempts (Sees w) s (leave w s)"
| ws_sleeps_again: "w \<in># woken s \<Longrightarrow> sesson_pool (the_pool (shared s)) = [] \<Longrightarrow>
     wait_step session_open attempts (Sleeps_again w) s (s\<lparr>woken := woken s - {#w#}, asleep := asleep s + {#w#}\<rparr>)"
| ws_gives_up: "w \<in># late s \<Longrightarrow> sesson_pool (the_pool (shared s)) = [] \<Longrightarrow>
     wait_step session_open attempts (Gives_up w) s (s\<lparr>late := late s - {#w#}\<rparr>)"

inductive wait_run ::
  "('s \<Rightarrow> bool) \<Rightarrow> (64 word \<Rightarrow> nat \<Rightarrow> bool) \<Rightarrow> 's wait_label list
     \<Rightarrow> ('ep, 's) wait_state \<Rightarrow> ('ep, 's) wait_state \<Rightarrow> bool"
  for session_open :: "'s \<Rightarrow> bool" and attempts :: "64 word \<Rightarrow> nat \<Rightarrow> bool"
  where
  wait_nil: "wait_run session_open attempts [] s s"
| wait_snoc: "wait_run session_open attempts ls s t \<Longrightarrow> wait_step session_open attempts l t u \<Longrightarrow>
     wait_run session_open attempts (ls @ [l]) s u"

inductive_cases wait_run_nilE: "wait_run session_open attempts [] s t"
inductive_cases wait_run_snocE: "wait_run session_open attempts (ls @ [l]) s t"

interpretation wait_runs:
  labelled_system "wait_step session_open attempts" "\<lambda>_. True" "wait_run session_open attempts"
  for session_open :: "'s \<Rightarrow> bool" and attempts :: "64 word \<Rightarrow> nat \<Rightarrow> bool"
  by unfold_locales (auto elim: wait_run_nilE wait_run_snocE intro: wait_nil wait_snoc)

lemma leave_simps [simp]: "shared (leave w s) = shared s" "asleep (leave w s) = asleep s" "notifies (leave w s) = notifies s"
  by (simp_all add: leave_def)

lemma leave_waiters: "v \<in># woken (leave w s) + late (leave w s) \<Longrightarrow> v \<in># woken s + late s"
  by (auto simp: leave_def split: if_splits dest: in_diffD)

lemma leave_size: "size (woken s) \<le> Suc (size (woken (leave w s)))"
  by (cases "size (woken s)") (simp_all add: leave_def size_Diff_singleton)

section \<open>Waiting is invisible to the pool\<close>

text \<open>What an event of the waiting machine is to the pool: a call of \<open>get_session\<close> acts when its wait ends.\<close>

fun pool_events :: "'s wait_label \<Rightarrow> 's pool_label list" where
  "pool_events (Pool_event l) = [l]"
| "pool_events (Served w x) = [Took x]"
| "pool_events (Gives_up (i, To_take, deadline)) = [Refused Not_found]"
| "pool_events l = []"

lemma wait_step_view:
  assumes "wait_step session_open attempts l s t"
  shows "pool_run session_open attempts (pool_events l) (shared s) (shared t)"
  using assms
proof cases
  case (ws_served w i deadline ec x ec' p)
  then show ?thesis by (simp add: pool_runs.run_one p_get)
next
  case (ws_gives_up w)
  then have "get_session True Success (the_pool (shared s)) = ((None, Not_found), the_pool (shared s))"
    by (simp add: pool_defs)
  from p_get_fails [OF this] ws_gives_up show ?thesis
    by (cases w rule: prod_cases3, cases "fst (snd w)") (simp_all add: pool_runs.run_one pool_runs.run_empty)
qed (simp_all add: pool_runs.run_one pool_runs.run_empty)

interpretation waiting_to_pool:
  labelled_projection "wait_step session_open attempts" "\<lambda>_. True" "wait_run session_open attempts"
    "pool_step session_open attempts" "\<lambda>_. True" "pool_run session_open attempts" shared pool_events
  for session_open :: "'s \<Rightarrow> bool" and attempts :: "64 word \<Rightarrow> nat \<Rightarrow> bool"
  by unfold_locales (rule wait_step_view)

section \<open>Notifications\<close>

lemma pool_step_length:
  assumes "pool_step session_open attempts l s t"
  shows "length (sesson_pool (the_pool t)) \<le> length (sesson_pool (the_pool s)) + notifying l"
  using assms
proof cases
  case (w_purge v p)
  with purge_pool(1) [OF w_purge(5)] show ?thesis by simp
qed (auto simp: pool_defs split: if_splits list.splits)

text \<open>
  As long as only \<open>get_session\<close> waits: when a thread sleeps, every session in the list has its own
  notification under way, given and not yet acted upon or about to be given.
\<close>

definition wants_session :: "waiter \<Rightarrow> bool" where
  "wants_session w \<longleftrightarrow> fst (snd w) = To_take"

fun only_takers_block :: "'s wait_label \<Rightarrow> bool" where
  "only_takers_block (Blocks w) = wants_session w"
| "only_takers_block l = True"

definition wake_inv :: "('ep, 's) wait_state \<Rightarrow> bool" where
  "wake_inv s \<longleftrightarrow> (\<forall>w \<in># asleep s + woken s + late s. wants_session w) \<and>
     (asleep s \<noteq> {#} \<longrightarrow> length (sesson_pool (the_pool (shared s))) \<le> size (woken s) + notifies s)"

lemma wake_inv_step:
  assumes "wait_step session_open attempts l s t" and "only_takers_block l" and inv: "wake_inv s"
  shows "wake_inv t"
  using assms(1)
proof cases
  case (ws_pool k p)
  with pool_step_length [OF ws_pool(3)] inv show ?thesis by (auto simp: wake_inv_def)
next
  case (ws_served w i deadline ec x ec' p)
  then obtain y rest where "sesson_pool (the_pool (shared s)) = (y, x) # rest" "p = (the_pool (shared s))\<lparr>sesson_pool := rest\<rparr>"
    using take_cases [of True ec "the_pool (shared s)" x ec' p] by metis
  then show ?thesis
    using ws_served(2) inv leave_size [of s w] leave_waiters [of _ w s] by (fastforce simp: wake_inv_def)
next
  case (ws_sees w i deadline ec ec')
  then have "wants_session w" using inv by (auto simp: wake_inv_def)
  with ws_sees(3) show ?thesis by (simp add: wants_session_def)
next
  case (ws_blocks w)
  with assms(2) inv show ?thesis by (simp add: wake_inv_def)
next
  case (ws_wakes m w)
  with inv show ?thesis by (auto simp: wake_inv_def dest: in_diffD)
next
  case (ws_spurious w)
  with inv show ?thesis by (auto simp: wake_inv_def dest: in_diffD)
next
  case (ws_expires w i a deadline)
  with inv show ?thesis by (auto simp: wake_inv_def dest: in_diffD)
next
  case (ws_sleeps_again w)
  with inv show ?thesis by (auto simp: wake_inv_def dest: in_diffD)
next
  case (ws_gives_up w)
  with inv show ?thesis by (auto simp: wake_inv_def dest: in_diffD)
qed (use inv in \<open>simp add: wake_inv_def\<close>)

lemma wake_inv_run:
  assumes "wait_run session_open attempts ls (wait_init n limit c t0) s" and "\<forall>l \<in> set ls. only_takers_block l"
  shows "wake_inv s"
proof -
  have "(\<forall>l \<in> set ls. only_takers_block l) \<longrightarrow> wake_inv s"
    using assms(1)
  proof (rule wait_runs.run_invariant)
    show "(\<forall>l \<in> set []. only_takers_block l) \<longrightarrow> wake_inv (wait_init n limit c t0)"
      by (simp add: wake_inv_def wait_init_def)
  qed (simp add: wake_inv_step)
  with assms(2) show ?thesis by simp
qed

text \<open>A waiter that was woken takes the oldest session; so does one that a pending notification wakes.\<close>

lemma woken_served:
  assumes "w \<in># woken s" and "wants_session w" and "sesson_pool (the_pool (shared s)) = (t, x) # rest"
  shows "\<exists>u. wait_step session_open attempts (Served w x) s u"
proof -
  obtain i d where w: "w = (i, To_take, d)" using assms(2) by (cases w) (auto simp: wants_session_def)
  have front: "get_session True Success (the_pool (shared s)) =
      ((Some x, Success), (the_pool (shared s))\<lparr>sesson_pool := rest\<rparr>)"
    using assms(3) by (simp add: pool_defs)
  have "w \<in># woken s + late s" using assms(1) by simp
  from ws_served [OF w this front] show ?thesis by (rule exI)
qed

lemma notified_served:
  assumes "wake_inv s" and "asleep s \<noteq> {#}" and "sesson_pool (the_pool (shared s)) = (t, x) # rest"
  shows "\<exists>w ls u. (ls = [Served w x] \<or> ls = [Wakes w, Served w x]) \<and> wait_run session_open attempts ls s u"
proof (cases "woken s = {#}")
  case True
  then obtain m where m: "notifies s = Suc m" using assms by (cases "notifies s") (auto simp: wake_inv_def)
  obtain w where w: "w \<in># asleep s" using assms(2) by blast
  then have "wants_session w" using assms(1) by (simp add: wake_inv_def)
  let ?s = "s\<lparr>asleep := asleep s - {#w#}, woken := woken s + {#w#}, notifies := m\<rparr>"
  obtain u where "wait_step session_open attempts (Served w x) ?s u"
    using woken_served [of w ?s t x rest] \<open>wants_session w\<close> assms(3) by auto
  then have "wait_run session_open attempts [Wakes w, Served w x] s u"
    using ws_wakes [OF m w] wait_nil by (intro wait_runs.run_step) auto
  then show ?thesis by blast
next
  case False
  then obtain w where w: "w \<in># woken s" by blast
  then have "wants_session w" using assms(1) by (simp add: wake_inv_def)
  from woken_served [OF w this assms(3)] obtain u where "wait_step session_open attempts (Served w x) s u" by blast
  then have "wait_run session_open attempts [Served w x] s u" by (simp add: wait_runs.run_one)
  then show ?thesis by blast
qed

text \<open>A run of the pool is a run in which nobody waits.\<close>

lemma lift_pool_run:
  assumes "pool_run session_open attempts ls (shared s) p"
  shows "wait_run session_open attempts (map Pool_event ls) s
    (s\<lparr>shared := p, notifies := notifies s + sum_list (map notifying ls)\<rparr>)"
  using assms
proof (rule pool_runs.run_invariant)
  fix ls p l q
  assume before: "wait_run session_open attempts (map Pool_event ls) s
      (s\<lparr>shared := p, notifies := notifies s + sum_list (map notifying ls)\<rparr>)"
    and step: "pool_step session_open attempts l p q"
  let ?t = "s\<lparr>shared := p, notifies := notifies s + sum_list (map notifying ls)\<rparr>"
  have "wait_step session_open attempts (Pool_event l) ?t (?t\<lparr>shared := q, notifies := notifies ?t + notifying l\<rparr>)"
    using step by (intro ws_pool) simp
  from wait_snoc [OF before this] show "wait_run session_open attempts (map Pool_event (ls @ [l])) s
      (s\<lparr>shared := q, notifies := notifies s + sum_list (map notifying (ls @ [l]))\<rparr>)"
    by (simp add: ac_simps)
qed (simp add: wait_nil)

text \<open>
  A thread asleep without a notification under way stays asleep until a session is put into the list,
  its deadline passes, or it wakes for no reason.
\<close>

fun rouses :: "waiter \<Rightarrow> 's wait_label \<Rightarrow> bool" where
  "rouses w (Pool_event l) = (0 < notifying l)"
| "rouses w (Spurious v) = (v = w)"
| "rouses w (Expires v) = (v = w)"
| "rouses w l = False"

lemma stays_asleep_step:
  assumes "wait_step session_open attempts l s t" and "w \<in># asleep s" and "notifies s = 0"
  shows "w \<in># asleep t \<and> notifies t = 0 \<or> rouses w l"
  using assms(1)
proof cases
  case (ws_expires v i a deadline)
  with assms(2,3) show ?thesis by (cases "v = w") (auto simp: in_diff_count)
next
  case (ws_spurious v)
  with assms(2,3) show ?thesis by (cases "v = w") (auto simp: in_diff_count)
qed (use assms(2,3) in auto)

lemma stays_asleep:
  assumes "wait_run session_open attempts ls s t" and "w \<in># asleep s" and "notifies s = 0"
    and "w \<notin># asleep t"
  shows "\<exists>l \<in> set ls. rouses w l"
proof (rule wait_runs.run_leaves [OF assms(1), of "\<lambda>s. w \<in># asleep s \<and> notifies s = 0"])
  fix l s t
  assume "wait_step session_open attempts l s t" "w \<in># asleep s \<and> notifies s = 0"
  then show "w \<in># asleep t \<and> notifies t = 0 \<or> rouses w l" by (elim conjE) (rule stays_asleep_step)
qed (use assms(2-4) in simp_all)

section \<open>Properties of waiting\<close>

text \<open>
  C9. A pool whose clients block on the condition variable behaves, at the moments their waits end, as
  the pool whose member functions are single steps: whatever holds of every run of that pool holds
  with waiting, notifying and waking interleaved in any order.
\<close>

theorem blocking_pool_refines:
  assumes "wait_run session_open attempts ls (wait_init n limit c t0) s"
  shows "pool_run session_open attempts (concat (map pool_events ls)) (pool_init n limit c t0) (shared s)"
  using waiting_to_pool.run_view [OF assms] by (simp add: wait_init_def)

definition sample_taker :: waiter where
  "sample_taker = (1, To_take, 100)"

definition sample_looker :: waiter where
  "sample_looker = (2, To_look, 100)"

definition sample_waiting :: "(nat, nat) wait_state" where
  "sample_waiting = wait_init 2 1000 sample_connector 5"

text \<open>Two threads block, the watcher opens a session, and the notification reaches one of them.\<close>

lemma sample_wait_run:
  obtains s where "wait_run (\<lambda>_. True) one_per_place
      ([Blocks v, Blocks sample_taker] @ map Pool_event [Evicted [], Silent, Opened 7]) sample_waiting s"
    and "sessions (the_pool (shared s)) = [7]" and "asleep s = {#v, sample_taker#}" and "woken s = {#}"
    and "late s = {#}" and "notifies s = 1"
proof -
  let ?run = "wait_run (\<lambda>_. True) one_per_place"
  let ?s = "sample_waiting\<lparr>asleep := {#v, sample_taker#}\<rparr>"
  obtain p where p: "pool_run (\<lambda>_. True) one_per_place [Evicted [], Silent, Opened 7] sample_start p"
    using sample_pool_run pool_runs.run_append
      [of "\<lambda>_. True" one_per_place "[Evicted [], Silent, Opened 7]" "[Opened 8, Took 7]" sample_start sample_taken]
    by auto
  have list: "sessions (the_pool p) = [7]"
    using fifo_inv_run [OF p [unfolded sample_start_def]] by (simp add: fifo_inv_def tick_max_def)
  have empty: "sesson_pool (the_pool (shared sample_waiting)) = []"
    by (simp add: sample_waiting_def wait_init_def pool_init_def pool_ctor_def)
  have "wait_step (\<lambda>_. True) one_per_place (Blocks v) sample_waiting (sample_waiting\<lparr>asleep := {#v#}\<rparr>)"
    using ws_blocks [of sample_waiting "\<lambda>_. True" one_per_place v] empty by (simp add: sample_waiting_def wait_init_def)
  moreover have "wait_step (\<lambda>_. True) one_per_place (Blocks sample_taker) (sample_waiting\<lparr>asleep := {#v#}\<rparr>) ?s"
    using ws_blocks [of "sample_waiting\<lparr>asleep := {#v#}\<rparr>" "\<lambda>_. True" one_per_place sample_taker] empty
    by (simp add: add_mset_commute)
  ultimately have "?run [Blocks v, Blocks sample_taker] sample_waiting ?s"
    by (auto simp: wait_runs.run_first wait_runs.run_empty)
  moreover have "?run (map Pool_event [Evicted [], Silent, Opened 7]) ?s (?s\<lparr>shared := p, notifies := 1\<rparr>)"
    using lift_pool_run [of "\<lambda>_. True" one_per_place "[Evicted [], Silent, Opened 7]" ?s p] p
    by (simp add: sample_waiting_def wait_init_def sample_start_def)
  ultimately show thesis
    using that [OF wait_runs.run_join] list by (simp add: sample_waiting_def wait_init_def)
qed

theorem blocking_pool_refines_witness:
  "\<exists>s :: (nat, nat) wait_state.
     pool_run (\<lambda>_. True) one_per_place [Evicted [], Silent, Opened 7] sample_start (shared s) \<and> asleep s = {#sample_looker, sample_taker#}"
proof -
  obtain s where s: "wait_run (\<lambda>_. True) one_per_place
      ([Blocks sample_looker, Blocks sample_taker] @ map Pool_event [Evicted [], Silent, Opened 7]) sample_waiting s"
    and "asleep s = {#sample_looker, sample_taker#}"
    using sample_wait_run [of sample_looker] by metis
  with blocking_pool_refines [OF s [unfolded sample_waiting_def]] show ?thesis
    by (auto simp: sample_start_def)
qed

text \<open>
  C8. No wake-up is lost among callers of \<open>get_session\<close>: as long as nobody waits in \<open>is_connected\<close>, a thread
  sleeps only while every session in the list has a notification of its own under way; so when
  there is a session, a waiter takes it after at most one notification that is already due.
\<close>

theorem no_lost_wakeup:
  assumes "wait_run session_open attempts ls (wait_init n limit c t0) s" and "\<forall>l \<in> set ls. only_takers_block l"
    and "asleep s \<noteq> {#}"
  shows "length (sesson_pool (the_pool (shared s))) \<le> size (woken s) + notifies s \<and>
    (\<forall>t x rest. sesson_pool (the_pool (shared s)) = (t, x) # rest \<longrightarrow>
       (\<exists>w ls' u. (ls' = [Served w x] \<or> ls' = [Wakes w, Served w x]) \<and> wait_run session_open attempts ls' s u))"
proof -
  have inv: "wake_inv s" by (rule wake_inv_run [OF assms(1,2)])
  then show ?thesis using assms(3) notified_served [OF inv assms(3)] by (auto simp: wake_inv_def)
qed

theorem no_lost_wakeup_witness:
  "\<exists>s w ls' u. sessions (the_pool (shared s)) = [7] \<and> (ls' = [Served w 7] \<or> ls' = [Wakes w, Served w 7]) \<and>
     wait_run (\<lambda>_. True) one_per_place ls' (s :: (nat, nat) wait_state) u"
proof -
  obtain s where s: "wait_run (\<lambda>_. True) one_per_place
      ([Blocks (3, To_take, 50), Blocks sample_taker] @ map Pool_event [Evicted [], Silent, Opened 7]) sample_waiting s"
    and list: "sessions (the_pool (shared s)) = [7]" and sleep: "asleep s = {#(3, To_take, 50), sample_taker#}"
    using sample_wait_run [of "(3, To_take, 50)"] by metis
  obtain t where "sesson_pool (the_pool (shared s)) = [(t, 7)]" using list by (auto simp: sessions_def)
  with no_lost_wakeup [OF s [unfolded sample_waiting_def]] list show ?thesis
    by (fastforce simp: sleep wants_session_def sample_taker_def)
qed

text \<open>
  C38. A caller of \<open>is_connected\<close> can consume the notification meant for a caller of \<open>get_session\<close>: there is a run
  after which a session is in the list, nobody is awake and no notification is due, yet a thread
  waits for a session; it goes on sleeping until its deadline unless another session is put into
  the list or it wakes for no reason.
\<close>

theorem status_check_steals_wakeup:
  "\<exists>ls s. wait_run (\<lambda>_. True) one_per_place ls sample_waiting s \<and> sessions (the_pool (shared s)) = [7] \<and>
     sample_taker \<in># asleep s \<and> woken s = {#} \<and> late s = {#} \<and> notifies s = 0 \<and>
     (\<forall>ls' t. wait_run (\<lambda>_. True) one_per_place ls' s t \<and> sample_taker \<notin># asleep t \<longrightarrow>
        (\<exists>l \<in> set ls'. rouses sample_taker l))"
proof -
  let ?run = "wait_run (\<lambda>_. True) one_per_place"
  let ?ls = "[Blocks sample_looker, Blocks sample_taker] @ map Pool_event [Evicted [], Silent, Opened 7]"
  obtain s where s: "?run ?ls sample_waiting s"
    and list: "sessions (the_pool (shared s)) = [7]" and sleep: "asleep s = {#sample_looker, sample_taker#}"
    and rest: "woken s = {#}" "late s = {#}" "notifies s = 1"
    using sample_wait_run [of sample_looker] by metis
  define t where "t = s\<lparr>asleep := {#sample_taker#}, woken := {#sample_looker#}, notifies := 0\<rparr>"
  define u where "u = t\<lparr>woken := {#}\<rparr>"
  have "wait_step (\<lambda>_. True) one_per_place (Wakes sample_looker) s t"
    using ws_wakes [of s 0 sample_looker "\<lambda>_. True" one_per_place] sleep rest by (simp add: t_def)
  moreover have "wait_step (\<lambda>_. True) one_per_place (Sees sample_looker) t u"
  proof -
    have "is_connected True Success (the_pool (shared t)) = (True, Success)"
      using list by (auto simp: t_def is_connected_def ensure_session_def sessions_def)
    from ws_sees [OF sample_looker_def _ this, of "\<lambda>_. True" one_per_place] show ?thesis
      by (simp add: leave_def u_def t_def)
  qed
  ultimately have "?run [Wakes sample_looker, Sees sample_looker] s u"
    by (auto simp: wait_runs.run_first wait_runs.run_empty)
  with s have "?run (?ls @ [Wakes sample_looker, Sees sample_looker]) sample_waiting u" by (rule wait_runs.run_join)
  moreover have u: "sample_taker \<in># asleep u" "woken u = {#}" "late u = {#}" "notifies u = 0"
      "sessions (the_pool (shared u)) = [7]"
    using rest list by (simp_all add: u_def t_def)
  ultimately show ?thesis using stays_asleep [OF _ u(1,4)] by blast
qed

theorem status_check_steals_wakeup_witness:
  "\<exists>ls s. wait_run (\<lambda>_. True) one_per_place ls sample_waiting s \<and> sessions (the_pool (shared s)) = [7] \<and>
     sample_taker \<in># asleep s \<and> notifies s = 0"
  using status_check_steals_wakeup by blast

end
