(* ===== verification/Contracts_Clients.thy ===== *)
theory Contracts_Clients
  imports Contracts Http_Session Pool_Clients
begin

text \<open>
  The promises of the headers on making and ending connections and on performing requests, continued from
  \<open>Contracts\<close>: constructors and \<open>close\<close> of the sockets, \<open>new_session\<close> of the connector, \<open>perform\<close> of the HTTP client,
  the pool made without an idle timeout, the options and endpoints of a socket, the receiving half of
  a request, and the documented number of connections.
\<close>

section \<open>Promises\<close>

text \<open>\<^emph>\<open>Constructs socket connected to peer_endpoint\<close>, or \<open>system_error\<close> is \<^emph>\<open>thrown on failure\<close>; in the same words for SSL.\<close>

definition connect_documented :: "exn + base_socket \<Rightarrow> bool" where
  "connect_documented r =
     (case r of Inr s \<Rightarrow> is_open s | Inl (System_error ec what) \<Rightarrow> is_error ec | Inl _ \<Rightarrow> False)"

definition ssl_connect_documented :: "exn + base_socket \<Rightarrow> bool" where
  "ssl_connect_documented r =
     (case r of Inr s \<Rightarrow> ssl_is_open s | Inl (System_error ec what) \<Rightarrow> is_error ec | Inl _ \<Rightarrow> False)"

text \<open>\<^emph>\<open>This function is used to close the socket\<close>.\<close>

definition close_documented :: "error_code \<times> base_socket \<Rightarrow> bool" where
  "close_documented r \<longleftrightarrow> \<not> is_open (snd r)"

text \<open>
  \<open>new_session\<close> returns when \<^emph>\<open>successfully connected to remote\<close>, or when \<^emph>\<open>an error or timeout occurred. In this case
  internal DNS resolver triggered to update list of endpoints\<close>; the connector is the one after the call.
\<close>

definition new_session_documented :: "'s option \<times> error_code \<Rightarrow> 'ep connector \<Rightarrow> bool" where
  "new_session_documented r c =
     (case r of
        (Some session, ec) \<Rightarrow> \<not> is_error ec
      | (None, ec) \<Rightarrow> is_error ec \<and> resolve_needed c)"

text \<open>\<^emph>\<open>Received response wrapped in boost::optional or boost::none if an error occurred\<close>.\<close>

definition perform_documented :: "((exn + error_code \<times> 'r option) \<times> byte list \<times> 'h) option \<Rightarrow> bool" where
  "perform_documented r =
     (case r of Some (Inr (ec, response), wire, h) \<Rightarrow> (response = None) = is_error ec | _ \<Rightarrow> False)"

text \<open>The overload without a code returns the \<^emph>\<open>received response\<close>; \<open>system_error\<close> is \<^emph>\<open>thrown on failure\<close>.\<close>

definition perform_throw_documented :: "((exn + 'r) \<times> byte list \<times> 'h) option \<Rightarrow> bool" where
  "perform_throw_documented r =
     (case r of
        Some (Inr response, wire, h) \<Rightarrow> True
      | Some (Inl (System_error ec what), wire, h) \<Rightarrow> is_error ec
      | _ \<Rightarrow> False)"

text \<open>
  The accessors of a socket: \<open>system_error\<close> is \<^emph>\<open>thrown on failure\<close>, that is, when the overload with a code
  reports an error, and the answer is returned otherwise. The documentation of \<open>remote_endpoint\<close> adds
  that it \<^emph>\<open>returns a default-constructed endpoint object if an error occurred\<close>.
\<close>

definition set_option_documented :: "error_code \<Rightarrow> exn + unit \<Rightarrow> bool" where
  "set_option_documented ec r =
     (case r of Inr _ \<Rightarrow> \<not> is_error ec | Inl (System_error ec' what) \<Rightarrow> is_error ec \<and> ec' = ec | Inl _ \<Rightarrow> False)"

definition get_option_documented :: "error_code \<times> 'v \<Rightarrow> exn + 'v \<Rightarrow> bool" where
  "get_option_documented answer r =
     (case r of
        Inr v \<Rightarrow> answer = (fst answer, v) \<and> \<not> is_error (fst answer)
      | Inl (System_error ec' what) \<Rightarrow> is_error (fst answer) \<and> ec' = fst answer
      | Inl _ \<Rightarrow> False)"

definition local_endpoint_documented :: "error_code \<times> 'ep \<Rightarrow> exn + 'ep \<Rightarrow> bool" where
  "local_endpoint_documented answer r =
     (case r of
        Inr ep \<Rightarrow> answer = (fst answer, ep) \<and> \<not> is_error (fst answer)
      | Inl (System_error ec' what) \<Rightarrow> is_error (fst answer) \<and> ec' = fst answer
      | Inl _ \<Rightarrow> False)"

definition remote_endpoint_documented :: "'ep \<Rightarrow> error_code \<times> 'ep \<Rightarrow> exn + 'ep \<Rightarrow> bool" where
  "remote_endpoint_documented default_endpoint answer r =
     (r = Inr (if is_error (fst answer) then default_endpoint else snd answer))"

text \<open>\<^emph>\<open>Received response wrapped in boost::optional or boost::none if an error occurred\<close>, for the receiving half.\<close>

definition recv_response_documented :: "((exn + error_code \<times> 'm option) \<times> 'h) option \<Rightarrow> bool" where
  "recv_response_documented r =
     (case r of Some (Inr (ec, response), h) \<Rightarrow> (response = None) = is_error ec | _ \<Rightarrow> False)"

section \<open>Lemmas\<close>

lemma ctor_open:
  assumes "base_socket_ctor A E t0 t1 t2 es ct ot = Some (Inr s)"
  shows "is_open s"
  using assms
  by (auto simp: base_socket_ctor_def Let_def set_io_timeout_enabled_def expiration_dtor_def is_open_def
      split: if_splits option.splits sum.splits prod.splits expiration.splits)

lemma ctor_documented: "base_socket_ctor A E t0 t1 t2 es ct ot = Some r \<Longrightarrow> connect_documented r"
  by (cases r) (auto simp: connect_documented_def dest: ctor_open base_socket_ctor_error)

text \<open>A handshake that reports no error has left the client open; \<open>ERR_get_error\<close> gives no 0 after a failure.\<close>

definition handshake_ok :: "ssl_layer \<Rightarrow> bool" where
  "handshake_ok L \<longleftrightarrow>
     (\<forall>s ec s'. layer_handshake L s = Some (ec, s') \<longrightarrow> \<not> is_error ec \<longrightarrow> is_open s' = is_open s) \<and> sni_result L \<noteq> Some 0"

lemma handshake_throw_open:
  assumes "handshake_ok L" and "is_open s" and "handshake_throw A L t3 t4 (Time_point d) s = Some (r, s')"
  shows "case r of Inr u \<Rightarrow> is_open s' | Inl (System_error ec what) \<Rightarrow> is_error ec | Inl _ \<Rightarrow> False"
  using assms
  by (auto simp: handshake_ok_def handshake_throw_def handshake_def with_deadline_def set_io_timeout_enabled_def
      expiration_dtor_def is_open_def throw_if_error_def split: option.splits sum.splits prod.splits if_splits)

text \<open>Without an idle timeout a purge finds nothing to remove.\<close>

definition no_eviction :: "'s pool_label list \<Rightarrow> ('ep, 's) pool_state \<Rightarrow> bool" where
  "no_eviction ls s \<longleftrightarrow>
     idle_timeout (the_pool s) = tick_max \<and> (clock s < tick_max \<longrightarrow> (\<forall>xs. Evicted xs \<in> set ls \<longrightarrow> xs = []))"

lemma no_idle_kept:
  assumes "fifo_inv ls s" and "idle_timeout (the_pool s) = tick_max" and "clock s < tick_max"
  shows "filter (\<lambda>(t, x). idle_timeout (the_pool s) \<le> tick_sub (clock s) t) (sesson_pool (the_pool s)) = []"
proof -
  have "\<not> tick_max \<le> tick_sub (clock s) t" if "(t, x) \<in> set (sesson_pool (the_pool s))" for t x
  proof -
    have t: "0 \<le> t" "t \<le> clock s" using assms(1) that by (auto simp: fifo_inv_def)
    then have "tick_sub (clock s) t = clock s - t"
      using assms(3) by (intro tick_sub_exact) (simp add: representable_def tick_min_def)
    with t assms(3) show ?thesis by simp
  qed
  then show ?thesis using assms(2) by (auto simp: filter_empty_conv)
qed

lemma no_eviction_step:
  assumes "fifo_inv ls s" and "no_eviction ls s" and "pool_step session_open attempts l s t"
  shows "no_eviction (ls @ [l]) t"
  using assms(3)
proof cases
  case (w_purge v p)
  then have "idle_timeout p = tick_max" using purge_pool(4) [of "clock s" "the_pool s" v p] assms(2) by (simp add: no_eviction_def)
  with w_purge assms(2) no_idle_kept [OF assms(1)] show ?thesis by (auto simp: no_eviction_def)
next
  case (p_get locked ec x ec' p)
  then obtain t0 rest where "p = (the_pool s)\<lparr>sesson_pool := rest\<rparr>" by (metis take_cases)
  with p_get assms(2) show ?thesis by (simp add: no_eviction_def)
next
  case (p_try_get locked ec x ec' p)
  then obtain t0 rest where "p = (the_pool s)\<lparr>sesson_pool := rest\<rparr>" by (metis take_cases)
  with p_try_get assms(2) show ?thesis by (simp add: no_eviction_def)
qed (use assms(2) in \<open>auto dest!: take_fails simp: no_eviction_def pool_dtor_def split: if_splits\<close>)

section \<open>Properties\<close>

text \<open>
  Connections are made as documented: the constructor of a socket, and that of an SSL stream, hands out
  an open one or throws a \<open>system_error\<close> that carries an error, never anything else.
\<close>

theorem connections_documented:
  "(base_socket_ctor A E t0 t1 t2 es ct ot = Some r \<longrightarrow> connect_documented r) \<and>
   (handshake_ok L \<and> ssl_socket_ctor A E L now t0 t1 t2 t3 t4 es cfg rfc = Some r' \<longrightarrow> ssl_connect_documented r')"
proof (intro conjI impI)
  show "connect_documented r" if "base_socket_ctor A E t0 t1 t2 es ct ot = Some r"
    using that by (rule ctor_documented)
  assume r': "handshake_ok L \<and> ssl_socket_ctor A E L now t0 t1 t2 t3 t4 es cfg rfc = Some r'"
  show "ssl_connect_documented r'"
  proof (cases "base_socket_ctor_config A E t0 t1 t2 es cfg")
    case (Some q)
    then have q: "connect_documented q" unfolding base_socket_ctor_config_def by (rule ctor_documented)
    show ?thesis
    proof (cases q)
      case (Inr s)
      then have "is_open s" using q by (simp add: connect_documented_def)
      with r' Some Inr show ?thesis
        using handshake_throw_open [of L s A t3 t4 "tick_add now (cfg_connect_timeout cfg)"]
        by (fastforce simp: ssl_socket_ctor_def ssl_connect_documented_def ssl_is_open_def ssl_next_layer_def handshake_ok_def
            split: option.splits sum.splits if_splits exn.splits)
    qed (use r' Some q in \<open>auto simp: ssl_socket_ctor_def connect_documented_def ssl_connect_documented_def\<close>)
  qed (use r' in \<open>simp add: ssl_socket_ctor_def\<close>)
qed

theorem connections_documented_witness:
  "\<exists>s. base_socket_ctor linux_asio sample_env 0 10 3000 [Deadline 20 21, Completed 2000 Success ()] 1000000 5000000 = Some (Inr s) \<and>
     connect_documented (Inr s) \<and> handshake_ok sample_layer"
proof -
  let ?es = "[Deadline 20 21, Completed 2000 Success ()]"
  have "connect_error linux_asio sample_env 0 10 ?es 1000000 Success = None"
    by (simp add: connect_error_def connect_expiry_def linux_asio_def sample_env_def connect_options_def duration_defs)
  moreover have "completes ?es 2000 Success ()" by (simp add: completes_def)
  ultimately obtain s where "base_socket_ctor linux_asio sample_env 0 10 3000 ?es 1000000 5000000 = Some (Inr s)"
    using connect_outcome_branches [of ?es 2000 Success linux_asio 0 3000 sample_env 10 1000000 5000000]
    by (auto simp: tick_max_def)
  moreover have "handshake_ok sample_layer" by (simp add: handshake_ok_def sample_layer_def)
  ultimately show ?thesis
    using connections_documented [of linux_asio sample_env 0 10 3000 "[Deadline 20 21, Completed 2000 Success ()]" 1000000 5000000] by blast
qed

text \<open>
  \<open>close\<close> of the clients against the promise that it closes the socket: the UDP client keeps it, the TCP client exactly
  when the shutdown reports that the socket was not connected, the SSL stream exactly when its shutdown
  reports no error (or leaves the client closed itself).
\<close>

theorem close_keeps_promise:
  assumes "is_open s" and "\<forall>ec s1. layer_shutdown L s = (ec, s1) \<longrightarrow> is_open s1"
  shows "close_documented (base_close E s) \<and>
    (close_documented (stream_close shutdown_result E s) \<longleftrightarrow> shutdown_result = Not_connected) \<and>
    (close_documented (ssl_close L E s) \<longleftrightarrow>
       \<not> is_error (fst (layer_shutdown L s)) \<or> fst (layer_shutdown L s) = Ssl_code (short_read L))"
proof -
  obtain ec s1 where sh: "layer_shutdown L s = (ec, s1)" by (cases "layer_shutdown L s")
  then have "is_open s1" using assms(2) by blast
  with sh have "close_documented (ssl_close L E s) \<longleftrightarrow> \<not> is_error ec \<or> ec = Ssl_code (short_read L)"
    by (simp add: close_documented_def ssl_close_def base_close_def is_open_def Let_def)
  moreover have "close_documented (base_close E s)" by (simp add: close_documented_def base_close_def is_open_def)
  moreover have "close_documented (stream_close shutdown_result E s) \<longleftrightarrow> shutdown_result = Not_connected"
    using assms(1) by (simp add: close_documented_def stream_close_def base_close_def is_open_def)
  ultimately show ?thesis using sh by simp
qed

theorem close_keeps_promise_witness:
  "\<not> close_documented (stream_close Success sample_env sample_socket) \<and> close_documented (ssl_close sample_layer sample_env sample_socket)"
  using close_keeps_promise [of sample_socket sample_layer sample_env Success]
  by (simp add: sample_socket_def sample_layer_def is_open_def)

text \<open>
  \<open>new_session\<close> against its promise, for a connector that has endpoints: a call that got past its wait keeps it; one
  that timed out waiting keeps it only if a resolve was asked for already, since it triggers none.
\<close>

theorem new_session_keeps_promise:
  assumes "endpoints c \<noteq> []" and "mset (shuffled V (endpoints c)) = mset (endpoints c)"
    and "\<forall>ep err what. connect_peer V ep = Inl (System_error err what) \<longrightarrow> is_error err"
    and "new_session V Success c = (Inr r, c')"
  shows "new_session_documented r c' \<longleftrightarrow> done_locked V \<and> (resolve_done c \<or> done_waited V) \<or> resolve_needed c"
proof -
  have "shuffled V (endpoints c) \<noteq> []" using assms(1,2) by auto
  then obtain ep eps where sh: "shuffled V (endpoints c) = ep # eps" by (cases "shuffled V (endpoints c)") auto
  have err: "is_error err" if "connect_peer V ep = Inl (System_error err what)" for err what using assms(3) that by blast
  show ?thesis
    using assms(4) sh err
    by (auto simp: new_session_def new_session_documented_def get_endpoints_def Let_def notify_resolve_needed_def
        split: if_splits sum.splits option.splits exn.splits)
qed

theorem new_session_keeps_promise_witness:
  "\<not> new_session_documented (fst (projr (fst (new_session (sample_session_env\<lparr>done_locked := False\<rparr>) Success (conn sample_resolved)))),
       snd (projr (fst (new_session (sample_session_env\<lparr>done_locked := False\<rparr>) Success (conn sample_resolved))))) (conn sample_resolved)"
proof -
  let ?V = "sample_session_env\<lparr>done_locked := False\<rparr>"
  have call: "new_session ?V Success (conn sample_resolved) = (Inr (None, Timed_out), conn sample_resolved)"
    by (simp add: new_session_def resolve_failure_code_def get_resolve_error_def sample_resolved_def after_round_def connector_defs
        sample_init_def conn_init_def)
  have "\<not> resolve_needed (conn sample_resolved)" by (simp add: sample_resolved_def after_round_def connector_defs)
  with new_session_keeps_promise [of "conn sample_resolved" ?V "(None, Timed_out)" "conn sample_resolved"] call show ?thesis
    by (simp add: sample_session_env_def)
qed

text \<open>
  C16. \<open>perform\<close> keeps its promise, and returns: over either stream, with a buffer that throws nothing but
  \<open>length_error\<close> and a deadline that passes at some point, every call comes back, with a response exactly when
  no error is reported; the overload without a code returns a response or throws an error.
\<close>

theorem perform_keeps_promise:
  assumes "serializer_ok Z view" and "armed (h_stream h)" and "\<forall>n b x. buf_prepare B n b = Inl x \<longrightarrow> x = Length_error"
    and "S = tcp_stream A E C \<and> calls_complete C \<and> late_from N deadline C \<or>
      S = ssl_stream A L \<and> layer_completes L \<and> layer_late_from N deadline L"
    and "deadline = tick_add now (st_io_timeout S (h_stream h))"
  shows "perform_documented (perform S Z P B i request ec deadline h) \<and>
    perform_throw_documented (perform_throw S Z P B i now request h)"
proof -
  have either: "S = tcp_stream A E C \<and> calls_complete C \<or> S = ssl_stream A L \<and> layer_completes L" using assms(4) by blast
  have doc: "\<exists>ec' response wire h'. perform S Z P B i request ec deadline h = Some (Inr (ec', response), wire, h') \<and>
      (response = None) = is_error ec'" for ec
  proof -
    obtain r wire h' where r: "perform S Z P B i request ec deadline h = Some (r, wire, h')"
      using assms(4) tcp_comes_back [OF assms(1,2)] ssl_comes_back [OF assms(1,2)] by (metis prod_cases3)
    have "\<exists>q. r = Inr q" using perform_no_throw [OF assms(3) r] .
    then obtain ec' response where q: "r = Inr (ec', response)" by auto
    from either_stream_perform(1) [OF assms(1,2) either r [unfolded q]] r q show ?thesis by blast
  qed
  show ?thesis
    using doc [of ec] doc [of Success] assms(5)
    by (auto simp: perform_documented_def perform_throw_documented_def perform_throw_def perform_default_def perform_timeout_def
        split: option.splits)
qed

theorem perform_keeps_promise_witness:
  "perform_documented (perform (tcp_stream linux_asio sample_env stalled_calls) list_serializer byte_parser list_buffer 0 [1, 2, 3] Success
     1000 (sample_http\<lparr>h_stream := sample_socket\<lparr>io_operation_timeout := 990, io_timeouted := True\<rparr>\<rparr>)) \<and>
   perform_documented (perform (ssl_stream linux_asio slow_layer) list_serializer byte_parser list_buffer 0 [1, 2, 3] Success
     1000 (sample_http\<lparr>h_stream := sample_socket\<lparr>io_operation_timeout := 990, io_timeouted := True\<rparr>\<rparr>))"
proof -
  let ?h = "sample_http\<lparr>h_stream := sample_socket\<lparr>io_operation_timeout := 990, io_timeouted := True\<rparr>\<rparr>"
  have h: "armed (h_stream ?h)" using sample_socket_armed by (simp add: armed_def)
  have tcp: "calls_complete stalled_calls" "late_from 3 1000 stalled_calls"
    by (auto simp: calls_complete_def late_from_def stalled_calls_def completes_def)
  have ssl: "layer_late_from 3 1000 slow_layer" by (rule slow_layer_late) simp
  have d: "1000 = tick_add 10 (st_io_timeout (tcp_stream linux_asio sample_env stalled_calls) (h_stream ?h))"
    "1000 = tick_add 10 (st_io_timeout (ssl_stream linux_asio slow_layer) (h_stream ?h))"
    by (simp_all add: tcp_stream_def ssl_stream_def io_timeout_def tick_defs)
  have b: "\<forall>n b x. buf_prepare list_buffer n b = Inl x \<longrightarrow> x = Length_error" by (simp add: list_buffer_def)
  show ?thesis
    using perform_keeps_promise [OF list_serializer_ok h b disjI1 [OF conjI [OF refl conjI [OF tcp]]] d(1), of byte_parser 0 "[1, 2, 3]" Success]
      perform_keeps_promise [OF list_serializer_ok h b disjI2 [OF conjI [OF refl conjI [OF slow_layer_completes ssl]]] d(2),
        of byte_parser 0 "[1, 2, 3]" Success]
    by blast
qed

text \<open>
  A pool made without an idle timeout never evicts: whatever clients and watcher do, as long as the clock
  has not reached the end of its range, no purge removes a session.
\<close>

theorem no_idle_timeout_never_evicts:
  assumes "pool_run session_open attempts ls \<lparr>the_pool = pool_ctor_no_idle n c, clock = t0, watcher = W_loop\<rparr> s"
    and "0 \<le> t0" and "t0 \<le> tick_max" and "clock s < tick_max" and "Evicted xs \<in> set ls"
  shows "xs = []"
proof -
  have start: "\<lparr>the_pool = pool_ctor_no_idle n c, clock = t0, watcher = W_loop\<rparr> = pool_init n tick_max c t0"
    by (simp add: pool_init_def pool_ctor_no_idle_def)
  have "no_eviction ls s"
  proof (rule pool_runs.run_invariant [OF assms(1)])
    show "no_eviction [] \<lparr>the_pool = pool_ctor_no_idle n c, clock = t0, watcher = W_loop\<rparr>"
      by (simp add: no_eviction_def pool_ctor_no_idle_def pool_ctor_def)
  next
    fix ls t l u
    assume "pool_run session_open attempts ls \<lparr>the_pool = pool_ctor_no_idle n c, clock = t0, watcher = W_loop\<rparr> t"
    then have "fifo_inv ls t" unfolding start by (rule fifo_inv_run) (use assms(2,3) in simp_all)
    then show "no_eviction ls t \<Longrightarrow> pool_step session_open attempts l t u \<Longrightarrow> no_eviction (ls @ [l]) u"
      by (rule no_eviction_step)
  qed
  with assms(4,5) show ?thesis by (simp add: no_eviction_def)
qed

theorem no_idle_timeout_never_evicts_witness:
  "\<exists>ls s. pool_run (\<lambda>_. True) one_per_place ls \<lparr>the_pool = pool_ctor_no_idle 2 sample_connector, clock = 5, watcher = W_loop\<rparr> (s :: (nat, nat) pool_state) \<and>
     Evicted [] \<in> set ls"
proof -
  let ?s = "\<lparr>the_pool = pool_ctor_no_idle 2 sample_connector, clock = 5, watcher = W_loop\<rparr> :: (nat, nat) pool_state"
  obtain v q where q: "purge 5 (the_pool ?s) = (v, q)" by (cases "purge 5 (the_pool ?s)")
  let ?xs = "map snd (filter (\<lambda>(t, x). idle_timeout (the_pool ?s) \<le> tick_sub (clock ?s) t) (sesson_pool (the_pool ?s)))"
  have "pool_step (\<lambda>_. True) one_per_place (Evicted ?xs) ?s (?s\<lparr>the_pool := q, watcher := W_refill v\<rparr>)"
    using q by (intro w_purge) (simp_all add: pool_ctor_no_idle_def pool_ctor_def)
  then have run: "pool_run (\<lambda>_. True) one_per_place [Evicted ?xs] ?s (?s\<lparr>the_pool := q, watcher := W_refill v\<rparr>)"
    by (simp only: pool_runs.run_one simp_thms)
  have "?xs = []" by (rule no_idle_timeout_never_evicts [OF run]) (simp_all add: tick_max_def)
  with run show ?thesis by (metis list.set_intros(1))
qed

text \<open>
  The accessors keep their promise, except that \<open>remote_endpoint\<close> without a code never returns a
  default-constructed endpoint for an error: it throws.
\<close>

theorem accessors_documented:
  "set_option_documented (set_option_ec E opt) (set_option E opt) \<and>
   get_option_documented (get_option_ec answer) (get_option answer) \<and>
   local_endpoint_documented (local_endpoint_ec own) (local_endpoint own) \<and>
   (remote_endpoint_documented default_endpoint (remote_endpoint_ec peer) (remote_endpoint peer) \<longleftrightarrow> \<not> is_error (fst peer))"
  by (auto simp: set_option_documented_def set_option_def set_option_ec_def get_option_documented_def get_option_def
      get_option_ec_def local_endpoint_documented_def local_endpoint_def local_endpoint_ec_def
      remote_endpoint_documented_def remote_endpoint_def remote_endpoint_ec_def throw_if_error_def
      split: prod.splits)

text \<open>
  The receiving half of a request keeps its promise whenever it returns and the buffer throws nothing
  but \<open>length_error\<close>.
\<close>

theorem recv_response_keeps_promise:
  assumes "recv_response S P B i ec deadline h = Some r" and "\<forall>n b x. buf_prepare B n b = Inl x \<longrightarrow> x = Length_error"
  shows "recv_response_documented (recv_response S P B i ec deadline h)"
proof -
  let ?b = "buf_consume B (buf_size B (h_buffer h)) (h_buffer h)"
  obtain r' p b s where loop: "recv_loop S P B deadline i ec (pr_start P kHeaderLimit kBodyLimit) ?b (h_stream h) = Some (r', p, b, s)"
    using assms(1) by (auto simp: recv_response_def Let_def split: option.splits)
  have "ended_ok P B (r', p, b, s)" by (rule recv_loop_done [OF loop])
  with assms(2) obtain ec' where "r' = Inr ec'" by (cases r') auto
  with loop show ?thesis by (simp add: recv_response_def recv_response_documented_def Let_def)
qed

text \<open>
  The documented number of connections, size + 1, is right for clients that hold one session at a time.
\<close>

theorem documented_size_for_one:
  assumes "pool_run session_open attempts ls (pool_init n limit c t0) s"
    and "\<forall>v m. attempts v m \<longrightarrow> m \<le> unat v" and "unat n + 1 < 2 ^ 64"
    and "held 0 ls ks" and "\<forall>k \<in> set ks. k \<le> 1"
  shows "pool_size_documented n (the_pool s)"
proof -
  have "filling s + last (0 # ks) \<le> unat n + 1"
    using connections_inv_run [OF assms(1) _ assms(3)] assms(2,4,5) unfolding connections_inv_def by blast
  then show ?thesis by (simp add: pool_size_documented_def filling_def)
qed

end
