(* ===== verification/Watcher.thy ===== *)
theory Watcher
  imports Connection_Pool
begin

text \<open>
  The whole loop of \<open>watch_pool_routine\<close> (\<open>connector/impl/connection_pool.ipp\<close>) with a strategy, and what it
  is to the interleaving machine of \<open>Connection_Pool\<close>: the rounds of the loop, with the strategies as
  functions, are runs of that machine in which only the watcher moves. So the numbers of connects
  the machine allows the watcher are those the two strategies make.
\<close>

section \<open>The loop\<close>

text \<open>
  What a round meets: the environment of the strategy, whether \<open>pool_mutex_\<close> was locked within 100 ms,
  the clock at the purge and at the appends, which appends lock the mutex, and what the calls of
  \<open>new_session\<close> give.
\<close>

record ('e, 's) round_env =
  strategy_env :: 'e
  purge_locks :: bool
  purge_time :: tick
  append_time :: tick
  append_locks :: "'s \<Rightarrow> bool"
  new_sessions :: "nat \<Rightarrow> exn + 's"

fun watch_rounds ::
  "(('s \<Rightarrow> ('ep, 's) pool \<Rightarrow> ('ep, 's) pool) \<Rightarrow> (nat \<Rightarrow> exn + 's) \<Rightarrow> 'e \<Rightarrow> 64 word \<Rightarrow> 'st \<Rightarrow> ('ep, 's) pool
      \<Rightarrow> refill_outcome \<times> 'st \<times> ('ep, 's) pool)
     \<Rightarrow> ('s \<Rightarrow> bool) \<Rightarrow> ('e, 's) round_env list \<Rightarrow> 'st \<Rightarrow> ('ep, 's) pool \<Rightarrow> round_end \<times> 'st \<times> ('ep, 's) pool" where
  "watch_rounds refill session_open [] st p = (Next False, st, p)"
| "watch_rounds refill session_open (V # Vs) st p =
     (case watch_round (\<lambda>app. refill app (new_sessions V) (strategy_env V)) session_open (purge_locks V)
             (append_locks V) (purge_time V) (append_time V) st p of
        (Next slept, st', p') \<Rightarrow> watch_rounds refill session_open Vs st' p'
      | result \<Rightarrow> result)"

text \<open>The clock readings of the rounds follow each other.\<close>

fun rounds_in_time :: "tick \<Rightarrow> ('e, 's) round_env list \<Rightarrow> bool" where
  "rounds_in_time t [] = (t \<le> tick_max)"
| "rounds_in_time t (V # Vs) = (t \<le> purge_time V \<and> purge_time V \<le> append_time V \<and> rounds_in_time (append_time V) Vs)"

definition rounds_quiet :: "('e, 's) round_env list \<Rightarrow> bool" where
  "rounds_quiet Vs \<longleftrightarrow> (\<forall>V \<in> set Vs. \<forall>i. \<not> escapes (new_sessions V i))"

section \<open>A refill as a run\<close>

text \<open>Labels of the watcher and its adders.\<close>

fun by_watcher :: "'s pool_label \<Rightarrow> bool" where
  "by_watcher (Took x) = False"
| "by_watcher (Refused ec) = False"
| "by_watcher (Returned x) = False"
| "by_watcher l = True"

definition watcher_run ::
  "('s \<Rightarrow> bool) \<Rightarrow> (64 word \<Rightarrow> nat \<Rightarrow> bool) \<Rightarrow> ('ep, 's) pool_state \<Rightarrow> ('ep, 's) pool_state \<Rightarrow> bool" where
  "watcher_run session_open attempts s t \<longleftrightarrow>
     (\<exists>ls. (\<forall>l \<in> set ls. by_watcher l) \<and> pool_run session_open attempts ls s t)"

lemma watcher_run_refl [simp, intro]: "watcher_run session_open attempts s s"
  unfolding watcher_run_def by (intro exI [of _ "[]"]) (simp add: pool_nil)

lemma watcher_run_trans:
  "watcher_run session_open attempts s t \<Longrightarrow> watcher_run session_open attempts t u \<Longrightarrow> watcher_run session_open attempts s u"
  unfolding watcher_run_def by (metis Un_iff pool_runs.run_join set_append)

lemma watcher_run_step:
  "pool_step session_open attempts l s t \<Longrightarrow> by_watcher l \<Longrightarrow> watcher_run session_open attempts t u \<Longrightarrow>
     watcher_run session_open attempts s u"
  unfolding watcher_run_def by (metis pool_runs.run_step set_ConsD)

lemma watcher_run_snoc:
  "watcher_run session_open attempts s t \<Longrightarrow> pool_step session_open attempts l t u \<Longrightarrow> by_watcher l \<Longrightarrow>
     watcher_run session_open attempts s u"
  by (blast intro: watcher_run_trans watcher_run_step)

lemma fill_run:
  assumes "\<forall>r \<in> set rs. \<not> escapes r" and "watcher s = W_fill (length rs)"
  shows "watcher_run session_open attempts s
    (s\<lparr>the_pool := fold (\<lambda>x. return_session session_open (locks x) (clock s) (Some x)) (sessions_of rs) (the_pool s),
       watcher := W_fill 0\<rparr>)"
  using assms
proof (induction rs arbitrary: s)
  case (Cons r rs)
  show ?case
  proof (cases r)
    case (Inr x)
    let ?s = "s\<lparr>the_pool := return_session session_open (locks x) (clock s) (Some x) (the_pool s), watcher := W_fill (length rs)\<rparr>"
    from Cons.prems(2) have "pool_step session_open attempts (if accepted session_open (locks x) x then Opened x else Lost x) s ?s"
      by (intro w_add) simp
    from watcher_run_step [OF this] Cons.IH [of ?s] Cons.prems(1) Inr show ?thesis by simp
  next
    case (Inl x)
    let ?s = "s\<lparr>watcher := W_fill (length rs)\<rparr>"
    from Cons.prems(2) have "pool_step session_open attempts Silent s ?s" by (intro w_fail) simp
    from watcher_run_step [OF this] Cons.IH [of ?s] Cons.prems(1) Inl show ?thesis by simp
  qed
next
  case Nil
  then have "s\<lparr>watcher := W_fill 0\<rparr> = s" by simp
  then show ?case by simp
qed

lemma tick_run:
  assumes "clock s \<le> t" and "t \<le> tick_max"
  shows "watcher_run session_open attempts s (s\<lparr>clock := t\<rparr>)"
  using watcher_run_step [OF p_tick [OF assms]] by simp

text \<open>A refill of \<open>n\<close> connects, from the count of the vacant places to the head of the loop.\<close>

lemma refill_run:
  assumes "watcher s = W_refill v" and "v \<noteq> 0" and "attempts v n" and "\<forall>r \<in> set rs. \<not> escapes r" and "length rs = n"
    and "clock s \<le> t" and "t \<le> tick_max"
  shows "watcher_run session_open attempts s
    (s\<lparr>clock := t,
       the_pool := fold (\<lambda>x. return_session session_open (locks x) t (Some x)) (sessions_of rs) (the_pool s),
       watcher := W_loop\<rparr>)"
proof -
  let ?s1 = "s\<lparr>watcher := W_fill n\<rparr>"
  let ?s2 = "?s1\<lparr>clock := t\<rparr>"
  let ?s3 = "?s2\<lparr>the_pool := fold (\<lambda>x. return_session session_open (locks x) (clock ?s2) (Some x)) (sessions_of rs) (the_pool ?s2),
       watcher := W_fill 0\<rparr>"
  have "pool_step session_open attempts Silent s ?s1" using assms(1-3) by (intro w_refill)
  moreover have "watcher_run session_open attempts ?s1 ?s2" using assms(6,7) by (intro tick_run) simp_all
  moreover have "watcher_run session_open attempts ?s2 ?s3" using assms(4,5) by (intro fill_run) simp_all
  moreover have "pool_step session_open attempts Silent ?s3 (?s3\<lparr>watcher := W_loop\<rparr>)" by (intro w_next) simp
  ultimately have "watcher_run session_open attempts s (?s3\<lparr>watcher := W_loop\<rparr>)"
    by (meson by_watcher.simps watcher_run_refl watcher_run_step watcher_run_trans)
  then show ?thesis by simp
qed

section \<open>A round as a run\<close>

lemma appends_keep:
  "watch_pool (fold (\<lambda>x. return_session session_open (locks x) t (Some x)) xs p) = watch_pool p"
  "pool_max_size (fold (\<lambda>x. return_session session_open (locks x) t (Some x)) xs p) = pool_max_size p"
  by (induction xs arbitrary: p) (simp_all add: return_session_def)

text \<open>What a round needs of the pool, and keeps.\<close>

definition watchable :: "('ep, 's) pool_state \<Rightarrow> bool" where
  "watchable s \<longleftrightarrow> watcher s = W_loop \<and> watch_pool (the_pool s) \<and> length (sesson_pool (the_pool s)) < 2 ^ 64 \<and>
     unat (pool_max_size (the_pool s)) \<le> 2 ^ 60"

lemma purge_run:
  assumes "watchable s" and "clock s \<le> now" and "now \<le> tick_max" and "purge now (the_pool s) = (v, p)"
  shows "watcher_run session_open attempts s (s\<lparr>clock := now, the_pool := p, watcher := W_refill v\<rparr>)"
proof -
  have "pool_step session_open attempts (Evicted (map snd (filter (\<lambda>(t, x). idle_timeout (the_pool s) \<le> tick_sub now t)
      (sesson_pool (the_pool s))))) (s\<lparr>clock := now\<rparr>) (s\<lparr>clock := now, the_pool := p, watcher := W_refill v\<rparr>)"
    using w_purge [of "s\<lparr>clock := now\<rparr>" v p session_open attempts] assms by (simp add: watchable_def)
  from watcher_run_snoc [OF tick_run [OF assms(2,3)] this] show ?thesis by simp
qed

lemma rounds_in_time_max: "rounds_in_time t Vs \<Longrightarrow> t \<le> tick_max"
  by (induction Vs arbitrary: t) force+

lemma rounds_in_time_earlier: "rounds_in_time t Vs \<Longrightarrow> t' \<le> t \<Longrightarrow> rounds_in_time t' Vs"
  by (cases Vs) auto

context watched_pool
begin

lemma refill_is_run:
  assumes "state_ok st" and "vacant_ok v" and "\<And>i. \<not> escapes (ns i)" and "watcher s = W_refill v"
    and "allowed v (attempts e v st)" and "clock s \<le> now'" and "now' \<le> tick_max"
  shows "\<exists>b st' q. refill (\<lambda>x. return_session session_open (locks x) now' (Some x)) ns e v st (the_pool s) = (Returns b, st', q) \<and>
    state_ok st' \<and> watch_pool q = watch_pool (the_pool s) \<and> pool_max_size q = pool_max_size (the_pool s) \<and>
    watcher_run session_open allowed s (s\<lparr>clock := now', the_pool := q, watcher := W_loop\<rparr>)"
proof -
  let ?app = "\<lambda>x. return_session session_open (locks x) now' (Some x)"
  let ?rs = "map ns [0..<attempts e v st]"
  have "v \<noteq> 0" using assms(2) by (auto simp: vacant_ok_def)
  obtain b st' where "refill ?app ns e v st (the_pool s) = (Returns b, st', fold ?app (sessions_of ?rs) (the_pool s))" "state_ok st'"
    using refill_quiet [OF assms(2,1), of e ns ?app "the_pool s"] assms(3) by blast
  moreover have "watcher_run session_open allowed s
      (s\<lparr>clock := now', the_pool := fold ?app (sessions_of ?rs) (the_pool s), watcher := W_loop\<rparr>)"
    by (rule refill_run [where n = "attempts e v st" and v = v]) (use assms(3-7) \<open>v \<noteq> 0\<close> in auto)
  ultimately show ?thesis by (simp add: appends_keep)
qed

lemma round_is_run:
  assumes "state_ok st" and "\<And>i. \<not> escapes (ns i)" and "watchable s"
    and "\<And>v. allowed v (attempts e v st)" and "clock s \<le> now" and "now \<le> now'" and "now' \<le> tick_max"
  shows "\<exists>b st' q t. watch_round (\<lambda>app. refill app ns e) session_open locked locks now now' st (the_pool s) = (Next b, st', q) \<and>
    state_ok st' \<and> t \<le> now' \<and> watchable (s\<lparr>clock := t, the_pool := q, watcher := W_loop\<rparr>) \<and>
    watcher_run session_open allowed s (s\<lparr>clock := t, the_pool := q, watcher := W_loop\<rparr>)"
proof (cases locked)
  case False
  have "s\<lparr>watcher := W_loop\<rparr> = s" using assms(3) by (simp add: watchable_def)
  then have "watcher_run session_open allowed s (s\<lparr>watcher := W_loop\<rparr>)" by simp
  with False assms(1,3,5,6) show ?thesis
    by (intro exI [of _ False] exI [of _ st] exI [of _ "the_pool s"] exI [of _ "clock s"])
      (auto simp: watch_round_def watchable_def)
next
  case True
  note s = assms(3) [unfolded watchable_def]
  obtain v p where p: "purge now (the_pool s) = (v, p)" by (cases "purge now (the_pool s)")
  let ?s = "s\<lparr>clock := now, the_pool := p, watcher := W_refill v\<rparr>"
  have purged: "watcher_run session_open allowed s ?s" using purge_run [OF assms(3,5) _ p] assms(6,7) by simp
  note small = purge_vacant_ok [OF p]
  note kept = purge_pool(3,6) [OF p]
  show ?thesis
  proof (cases "v = 0")
    case True
    then have "pool_step session_open allowed Silent ?s (?s\<lparr>watcher := W_loop\<rparr>)" by (intro w_full) simp
    with purged have "watcher_run session_open allowed s (?s\<lparr>watcher := W_loop\<rparr>)"
      by (rule watcher_run_snoc) simp
    with True \<open>locked\<close> s p kept small assms(1,6) show ?thesis
      by (intro exI [of _ True] exI [of _ st] exI [of _ p] exI [of _ now]) (auto simp: watch_round_def watchable_def)
  next
    case False
    then have "vacant_ok v" using small(2) s by blast
    from refill_is_run [where s = ?s and session_open = session_open and locks = locks and now' = now' and ns = ns
        and e = e and allowed = allowed, OF assms(1) this assms(2)] assms(4,6,7)
    obtain b st' q where q: "refill (\<lambda>x. return_session session_open (locks x) now' (Some x)) ns e v st p = (Returns b, st', q)"
      "state_ok st'" "watch_pool q = watch_pool p" "pool_max_size q = pool_max_size p"
      "watcher_run session_open allowed ?s (?s\<lparr>clock := now', the_pool := q, watcher := W_loop\<rparr>)"
      by auto
    from round_keeps [where ns = ns and st = st and p = "the_pool s" and now = now and e = e and session_open = session_open
        and locks = locks and now' = now', OF assms(1,2)] s
    have "length (sesson_pool q) \<le> max (unat (pool_max_size (the_pool s))) (length (kept now (the_pool s)))"
      using False \<open>locked\<close> p q(1) by (simp add: watch_round_def round_ok_def)
    moreover have "kept now (the_pool s) = sesson_pool p" using purge_pool(1) [OF p] by (simp add: kept_def)
    ultimately have "length (sesson_pool q) < 2 ^ 64" using s small(1) by (simp add: le_max_iff_disj) linarith
    with False \<open>locked\<close> s p kept q watcher_run_trans [OF purged q(5)] show ?thesis
      by (intro exI [of _ "\<not> b"] exI [of _ st'] exI [of _ q] exI [of _ now']) (auto simp: watch_round_def watchable_def)
  qed
qed

lemma rounds_are_run:
  assumes "rounds_quiet Vs" and "rounds_in_time (clock s) Vs" and "state_ok st" and "watchable s"
    and "\<And>e v st. state_ok st \<Longrightarrow> allowed v (attempts e v st)"
  shows "\<exists>b st' u. watch_rounds refill session_open Vs st (the_pool s) = (Next b, st', the_pool u) \<and> state_ok st' \<and>
    watchable u \<and> watcher_run session_open allowed s u"
  using assms(1-4)
proof (induction Vs arbitrary: s st)
  case (Cons V Vs)
  have time: "clock s \<le> purge_time V" "purge_time V \<le> append_time V" "rounds_in_time (append_time V) Vs"
    using Cons.prems(2) by simp_all
  have "append_time V \<le> tick_max" using time(3) by (rule rounds_in_time_max)
  from round_is_run [where session_open = session_open and locked = "purge_locks V" and locks = "append_locks V"
      and ns = "new_sessions V" and e = "strategy_env V" and allowed = allowed,
      OF Cons.prems(3) _ Cons.prems(4) _ time(1,2) this]
  obtain b st1 q t where r: "watch_round (\<lambda>app. refill app (new_sessions V) (strategy_env V)) session_open (purge_locks V)
      (append_locks V) (purge_time V) (append_time V) st (the_pool s) = (Next b, st1, q)" "state_ok st1" "t \<le> append_time V"
    "watchable (s\<lparr>clock := t, the_pool := q, watcher := W_loop\<rparr>)"
    "watcher_run session_open allowed s (s\<lparr>clock := t, the_pool := q, watcher := W_loop\<rparr>)"
    using Cons.prems(1,3) assms(5) by (auto simp: rounds_quiet_def)
  let ?s = "s\<lparr>clock := t, the_pool := q, watcher := W_loop\<rparr>"
  have "rounds_in_time (clock ?s) Vs" using rounds_in_time_earlier [OF time(3) r(3)] by simp
  with Cons.IH [of ?s st1] Cons.prems(1) r(2,4) obtain b' st' u where
    "watch_rounds refill session_open Vs st1 q = (Next b', st', the_pool u)" "state_ok st'" "watchable u"
    "watcher_run session_open allowed ?s u"
    by (auto simp: rounds_quiet_def)
  with r(1) watcher_run_trans [OF r(5)] show ?case by auto
next
  case Nil
  then show ?case by auto
qed

end

section \<open>Properties\<close>

text \<open>
  C10. The watcher's loop with either strategy is a run of the interleaving machine in which only the
  watcher moves: through any number of rounds, whatever the connects give and whether or not the
  locks are acquired, as long as no exception other than \<open>system_error\<close> comes back. The thread does not
  end, and the state of the strategy and the size of the list stay within their bounds.
\<close>

theorem watch_rounds_refine:
  assumes "rounds_in_time (clock s) Vs" and "rounds_quiet Vs" and "rounds_in_time (clock s) Ws" and "rounds_quiet Ws"
    and "watchable s" and "backoff_ok st"
  shows "(\<exists>b u. watch_rounds greedy_call session_open Vs () (the_pool s) = (Next b, (), the_pool u) \<and>
      watchable u \<and> watcher_run session_open one_per_place s u) \<and>
    (\<exists>b st' u. watch_rounds conservative_call session_open Ws st (the_pool s) = (Next b, st', the_pool u) \<and>
      backoff_ok st' \<and> watchable u \<and> watcher_run session_open (\<lambda>v n. \<exists>t0 st. n = conservative_attempts t0 v st) s u)"
proof
  show "\<exists>b u. watch_rounds greedy_call session_open Vs () (the_pool s) = (Next b, (), the_pool u) \<and>
      watchable u \<and> watcher_run session_open one_per_place s u"
    using greedy_pool.rounds_are_run [OF assms(2,1) _ assms(5), where allowed = one_per_place] by (auto simp: one_per_place_def)
  show "\<exists>b st' u. watch_rounds conservative_call session_open Ws st (the_pool s) = (Next b, st', the_pool u) \<and>
      backoff_ok st' \<and> watchable u \<and> watcher_run session_open (\<lambda>v n. \<exists>t0 st. n = conservative_attempts t0 v st) s u"
    by (rule conservative_pool.rounds_are_run [OF assms(4,3,6,5)]) (auto split: prod.split)
qed

definition sample_round :: "(unit, nat) round_env" where
  "sample_round = \<lparr>strategy_env = (), purge_locks = True, purge_time = 10, append_time = 20, append_locks = (\<lambda>_. True),
     new_sessions = sample_calls\<rparr>"

definition sample_back_off :: "(tick \<times> tick \<times> 32 word, nat) round_env" where
  "sample_back_off = \<lparr>strategy_env = (15, 25, 5), purge_locks = True, purge_time = 10, append_time = 20, append_locks = (\<lambda>_. True),
     new_sessions = sample_calls\<rparr>"

theorem watch_rounds_refine_witness:
  "\<exists>b u. watch_rounds greedy_call even [sample_round, sample_round\<lparr>purge_time := 30, append_time := 30\<rparr>] () (the_pool sample_start) =
      (Next b, (), the_pool u) \<and> watcher_run even one_per_place sample_start u"
proof -
  have s: "watchable sample_start" "clock sample_start = 5"
    by (simp_all add: watchable_def sample_start_def pool_init_def pool_ctor_def)
  have q: "\<not> escapes (sample_calls i)" for i by (simp add: sample_calls_def escapes_def)
  show ?thesis
    using watch_rounds_refine [of sample_start "[sample_round, sample_round\<lparr>purge_time := 30, append_time := 30\<rparr>]"
        "[sample_back_off]" sample_strategy even] s q
    by (auto simp: sample_round_def sample_back_off_def rounds_quiet_def tick_max_def sample_strategy_def backoff_ok_def kMaxBackoffMs_def)
qed

end
