(* ===== verification/Shuffle.thy ===== *)
theory Shuffle
  imports Connector
begin

text \<open>
  The choice of an endpoint (\<open>shuffle_vector\<close> of \<open>connector/impl/connector.ipp\<close>): one number of
  \<open>std::random_device\<close> seeds a \<open>std::mt19937\<close>, with which \<open>std::shuffle\<close> permutes the endpoints. The generator is a
  parameter; \<open>std_shuffle\<close> is what the standard says of \<open>std::shuffle\<close>, the loop that swaps each element with one at or
  before its place, the places being what the generator is asked for. The lemmas show that the shuffle permutes the
  endpoints for every seed, and that \<open>new_session\<close> may connect to any of the endpoints and to no other.
\<close>

section \<open>The loop of the standard library\<close>

definition swap_places :: "nat \<Rightarrow> nat \<Rightarrow> 'a list \<Rightarrow> 'a list" where
  "swap_places i j v = v[i := v ! j, j := v ! i]"

fun shuffle_from :: "nat \<Rightarrow> nat list \<Rightarrow> 'a list \<Rightarrow> 'a list" where
  "shuffle_from i [] v = v"
| "shuffle_from i (j # js) v = shuffle_from (Suc i) js (swap_places i j v)"

definition std_shuffle :: "nat list \<Rightarrow> 'a list \<Rightarrow> 'a list" where
  "std_shuffle draws v = shuffle_from 1 draws v"

text \<open>One draw for every element but the first, of a place up to its own.\<close>

definition draws_ok :: "nat \<Rightarrow> nat list \<Rightarrow> bool" where
  "draws_ok n draws \<longleftrightarrow> length draws = n - 1 \<and> (\<forall>k < length draws. draws ! k \<le> Suc k)"

section \<open>The repository's call\<close>

text \<open>
  \<open>mt19937 seed n\<close>: the places that \<open>std::shuffle\<close> gets from a generator seeded with \<open>seed\<close> for \<open>n\<close> elements;
  \<open>r_device\<close>: the 32-bit number that the call of \<open>r_device()\<close> gives.
\<close>

definition shuffle_vector :: "(32 word \<Rightarrow> nat \<Rightarrow> nat list) \<Rightarrow> 32 word \<Rightarrow> 'a list \<Rightarrow> 'a list" where
  "shuffle_vector mt19937 r_device v = std_shuffle (mt19937 r_device (length v)) v"

section \<open>Lemmas\<close>

lemma swap_places_length [simp]: "length (swap_places i j v) = length v"
  by (simp add: swap_places_def)

lemma swap_places_mset: "i < length v \<Longrightarrow> j < length v \<Longrightarrow> mset (swap_places i j v) = mset v"
  by (simp add: swap_places_def mset_swap)

lemma swap_places_twice: "i < length v \<Longrightarrow> j < length v \<Longrightarrow> swap_places i j (swap_places i j v) = v"
  by (intro nth_equalityI) (auto simp: swap_places_def nth_list_update)

lemma swap_places_append: "i < length v \<Longrightarrow> j < length v \<Longrightarrow> swap_places i j (v @ w) = swap_places i j v @ w"
  by (simp add: swap_places_def nth_append list_update_append)

lemma shuffle_from_snoc:
  "shuffle_from i (js @ [j]) v = swap_places (i + length js) j (shuffle_from i js v)"
  by (induction js arbitrary: i v) simp_all

lemma shuffle_from_append:
  assumes "i + length js \<le> length v" and "\<forall>k < length js. js ! k \<le> i + k"
  shows "shuffle_from i js (v @ w) = shuffle_from i js v @ w"
  using assms
proof (induction js arbitrary: i v)
  case (Cons j js)
  have "\<forall>k < length js. js ! k \<le> Suc i + k" using Cons.prems(2) by fastforce
  moreover have "swap_places i j (v @ w) = swap_places i j v @ w"
    using Cons.prems by (intro swap_places_append) auto
  ultimately show ?case using Cons.prems(1) Cons.IH [of "Suc i" "swap_places i j v"] by simp
qed simp

lemma draws_ok_snoc:
  "draws_ok (Suc (Suc n)) js \<longleftrightarrow> (\<exists>ks j. js = ks @ [j] \<and> draws_ok (Suc n) ks \<and> j \<le> Suc n)"
  by (cases js rule: rev_cases) (auto simp: draws_ok_def nth_append less_Suc_eq)

lemma draws_ok_short [simp]: "draws_ok 0 js \<longleftrightarrow> js = []" "draws_ok (Suc 0) js \<longleftrightarrow> js = []"
  by (auto simp: draws_ok_def)

text \<open>The last draw decides where the last element goes, the others what becomes of the rest.\<close>

lemma std_shuffle_snoc:
  assumes "v \<noteq> []" and "draws_ok (length v) js"
  shows "std_shuffle (js @ [j]) (v @ [x]) = swap_places (length v) j (std_shuffle js v @ [x])"
proof -
  have "1 + length js = length v" using assms by (cases v) (auto simp: draws_ok_def)
  then show ?thesis
    using assms(2) shuffle_from_append [of 1 js v "[x]"]
    by (simp add: std_shuffle_def shuffle_from_snoc draws_ok_def)
qed

lemma std_shuffle_mset: "draws_ok (length v) js \<Longrightarrow> mset (std_shuffle js v) = mset v"
proof (induction v arbitrary: js rule: rev_induct)
  case (snoc x v)
  show ?case
  proof (cases "v = []")
    case False
    then obtain n where n: "length v = Suc n" by (cases v) auto
    with snoc.prems obtain ks j where js: "js = ks @ [j]" "draws_ok (length v) ks" "j \<le> length v"
      by (auto simp: draws_ok_snoc)
    have "length (std_shuffle ks v) = length v"
      using mset_eq_length [OF snoc.IH [OF js(2)]] .
    then show ?thesis
      using std_shuffle_snoc [OF False js(2)] snoc.IH [OF js(2)] js
      by (simp add: swap_places_mset)
  qed (use snoc.prems in \<open>simp add: std_shuffle_def\<close>)
qed (simp add: std_shuffle_def)

lemma std_shuffle_length: "draws_ok (length v) js \<Longrightarrow> length (std_shuffle js v) = length v"
  using mset_eq_length [OF std_shuffle_mset] .

lemma std_shuffle_onto: "mset ys = mset v \<Longrightarrow> \<exists>js. draws_ok (length v) js \<and> std_shuffle js v = ys"
proof (induction v arbitrary: ys rule: rev_induct)
  case (snoc x v)
  show ?case
  proof (cases "v = []")
    case True
    with snoc.prems show ?thesis by (auto simp: std_shuffle_def)
  next
    case False
    have len: "length ys = Suc (length v)" using mset_eq_length [OF snoc.prems] by simp
    have "x \<in> set ys" using mset_eq_setD [OF snoc.prems] by simp
    then obtain j where j: "j \<le> length v" "ys ! j = x" using len by (metis in_set_conv_nth less_Suc_eq_le)
    let ?zs = "swap_places (length v) j ys"
    have "?zs ! length v = x" using j len by (cases "j = length v") (auto simp: swap_places_def nth_list_update)
    then obtain zs where zs: "?zs = zs @ [x]" "length zs = length v"
      using len by (metis append_butlast_last_id last_conv_nth length_0_conv length_butlast nat.simps(3) swap_places_length diff_Suc_1)
    have "mset zs = mset v"
      using swap_places_mset [of "length v" ys j] j len snoc.prems zs by simp
    from snoc.IH [OF this] obtain ks where ks: "draws_ok (length v) ks" "std_shuffle ks v = zs" by blast
    have "std_shuffle (ks @ [j]) (v @ [x]) = ys"
      using std_shuffle_snoc [OF False ks(1), of j x] ks(2) zs(1) swap_places_twice [of "length v" ys j] j len by simp
    moreover have "draws_ok (length (v @ [x])) (ks @ [j])"
      using False ks(1) j(1) by (cases v) (auto simp: draws_ok_snoc)
    ultimately show ?thesis by blast
  qed
qed (auto simp: std_shuffle_def)

text \<open>Where the last element is tells the last draw.\<close>

lemma swap_last_inj:
  assumes "swap_places (length zs) j (zs @ [x]) = swap_places (length zs') j' (zs' @ [x])"
    and "length zs = length zs'" and "x \<notin> set zs" and "x \<notin> set zs'" and "j \<le> length zs" and "j' \<le> length zs"
  shows "j = j' \<and> zs = zs'"
proof -
  have "swap_places (length ws) k (ws @ [x]) ! i = x \<longleftrightarrow> i = k"
    if "x \<notin> set ws" "k \<le> length ws" "i \<le> length ws" for ws k i
    using that by (cases "k = length ws") (auto simp: swap_places_def nth_list_update nth_append in_set_conv_nth)
  from this [of zs j j'] this [of zs' j' j'] assms have "j = j'" by simp
  then show ?thesis
    using assms(1,2,5) swap_places_twice [of "length zs" "zs @ [x]" j] swap_places_twice [of "length zs" "zs' @ [x]" j] by simp
qed

lemma std_shuffle_inj:
  assumes "distinct v" and "draws_ok (length v) js" and "draws_ok (length v) js'"
    and "std_shuffle js v = std_shuffle js' v"
  shows "js = js'"
  using assms
proof (induction v arbitrary: js js' rule: rev_induct)
  case (snoc x v)
  show ?case
  proof (cases "v = []")
    case False
    then obtain n where "length v = Suc n" by (cases v) auto
    with snoc.prems(2,3) obtain ks j ks' j' where js: "js = ks @ [j]" "draws_ok (length v) ks" "j \<le> length v"
      and js': "js' = ks' @ [j']" "draws_ok (length v) ks'" "j' \<le> length v"
      by (auto simp: draws_ok_snoc)
    note len = std_shuffle_length [OF js(2)] std_shuffle_length [OF js'(2)]
    have "x \<notin> set (std_shuffle ks v)" "x \<notin> set (std_shuffle ks' v)"
      using snoc.prems(1) mset_eq_setD [OF std_shuffle_mset [OF js(2)]] mset_eq_setD [OF std_shuffle_mset [OF js'(2)]]
      by auto
    then have "j = j' \<and> std_shuffle ks v = std_shuffle ks' v"
      using swap_last_inj [of "std_shuffle ks v" j x "std_shuffle ks' v" j'] snoc.prems(4) js js' len
        std_shuffle_snoc [OF False js(2), of j x] std_shuffle_snoc [OF False js'(2), of j' x]
      by simp
    then show ?thesis using snoc.IH [OF _ js(2) js'(2)] snoc.prems(1) js js' by simp
  qed (use snoc.prems in simp)
qed simp

section \<open>Properties\<close>

text \<open>
  The draws and the orders of a list of different elements correspond one to one; whatever is drawn, no
  element is lost or duplicated. So the endpoints are permuted for every seed.
\<close>

lemma std_shuffle_bij:
  "distinct v \<Longrightarrow> bij_betw (\<lambda>js. std_shuffle js v) {js. draws_ok (length v) js} {ys. mset ys = mset v}"
  by (auto simp: bij_betw_def std_shuffle_mset inj_on_def intro: std_shuffle_inj)
    (metis (no_types, lifting) imageI mem_Collect_eq std_shuffle_onto)

lemma shuffle_vector_permutes:
  "draws_ok (length v) (mt19937 r_device (length v)) \<Longrightarrow> mset (shuffle_vector mt19937 r_device v) = mset v"
  by (simp add: shuffle_vector_def std_shuffle_mset)

text \<open>
  \<open>new_session\<close> connects to any of the stored endpoints, as the draws decide, and to no other: after a
  wait that succeeded, the sessions it can return are those that connecting to a stored endpoint gives.
\<close>

theorem session_to_any_endpoint:
  assumes "done_locked V" and "resolve_done c \<or> done_waited V"
  shows "(\<exists>draws ec'. draws_ok (length (endpoints c)) draws \<and>
      fst (new_session (V\<lparr>shuffled := std_shuffle draws\<rparr>) ec c) = Inr (Some session, ec')) \<longleftrightarrow>
    (\<exists>ep \<in> set (endpoints c). connect_peer V ep = Inr session)"
proof -
  have tried: "fst (new_session (V\<lparr>shuffled := std_shuffle draws\<rparr>) ec c) = Inr (Some session, ec') \<longleftrightarrow>
      ec' = ec \<and> (\<exists>ep eps. std_shuffle draws (endpoints c) = ep # eps \<and> connect_peer V ep = Inr session)" for draws ec'
    using assms by (cases "std_shuffle draws (endpoints c)")
      (auto simp: new_session_def get_endpoints_def Let_def split: sum.splits exn.splits)
  have "\<exists>draws eps. draws_ok (length (endpoints c)) draws \<and> std_shuffle draws (endpoints c) = ep # eps"
    if "ep \<in> set (endpoints c)" for ep
    using std_shuffle_onto [of "ep # remove1 ep (endpoints c)" "endpoints c"] that by auto
  moreover have "ep \<in> set (endpoints c)"
    if "draws_ok (length (endpoints c)) draws" "std_shuffle draws (endpoints c) = ep # eps" for draws ep eps
    using mset_eq_setD [OF std_shuffle_mset [OF that(1)]] that(2) by auto
  ultimately have "(\<exists>draws ep eps. draws_ok (length (endpoints c)) draws \<and> std_shuffle draws (endpoints c) = ep # eps \<and>
      connect_peer V ep = Inr session) \<longleftrightarrow> (\<exists>ep \<in> set (endpoints c). connect_peer V ep = Inr session)"
    by metis
  then show ?thesis by (auto simp: tried)
qed

theorem session_to_any_endpoint_witness:
  "\<exists>draws ec'. draws_ok 2 draws \<and>
     fst (new_session (sample_session_env\<lparr>shuffled := std_shuffle draws\<rparr>) Success (conn sample_resolved)) = Inr (Some 70, ec')"
proof -
  have "done_locked sample_session_env" "resolve_done (conn sample_resolved) \<or> done_waited sample_session_env"
    "connect_peer sample_session_env 7 = Inr 70"
    by (simp_all add: sample_session_env_def)
  with session_to_any_endpoint [of sample_session_env "conn sample_resolved" Success 70] show ?thesis by (auto simp: numeral_2_eq_2)
qed

end
