(* ===== verification/Connector_Threads.thy ===== *)
theory Connector_Threads
  imports Connector
begin

text \<open>
  What a thread of the connector waits for: a caller that asks for new endpoints waits for the resolve
  under way, whatever its deadline, and the destructor waits for the resolving thread. Both are facts
  of the interleaving machine of \<open>Connector\<close>.
\<close>

section \<open>The lock of \<open>resolve_needed_\<close>\<close>

text \<open>A caller at the lock, and a resolve that holds it (or has ended the program).\<close>

definition blocked :: "nat \<Rightarrow> error_code \<Rightarrow> ('ep, 's) conn_state \<Rightarrow> bool" where
  "blocked i ec s \<longleftrightarrow>
     callers s i = N_notify ec \<and> needed_locked s \<and> resolver_pc s \<in> {R_resolving, R_terminated}"

fun ends_resolve :: "('ep, 's) conn_label \<Rightarrow> bool" where
  "ends_resolve (Resolve_end ec eps) = True"
| "ends_resolve _ = False"

lemma blocked_step:
  assumes "resolver_pc s \<noteq> R_terminated" and "conn_step resolves connects l s t" and "blocked i ec s"
  shows "blocked i ec t \<or> ends_resolve l"
  using assms(2,1,3) by cases (auto simp: blocked_def)

section \<open>Stopping the resolving thread\<close>

text \<open>How many steps the resolving thread can still make once it has been told to stop.\<close>

fun resolver_rank :: "'ep resolver_pc \<Rightarrow> nat" where
  "resolver_rank R_exit = 0"
| "resolver_rank R_terminated = 0"
| "resolver_rank R_loop = 1"
| "resolver_rank R_notify = 2"
| "resolver_rank R_unlock_failed = 2"
| "resolver_rank R_unlock = 3"
| "resolver_rank (R_publish eps) = 4"
| "resolver_rank (R_resolved ec eps) = 5"
| "resolver_rank R_resolving = 6"
| "resolver_rank R_wait = 7"

lemma stopped_step:
  assumes "conn_step resolves connects l s t" and "\<not> resolving_thread_running (conn s)"
  shows "\<not> resolving_thread_running (conn t) \<and>
    (resolver_pc t = resolver_pc s \<or> resolver_rank (resolver_pc t) < resolver_rank (resolver_pc s))"
  using assms by cases (auto simp: connector_defs)

text \<open>The thread alone, from any place, is out of its loop after at most as many steps as its rank.\<close>

definition thread_exit :: "('ep, 's) conn_state \<Rightarrow> bool" where
  "thread_exit s \<longleftrightarrow> resolver_pc s \<in> {R_exit, R_terminated}"

lemma stopped_progress:
  assumes "\<not> resolving_thread_running (conn s)" and "\<not> thread_exit s" and "resolves ec eps"
  shows "\<exists>l t. conn_step resolves connects l s t \<and> callers t = callers s \<and> \<not> resolving_thread_running (conn t) \<and>
    resolver_rank (resolver_pc t) < resolver_rank (resolver_pc s)"
proof (cases "resolver_pc s")
  case R_loop
  then show ?thesis using assms r_exit [of s resolves connects] by fastforce
next
  case R_wait
  then show ?thesis using assms r_skip [of s resolves connects] by fastforce
next
  case R_resolving
  then show ?thesis
    using assms r_resolve [of s resolves ec eps connects] r_throw [of s resolves connects]
    by (cases "kDurationResolution \<le> c_resolve_timeout (conn s)") fastforce+
next
  case (R_resolved ec' eps')
  then show ?thesis using assms r_error [of s ec' eps' resolves connects] by (fastforce simp: connector_defs)
next
  case R_unlock_failed
  then show ?thesis using assms r_unlock_failed [of s resolves connects] by fastforce
next
  case (R_publish eps')
  then show ?thesis using assms r_publish [of s eps' resolves connects] by (fastforce simp: connector_defs)
next
  case R_unlock
  then show ?thesis using assms r_unlock [of s resolves connects] by fastforce
next
  case R_notify
  then show ?thesis using assms r_notify [of s resolves connects] by (fastforce simp: connector_defs)
qed (use assms(2) in \<open>simp_all add: thread_exit_def\<close>)

lemma stopped_run:
  assumes "\<not> resolving_thread_running (conn s)" and "resolves ec eps"
  shows "\<exists>ls t. conn_run resolves connects ls s t \<and> length ls \<le> resolver_rank (resolver_pc s) \<and> thread_exit t \<and>
    callers t = callers s"
  using assms(1)
proof (induction "resolver_rank (resolver_pc s)" arbitrary: s rule: less_induct)
  case less
  show ?case
  proof (cases "thread_exit s")
    case True
    then show ?thesis by (intro exI [of _ "[]"] exI [of _ s]) (simp add: run_nil)
  next
    case False
    from stopped_progress [where ec = ec and eps = eps, OF less.prems this] assms(2) obtain l t where t: "conn_step resolves connects l s t"
      "callers t = callers s" "\<not> resolving_thread_running (conn t)" "resolver_rank (resolver_pc t) < resolver_rank (resolver_pc s)"
      by blast
    from less.hyps [OF t(4,3)] obtain ls u where u: "conn_run resolves connects ls t u"
      "length ls \<le> resolver_rank (resolver_pc t)" "thread_exit u" "callers u = callers t" by blast
    moreover have "resolver_pc s \<noteq> R_terminated" using False by (simp add: thread_exit_def)
    ultimately have "conn_run resolves connects (l # ls) s u" using t(1) by (blast intro: conn_runs.run_step)
    moreover have "length (l # ls) \<le> resolver_rank (resolver_pc s)" using u(2) t(4) by simp
    ultimately show ?thesis using u(3,4) t(2) by metis
  qed
qed

text \<open>An infinite execution: every state follows from the one before by a step.\<close>

definition conn_execution ::
  "(error_code \<Rightarrow> 'ep list \<Rightarrow> bool) \<Rightarrow> ('ep \<Rightarrow> exn + 's \<Rightarrow> bool) \<Rightarrow> (nat \<Rightarrow> ('ep, 's) conn_state) \<Rightarrow> bool" where
  "conn_execution resolves connects f \<longleftrightarrow> (\<forall>n. \<exists>l. conn_step resolves connects l (f n) (f (Suc n)))"

lemma stopped_execution:
  assumes "conn_execution resolves connects f" and "\<not> resolving_thread_running (conn (f 0))"
  shows "\<not> resolving_thread_running (conn (f n))"
  using assms(2)
proof (induction n)
  case (Suc n)
  then show ?case using assms(1) stopped_step unfolding conn_execution_def by metis
qed

section \<open>Properties\<close>

text \<open>
  C19. \<open>new_session\<close> does not keep its deadline. A call whose connect failed locks \<open>resolve_needed_mutex_\<close> to ask
  for new endpoints, without a time limit, and the resolving thread holds that mutex during a whole
  resolve: in every run from such a state the call is still there until the resolve has ended.
\<close>

theorem failed_call_waits_for_resolve:
  assumes "conn_run resolves connects ls0 (conn_init h p rt ct ot) s"
    and "callers s i = N_notify ec" and "resolver_pc s = R_resolving"
    and "conn_run resolves connects ls s u" and "callers u i \<noteq> N_notify ec"
  shows "list_ex ends_resolve ls"
proof -
  have "needed_locked s" using conn_inv_run [OF assms(1)] assms(3) by (simp add: conn_inv_def)
  then have "blocked i ec s" using assms(2,3) by (simp add: blocked_def)
  moreover have "\<not> blocked i ec u" using assms(5) by (simp add: blocked_def)
  ultimately have "\<exists>l \<in> set ls. ends_resolve l"
    using conn_runs.run_leaves [OF assms(4)] blocked_step by metis
  then show ?thesis by (simp add: list_ex_iff)
qed

text \<open>Caller 0 has asked for a resolve, the thread has begun it, and the connect of caller 2 has failed meanwhile.\<close>

definition sample_blocked :: "(nat, nat) conn_state" where
  "sample_blocked = (goto 2 (N_notify Timed_out) sample_requested)\<lparr>resolver_pc := R_resolving, needed_locked := True\<rparr>"

lemma sample_blocked_run: "\<exists>ls. conn_run sample_resolves sample_connects ls sample_init sample_blocked"
proof -
  let ?s = "goto 2 (N_notify Timed_out) sample_requested"
  have [simp]: "resolver_pc sample_requested = R_loop" "\<not> needed_locked sample_requested"
    "resolve_needed (conn sample_requested)" "resolving_thread_running (conn sample_requested)"
    by (simp_all add: sample_requested_def notify_resolve_needed_def)
  have check: "conn_step sample_resolves sample_connects Internal ?s (?s\<lparr>resolver_pc := R_wait\<rparr>)"
    by (rule r_check) simp_all
  have start: "conn_step sample_resolves sample_connects Resolve_start (?s\<lparr>resolver_pc := R_wait\<rparr>) sample_blocked"
    using r_begin [of "?s\<lparr>resolver_pc := R_wait\<rparr>" sample_resolves sample_connects] by (simp add: sample_blocked_def)
  have "conn_run sample_resolves sample_connects [Internal, Internal, Internal, Internal, Internal] sample_requested ?s"
    by (rule refused_run) (simp_all add: sample_requested_def notify_resolve_needed_def)
  moreover have "\<exists>ls. conn_run sample_resolves sample_connects ls ?s sample_blocked"
    by (rule conn_runs.run_stepped [OF conn_runs.run_stepped [OF _ start] check]) (auto intro: run_nil)
  moreover have "conn_run sample_resolves sample_connects [Requested 0] (goto 0 (N_notify Timed_out) sample_resolved) sample_requested"
    using sample_request_step by (simp add: conn_runs.run_one)
  ultimately show ?thesis
    using sample_resolved_run sample_refused_run by (blast intro: conn_runs.run_chain)
qed

theorem failed_call_waits_for_resolve_witness:
  "\<exists>ls u. conn_run sample_resolves sample_connects ls sample_blocked u \<and> callers u 2 = N_return None Timed_out \<and>
     list_ex ends_resolve ls"
proof -
  let ?b = sample_blocked
  let ?c = "set_resolve_error Success (conn ?b)"
  let ?d = "update_endpoints [7, 8] (?c\<lparr>resolve_needed := False\<rparr>)"
  have [simp]: "resolver_pc ?b = R_resolving" "callers ?b 2 = N_notify Timed_out" "c_resolve_timeout (conn ?b) = 500000000"
    by (simp_all add: sample_blocked_def sample_requested_def notify_resolve_needed_def)
  have 1: "conn_step sample_resolves sample_connects (Resolve_end Success [7, 8]) ?b (?b\<lparr>resolver_pc := R_resolved Success [7, 8]\<rparr>)"
    by (rule r_resolve) (simp_all add: kDurationResolution_def sample_resolves_def)
  have 2: "conn_step sample_resolves sample_connects Internal (?b\<lparr>resolver_pc := R_resolved Success [7, 8]\<rparr>)
      (?b\<lparr>conn := ?c, resolver_pc := R_publish [7, 8]\<rparr>)"
    using r_error [of "?b\<lparr>resolver_pc := R_resolved Success [7, 8]\<rparr>" Success "[7, 8]"] by simp
  have 3: "conn_step sample_resolves sample_connects (Published [7, 8]) (?b\<lparr>conn := ?c, resolver_pc := R_publish [7, 8]\<rparr>)
      (?b\<lparr>conn := ?d, resolver_pc := R_unlock\<rparr>)"
    using r_publish [of "?b\<lparr>conn := ?c, resolver_pc := R_publish [7, 8]\<rparr>" "[7, 8]"] by simp
  have 4: "conn_step sample_resolves sample_connects Internal (?b\<lparr>conn := ?d, resolver_pc := R_unlock\<rparr>)
      (?b\<lparr>conn := ?d, resolver_pc := R_notify, needed_locked := False\<rparr>)"
    using r_unlock [of "?b\<lparr>conn := ?d, resolver_pc := R_unlock\<rparr>"] by simp
  let ?t = "?b\<lparr>conn := ?d, resolver_pc := R_notify, needed_locked := False\<rparr>"
  let ?u = "?t\<lparr>conn := notify_resolve_needed (conn ?t), callers := (callers ?t)(2 := N_return None Timed_out)\<rparr>"
  have 5: "conn_step sample_resolves sample_connects (Requested 2) ?t ?u"
    by (rule n_notify) simp_all
  note rest = conn_runs.run_step [OF 3 _ conn_runs.run_step [OF 4 _ conn_runs.run_step [OF 5 _ run_nil]]]
  have run: "conn_run sample_resolves sample_connects [Resolve_end Success [7, 8], Internal, Published [7, 8], Internal, Requested 2] ?b ?u"
    by (rule conn_runs.run_step [OF 1 _ conn_runs.run_step [OF 2 _ rest]]) simp_all
  moreover have u: "callers ?u 2 = N_return None Timed_out" by simp
  moreover have "list_ex ends_resolve [Resolve_end Success [7, 8 :: nat], Internal, Published [7, 8], Internal, Requested 2 :: (nat, nat) conn_label]"
    using failed_call_waits_for_resolve [OF _ _ _ run, of _ _ _ _ _ _ 2 Timed_out] sample_blocked_run u
    unfolding sample_init_def by auto
  ultimately show ?thesis by blast
qed

text \<open>
  C18. The destructor's \<open>join\<close> returns: once \<open>resolving_thread_running_\<close> is false, in every execution in which the
  resolving thread is scheduled until it has left \<open>resolve_routine\<close> (the resolve it may be in comes
  back), it leaves it. Alone it needs at most seven steps.
\<close>

theorem stopped_resolver_exits:
  assumes "conn_execution resolves connects f" and "f 0 = s\<lparr>conn := connector_stop (conn s)\<rparr>" and "resolves ec eps"
    and "\<forall>n. \<not> thread_exit (f n) \<longrightarrow> (\<exists>m > n. resolver_pc (f m) \<noteq> resolver_pc (f n))"
  shows "(\<exists>n. thread_exit (f n)) \<and>
    (\<exists>ls t. conn_run resolves connects ls (f 0) t \<and> length ls \<le> 7 \<and> thread_exit t)"
proof
  have stop: "\<not> resolving_thread_running (conn (f n))" for n
    using stopped_execution [OF assms(1)] assms(2) by (simp add: connector_defs)
  have "\<exists>n. resolver_pc (f n) \<in> {R_exit, R_terminated}"
  proof (rule execution_finishes [of "\<lambda>n. resolver_pc (f n)" resolver_rank])
    show "resolver_pc (f (Suc n)) = resolver_pc (f n) \<or> resolver_rank (resolver_pc (f (Suc n))) < resolver_rank (resolver_pc (f n))" for n
      using assms(1) stopped_step [OF _ stop [of n]] unfolding conn_execution_def by blast
  qed (use assms(4) in \<open>auto simp: thread_exit_def\<close>)
  then show "\<exists>n. thread_exit (f n)" by (simp add: thread_exit_def)
  have "resolver_rank pc \<le> 7" for pc :: "'a resolver_pc" by (cases pc) simp_all
  then show "\<exists>ls t. conn_run resolves connects ls (f 0) t \<and> length ls \<le> 7 \<and> thread_exit t"
    using stopped_run [of "f 0" resolves ec eps connects] stop [of 0] assms(3) by (meson order.trans)
qed

theorem stopped_resolver_exits_witness:
  "\<exists>ls t. conn_run sample_resolves sample_connects ls (sample_init\<lparr>conn := connector_stop (conn sample_init)\<rparr>) t \<and>
     length ls \<le> 7 \<and> thread_exit t"
proof -
  let ?s = "sample_init\<lparr>conn := connector_stop (conn sample_init)\<rparr>"
  let ?f = "\<lambda>n :: nat. if n = 0 then ?s else ?s\<lparr>resolver_pc := R_exit\<rparr>"
  have pc: "resolver_pc ?s = R_loop" by (simp add: sample_init_def conn_init_def)
  have "(?f 1)\<lparr>conn := connector_stop (conn (?f 1))\<rparr> = ?f 1"
    by (rule conn_state.equality) (simp_all add: connector_stop_def)
  then have "conn_step sample_resolves sample_connects Internal (?f 1) (?f 1)"
    using stop [of sample_resolves sample_connects "?f 1"] by (simp only:)
  then have "\<exists>l. conn_step sample_resolves sample_connects l (?f n) (?f (Suc n))" for n
    using r_exit [of ?s sample_resolves sample_connects] pc by (cases n) (auto simp: connector_stop_def)
  then have exec: "conn_execution sample_resolves sample_connects ?f" by (simp add: conn_execution_def)
  have fair: "\<forall>n. \<not> thread_exit (?f n) \<longrightarrow> (\<exists>m > n. resolver_pc (?f m) \<noteq> resolver_pc (?f n))"
    using pc by (auto simp: thread_exit_def)
  have "sample_resolves Success [7, 8]" by (simp add: sample_resolves_def)
  from stopped_resolver_exits [OF exec _ this fair, of sample_init] show ?thesis by simp
qed

end
