(* ===== verification/Pool_System.thy ===== *)
theory Pool_System
  imports Connector_Threads Connection_Pool
begin

text \<open>
  The pool at work: the connector's machine and the pool's machine composed the way
  \<open>base_connection_pool\<close> composes them. The watcher hands the connector to the strategy, whose threads
  (the adders) each call \<open>connector.new_session()\<close> once and append what they get; nobody else calls the
  connector, a member of the pool. The destructor of the pool joins the watcher, and only then is
  the connector destroyed.

  The composed machine shows runs of both of its parts, so the theorems on either part hold of it;
  what this theory adds is what no part can say alone: where the sessions that clients get come
  from, and that none of them leaks.
\<close>

section \<open>The composed machine\<close>

text \<open>\<open>adders\<close>: the threads of the refill under way that have not come back yet.\<close>

record ('ep, 's) system =
  conn_part :: "('ep, 's) conn_state"
  pool_part :: "('ep, 's) pool_state"
  adders :: "nat set"

datatype ('ep, 's) system_label =
    By_connector "('ep, 's) conn_label"
  | By_pool "'s pool_label"
  | By_adder "('ep, 's) conn_label" "'s pool_label"

definition system_init ::
  "64 word \<Rightarrow> tick \<Rightarrow> tick \<Rightarrow> string \<Rightarrow> string \<Rightarrow> tick \<Rightarrow> tick \<Rightarrow> tick \<Rightarrow> ('ep, 's) system" where
  "system_init n limit t0 h p rt ct ot =
     \<lparr>conn_part = conn_init h p rt ct ot,
      pool_part = pool_init n limit (connector_ctor h p rt ct ot) t0, adders = {}\<rparr>"

text \<open>
  \<open>system_thread\<close>: the resolving thread, or an adder inside \<open>new_session\<close>; \<open>system_client\<close>: a client, or the
  clock; \<open>system_watcher\<close>: the watcher outside a refill. \<open>system_refill\<close> starts the threads of a refill,
  \<open>system_call\<close> is an adder entering \<open>new_session()\<close> with a clear code, \<open>system_add\<close> and \<open>system_fail\<close> an adder
  coming back: with a session to append, or with the \<open>system_error\<close> that \<open>add_session\<close> catches.
\<close>

inductive system_step ::
  "(error_code \<Rightarrow> 'ep list \<Rightarrow> bool) \<Rightarrow> ('ep \<Rightarrow> exn + 's \<Rightarrow> bool) \<Rightarrow> ('s \<Rightarrow> bool) \<Rightarrow> (64 word \<Rightarrow> nat \<Rightarrow> bool)
     \<Rightarrow> ('ep, 's) system_label \<Rightarrow> ('ep, 's) system \<Rightarrow> ('ep, 's) system \<Rightarrow> bool"
  for resolves :: "error_code \<Rightarrow> 'ep list \<Rightarrow> bool" and connects :: "'ep \<Rightarrow> exn + 's \<Rightarrow> bool"
    and session_open :: "'s \<Rightarrow> bool" and attempts :: "64 word \<Rightarrow> nat \<Rightarrow> bool"
  where
  system_thread: "conn_step resolves connects l (conn_part s) c \<Longrightarrow>
     \<forall>i. callers c i = N_idle \<longleftrightarrow> callers (conn_part s) i = N_idle \<Longrightarrow>
     resolving_thread_running (conn c) = resolving_thread_running (conn (conn_part s)) \<Longrightarrow>
     system_step resolves connects session_open attempts (By_connector l) s (s\<lparr>conn_part := c\<rparr>)"
| system_client: "pool_step session_open attempts l (pool_part s) p \<Longrightarrow> watcher p = watcher (pool_part s) \<Longrightarrow>
     system_step resolves connects session_open attempts (By_pool l) s (s\<lparr>pool_part := p\<rparr>)"
| system_watcher: "pool_step session_open attempts l (pool_part s) p \<Longrightarrow> watcher p \<noteq> watcher (pool_part s) \<Longrightarrow>
     \<forall>n. watcher (pool_part s) \<noteq> W_fill (Suc n) \<and> watcher p \<noteq> W_fill n \<Longrightarrow>
     system_step resolves connects session_open attempts (By_pool l) s (s\<lparr>pool_part := p\<rparr>)"
| system_refill: "watcher (pool_part s) = W_refill v \<Longrightarrow> v \<noteq> 0 \<Longrightarrow> attempts v (card I) \<Longrightarrow> finite I \<Longrightarrow>
     system_step resolves connects session_open attempts (By_pool Silent) s
       (s\<lparr>pool_part := (pool_part s)\<lparr>watcher := W_fill (card I)\<rparr>, adders := I\<rparr>)"
| system_call: "i \<in> adders s \<Longrightarrow> callers (conn_part s) i = N_idle \<Longrightarrow>
     system_step resolves connects session_open attempts (By_connector Internal) s
       (s\<lparr>conn_part := goto i (N_wait Success) (conn_part s)\<rparr>)"
| system_add: "i \<in> adders s \<Longrightarrow> callers (conn_part s) i = N_return (Some x) ec \<Longrightarrow> \<not> is_error ec \<Longrightarrow>
     watcher (pool_part s) = W_fill (Suc n) \<Longrightarrow>
     system_step resolves connects session_open attempts
       (By_adder Internal (if accepted session_open locked x then Opened x else Lost x)) s
       (s\<lparr>conn_part := goto i N_idle (conn_part s),
          pool_part := (pool_part s)\<lparr>the_pool := return_session session_open locked (clock (pool_part s)) (Some x)
            (the_pool (pool_part s)), watcher := W_fill n\<rparr>,
          adders := adders s - {i}\<rparr>)"
| system_fail: "i \<in> adders s \<Longrightarrow> callers (conn_part s) i = N_return r ec \<Longrightarrow> is_error ec \<or> r = None \<Longrightarrow>
     watcher (pool_part s) = W_fill (Suc n) \<Longrightarrow>
     system_step resolves connects session_open attempts (By_adder Internal Silent) s
       (s\<lparr>conn_part := goto i N_idle (conn_part s), pool_part := (pool_part s)\<lparr>watcher := W_fill n\<rparr>,
          adders := adders s - {i}\<rparr>)"
| system_connector_dtor: "watcher (pool_part s) = W_exit \<Longrightarrow>
     system_step resolves connects session_open attempts (By_connector Internal) s
       (s\<lparr>conn_part := (conn_part s)\<lparr>conn := connector_stop (conn (conn_part s))\<rparr>\<rparr>)"

text \<open>
  An exception that leaves the resolving thread, or one other than \<open>system_error\<close> that leaves an adder,
  ends the program.
\<close>

definition system_alive :: "('ep, 's) system \<Rightarrow> bool" where
  "system_alive s \<longleftrightarrow>
     resolver_pc (conn_part s) \<noteq> R_terminated \<and> (\<forall>i x. callers (conn_part s) i \<noteq> N_throw x)"

inductive system_run ::
  "(error_code \<Rightarrow> 'ep list \<Rightarrow> bool) \<Rightarrow> ('ep \<Rightarrow> exn + 's \<Rightarrow> bool) \<Rightarrow> ('s \<Rightarrow> bool) \<Rightarrow> (64 word \<Rightarrow> nat \<Rightarrow> bool)
     \<Rightarrow> ('ep, 's) system_label list \<Rightarrow> ('ep, 's) system \<Rightarrow> ('ep, 's) system \<Rightarrow> bool"
  for resolves :: "error_code \<Rightarrow> 'ep list \<Rightarrow> bool" and connects :: "'ep \<Rightarrow> exn + 's \<Rightarrow> bool"
    and session_open :: "'s \<Rightarrow> bool" and attempts :: "64 word \<Rightarrow> nat \<Rightarrow> bool"
  where
  system_nil: "system_run resolves connects session_open attempts [] s s"
| system_snoc: "system_run resolves connects session_open attempts ls s t \<Longrightarrow> system_alive t \<Longrightarrow>
     system_step resolves connects session_open attempts l t u \<Longrightarrow>
     system_run resolves connects session_open attempts (ls @ [l]) s u"

inductive_cases system_run_nilE: "system_run resolves connects session_open attempts [] s t"
inductive_cases system_run_snocE: "system_run resolves connects session_open attempts (ls @ [l]) s t"

interpretation system_runs:
  labelled_system "system_step resolves connects session_open attempts" system_alive
    "system_run resolves connects session_open attempts"
  for resolves :: "error_code \<Rightarrow> 'ep list \<Rightarrow> bool" and connects :: "'ep \<Rightarrow> exn + 's \<Rightarrow> bool"
    and session_open :: "'s \<Rightarrow> bool" and attempts :: "64 word \<Rightarrow> nat \<Rightarrow> bool"
  by unfold_locales (auto elim: system_run_nilE system_run_snocE intro: system_nil system_snoc)

section \<open>The parts of a run\<close>

fun conn_labels :: "('ep, 's) system_label \<Rightarrow> ('ep, 's) conn_label list" where
  "conn_labels (By_connector l) = [l]"
| "conn_labels (By_pool k) = []"
| "conn_labels (By_adder l k) = [l]"

fun pool_labels :: "('ep, 's) system_label \<Rightarrow> 's pool_label list" where
  "pool_labels (By_connector l) = []"
| "pool_labels (By_pool k) = [k]"
| "pool_labels (By_adder l k) = [k]"

abbreviation conn_trace :: "('ep, 's) system_label list \<Rightarrow> ('ep, 's) conn_label list" where
  "conn_trace ls \<equiv> concat (map conn_labels ls)"

abbreviation pool_trace :: "('ep, 's) system_label list \<Rightarrow> 's pool_label list" where
  "pool_trace ls \<equiv> concat (map pool_labels ls)"

lemma conn_view:
  assumes "system_alive s" and "system_step resolves connects session_open attempts l s t"
  shows "conn_run resolves connects (conn_labels l) (conn_part s) (conn_part t)"
proof -
  have "resolver_pc (conn_part s) \<noteq> R_terminated" using assms(1) by (simp add: system_alive_def)
  with assms(2) show ?thesis
    by cases (auto simp: conn_runs.run_one conn_runs.run_empty intro: n_call n_done stop)
qed

lemma pool_view:
  assumes "system_step resolves connects session_open attempts l s t"
  shows "pool_run session_open attempts (pool_labels l) (pool_part s) (pool_part t)"
  using assms
proof cases
  case (system_add i x ec n locked)
  then show ?thesis
    using w_add [of "pool_part s" n session_open attempts locked x] by (simp add: pool_runs.run_one)
qed (auto simp: pool_runs.run_one pool_runs.run_empty intro: w_refill w_fail)

interpretation to_connector:
  labelled_projection "system_step resolves connects session_open attempts" system_alive
    "system_run resolves connects session_open attempts"
    "conn_step resolves connects" "\<lambda>s. resolver_pc s \<noteq> R_terminated" "conn_run resolves connects" conn_part conn_labels
  for resolves :: "error_code \<Rightarrow> 'ep list \<Rightarrow> bool" and connects :: "'ep \<Rightarrow> exn + 's \<Rightarrow> bool"
    and session_open :: "'s \<Rightarrow> bool" and attempts :: "64 word \<Rightarrow> nat \<Rightarrow> bool"
  by unfold_locales (rule conn_view)

interpretation to_pool:
  labelled_projection "system_step resolves connects session_open attempts" system_alive
    "system_run resolves connects session_open attempts"
    "pool_step session_open attempts" "\<lambda>_. True" "pool_run session_open attempts" pool_part pool_labels
  for resolves :: "error_code \<Rightarrow> 'ep list \<Rightarrow> bool" and connects :: "'ep \<Rightarrow> exn + 's \<Rightarrow> bool"
    and session_open :: "'s \<Rightarrow> bool" and attempts :: "64 word \<Rightarrow> nat \<Rightarrow> bool"
  by unfold_locales (rule pool_view)

lemma system_parts:
  assumes "system_run resolves connects session_open attempts ls (system_init n limit t0 h p rt ct ot) s"
  shows "conn_run resolves connects (conn_trace ls) (conn_init h p rt ct ot) (conn_part s)"
    and "pool_run session_open attempts (pool_trace ls) (pool_init n limit (connector_ctor h p rt ct ot) t0) (pool_part s)"
  using to_connector.run_view [OF assms] to_pool.run_view [OF assms] by (simp_all add: system_init_def)

section \<open>Who calls the connector\<close>

text \<open>
  The adders are as many as the watcher waits for, their code stays clear until something fails, a
  thread that is none of them is not inside \<open>new_session\<close>, and the connector is told to stop only
  after the watcher has left.
\<close>

fun awaited :: "watcher_pc \<Rightarrow> nat" where
  "awaited (W_fill n) = n"
| "awaited _ = 0"

fun clear_code :: "('ep, 's) caller_pc \<Rightarrow> bool" where
  "clear_code (N_wait ec) = (\<not> is_error ec)"
| "clear_code (N_endpoints ec) = (\<not> is_error ec)"
| "clear_code (N_connecting ep ec) = (\<not> is_error ec)"
| "clear_code (N_return (Some x) ec) = (\<not> is_error ec)"
| "clear_code _ = True"

definition system_inv :: "('ep, 's) system \<Rightarrow> bool" where
  "system_inv s \<longleftrightarrow>
     finite (adders s) \<and> card (adders s) = awaited (watcher (pool_part s)) \<and>
     (\<forall>i. clear_code (callers (conn_part s) i)) \<and>
     (\<forall>i. i \<notin> adders s \<longrightarrow> callers (conn_part s) i = N_idle) \<and>
     (\<not> resolving_thread_running (conn (conn_part s)) \<longrightarrow> watcher (pool_part s) = W_exit)"

lemma watcher_alone:
  assumes "pool_step session_open attempts l p q" and "\<forall>n. watcher p \<noteq> W_fill (Suc n) \<and> watcher q \<noteq> W_fill n"
    and "watcher q \<noteq> watcher p"
  shows "awaited (watcher p) = 0 \<and> awaited (watcher q) = 0 \<and> watcher p \<noteq> W_exit"
  using assms by cases (auto simp: gr0_conv_Suc)

lemma clear_code_thread:
  assumes "conn_step resolves connects l c d" and "\<forall>i. callers d i = N_idle \<longleftrightarrow> callers c i = N_idle"
    and "\<forall>i. clear_code (callers c i)"
  shows "clear_code (callers d j)"
  using assms(1)
proof cases
  case (n_call i ec)
  with assms(2) show ?thesis by (auto dest: spec [of _ i])
qed (use assms(3) in \<open>auto dest: spec [of _ j]\<close>)

lemma system_inv_step:
  assumes "system_step resolves connects session_open attempts l s t" and "system_inv s"
  shows "system_inv t"
  using assms(1)
proof cases
  case (system_thread k c)
  with clear_code_thread [OF system_thread(3,4)] assms(2) show ?thesis by (simp add: system_inv_def)
next
  case (system_watcher k p)
  with watcher_alone [OF system_watcher(3,5,4)] assms(2) show ?thesis by (auto simp: system_inv_def)
next
  case (system_refill v I)
  with assms(2) show ?thesis by (auto simp: system_inv_def)
next
  case (system_add i x ec n locked)
  with assms(2) show ?thesis by (auto simp: system_inv_def)
next
  case (system_fail i r ec n)
  with assms(2) show ?thesis by (auto simp: system_inv_def)
qed (use assms(2) in \<open>auto simp: system_inv_def\<close>)

lemma system_inv_run:
  assumes "system_run resolves connects session_open attempts ls (system_init n limit t0 h p rt ct ot) s"
  shows "system_inv s"
  using assms
proof (rule system_runs.run_preserves)
  show "system_inv (system_init n limit t0 h p rt ct ot)"
    by (simp add: system_inv_def system_init_def conn_init_def pool_init_def connector_ctor_def)
qed (rule system_inv_step)

section \<open>Where the sessions are\<close>

fun connected :: "('ep, 's) conn_label list \<Rightarrow> 's list" where
  "connected [] = []"
| "connected (Connected i ep x # ls) = x # connected ls"
| "connected (l # ls) = connected ls"

fun opened :: "'s pool_label list \<Rightarrow> 's list" where
  "opened [] = []"
| "opened (Opened x # ls) = x # opened ls"
| "opened (l # ls) = opened ls"

fun returned :: "'s pool_label list \<Rightarrow> 's list" where
  "returned [] = []"
| "returned (Returned x # ls) = x # returned ls"
| "returned (l # ls) = returned ls"

fun evicted :: "'s pool_label list \<Rightarrow> 's list" where
  "evicted [] = []"
| "evicted (Evicted xs # ls) = xs @ evicted ls"
| "evicted (l # ls) = evicted ls"

text \<open>The sessions that \<open>append_func\<close> destroyed: closed again already, or the lock was not acquired.\<close>

fun dropped :: "('ep, 's) system_label list \<Rightarrow> 's list" where
  "dropped [] = []"
| "dropped (By_adder l (Lost x) # ls) = x # dropped ls"
| "dropped (l # ls) = dropped ls"

lemma connected_append [simp]: "connected (ls @ ls') = connected ls @ connected ls'"
  by (induction ls rule: connected.induct) simp_all

lemma opened_append [simp]: "opened (ls @ ls') = opened ls @ opened ls'"
  by (induction ls rule: opened.induct) simp_all

lemma dropped_append [simp]: "dropped (ls @ ls') = dropped ls @ dropped ls'"
  by (induction ls rule: dropped.induct) simp_all

lemma entered_mset: "mset (entered ks) = mset (opened ks) + mset (returned ks)"
  by (induction ks rule: entered.induct) simp_all

lemma departed_mset: "mset (departed ks) = mset (taken ks) + mset (evicted ks)"
  by (induction ks rule: departed.induct) simp_all

text \<open>The session an adder holds between its return from \<open>new_session\<close> and the append.\<close>

fun held :: "('ep, 's) caller_pc \<Rightarrow> 's multiset" where
  "held (N_return (Some x) ec) = {#x#}"
| "held _ = {#}"

definition in_flight :: "('ep, 's) system \<Rightarrow> 's multiset" where
  "in_flight s = (\<Sum>i \<in> adders s. held (callers (conn_part s) i))"

text \<open>One caller moves: the sum changes by what its place contributes.\<close>

lemma sum_move:
  fixes g :: "'a \<Rightarrow> 'b :: comm_monoid_add"
  assumes "finite A" and "i \<in> A"
  shows "(\<Sum>j \<in> A. g ((f(i := p)) j)) = g p + (\<Sum>j \<in> A - {i}. g (f j))"
    and "(\<Sum>j \<in> A. g (f j)) = g (f i) + (\<Sum>j \<in> A - {i}. g (f j))"
  using assms by (simp_all add: sum.remove)

text \<open>How many steps a call of \<open>new_session\<close> can still take.\<close>

fun caller_rank :: "('ep, 's) caller_pc \<Rightarrow> nat" where
  "caller_rank N_idle = 7"
| "caller_rank (N_wait ec) = 6"
| "caller_rank (N_endpoints ec) = 5"
| "caller_rank (N_connecting ep ec) = 4"
| "caller_rank (N_failing ec) = 3"
| "caller_rank (N_notify ec) = 2"
| "caller_rank (N_failed ec) = 2"
| "caller_rank (N_return r ec) = 1"
| "caller_rank (N_throw x) = 0"

text \<open>A step inside the connector moves at most one caller, and that one forward.\<close>

definition moves_one :: "('ep, 's) conn_label \<Rightarrow> (nat \<Rightarrow> ('ep, 's) caller_pc) \<Rightarrow> (nat \<Rightarrow> ('ep, 's) caller_pc) \<Rightarrow> bool" where
  "moves_one l f g \<longleftrightarrow>
     (\<exists>i p. f i \<noteq> N_idle \<and> g = f(i := p) \<and> held p = held (f i) + mset (connected [l]) \<and> caller_rank p < caller_rank (f i))"

lemma moves_oneI:
  "f i = q \<Longrightarrow> q \<noteq> N_idle \<Longrightarrow> held p = held q + mset (connected [l]) \<Longrightarrow> caller_rank p < caller_rank q \<Longrightarrow>
     moves_one l f (f(i := p))"
  by (auto simp: moves_one_def)

lemma thread_moves:
  assumes "conn_step resolves connects l c d" and "\<forall>i. callers d i = N_idle \<longleftrightarrow> callers c i = N_idle"
  shows "callers d = callers c \<and> connected [l] = [] \<or> moves_one l (callers c) (callers d)"
  using assms(1)
proof cases
  case (n_call i ec)
  with assms(2) show ?thesis by (auto dest: spec [of _ i])
next
  case (n_done i r ec)
  with assms(2) show ?thesis by (auto dest: spec [of _ i])
qed (auto intro: moves_oneI)

lemma in_flight_thread:
  assumes "conn_step resolves connects l (conn_part s) c"
    and "\<forall>i. callers c i = N_idle \<longleftrightarrow> callers (conn_part s) i = N_idle" and "system_inv s"
  shows "in_flight (s\<lparr>conn_part := c\<rparr>) = in_flight s + mset (connected [l])"
  using thread_moves [OF assms(1,2)]
proof
  assume "moves_one l (callers (conn_part s)) (callers c)"
  then obtain i p where p: "callers (conn_part s) i \<noteq> N_idle" "callers c = (callers (conn_part s))(i := p)"
    "held p = held (callers (conn_part s) i) + mset (connected [l])" by (auto simp: moves_one_def)
  then have "i \<in> adders s" "finite (adders s)" using assms(3) by (auto simp: system_inv_def)
  from sum_move [OF this(2,1), of held "callers (conn_part s)"] p show ?thesis
    by (simp add: in_flight_def ac_simps)
qed (simp add: in_flight_def)

text \<open>Every session the connector has connected is accounted for.\<close>

definition sessions_inv :: "('ep, 's) system_label list \<Rightarrow> ('ep, 's) system \<Rightarrow> bool" where
  "sessions_inv ls s \<longleftrightarrow>
     mset (connected (conn_trace ls)) = mset (opened (pool_trace ls)) + mset (dropped ls) + in_flight s"

lemma client_opens_none: "pool_step session_open attempts l p q \<Longrightarrow> watcher q = watcher p \<Longrightarrow> opened [l] = []"
  by (erule pool_step.cases) auto

lemma watcher_opens_none:
  "pool_step session_open attempts l p q \<Longrightarrow> \<forall>n. watcher p \<noteq> W_fill (Suc n) \<Longrightarrow> opened [l] = []"
  by (erule pool_step.cases) auto

lemma in_flight_remove:
  assumes "system_inv s" and "i \<in> adders s"
  shows "in_flight s = held (callers (conn_part s) i) +
    in_flight (s\<lparr>conn_part := goto i q (conn_part s), pool_part := p, adders := adders s - {i}\<rparr>)"
  using assms sum_move(2) [of "adders s" i held "callers (conn_part s)"]
  by (simp add: in_flight_def system_inv_def cong: sum.cong_simp)

lemma sessions_inv_step:
  assumes "system_step resolves connects session_open attempts l s t" and "system_inv s" and "sessions_inv ls s"
  shows "sessions_inv (ls @ [l]) t"
  using assms(1)
proof cases
  case (system_thread k c)
  then show ?thesis
    using assms(3) in_flight_thread [OF system_thread(3,4) assms(2)] by (simp add: sessions_inv_def)
next
  case (system_client k p)
  then show ?thesis
    using assms(3) client_opens_none [OF system_client(3,4)] by (simp add: sessions_inv_def in_flight_def)
next
  case (system_watcher k p)
  then show ?thesis
    using assms(3) watcher_opens_none [OF system_watcher(3)] by (simp add: sessions_inv_def in_flight_def)
next
  case (system_refill v I)
  moreover have "adders s = {}" using system_refill assms(2) by (auto simp: system_inv_def)
  ultimately show ?thesis
    using assms(2,3) by (simp add: sessions_inv_def in_flight_def system_inv_def)
next
  case (system_call i)
  with sum_move [of "adders s" i held "callers (conn_part s)"] assms(2,3) show ?thesis
    by (simp add: sessions_inv_def in_flight_def system_inv_def)
next
  case (system_add i x ec n locked)
  with in_flight_remove [OF assms(2) system_add(3)] assms(3) show ?thesis
    by (simp add: sessions_inv_def)
next
  case (system_fail i r ec n)
  have "clear_code (callers (conn_part s) i)" using assms(2) by (simp add: system_inv_def)
  then have "r = None" using system_fail(4,5) by (cases r) auto
  with system_fail in_flight_remove [OF assms(2) system_fail(3)] assms(3) show ?thesis
    by (simp add: sessions_inv_def)
qed (use assms(3) in \<open>simp add: sessions_inv_def in_flight_def\<close>)

lemma sessions_inv_run:
  assumes "system_run resolves connects session_open attempts ls (system_init n limit t0 h p rt ct ot) s"
  shows "sessions_inv ls s"
  using assms
proof (rule system_runs.run_invariant)
  show "sessions_inv [] (system_init n limit t0 h p rt ct ot)"
    by (simp add: sessions_inv_def in_flight_def system_init_def)
qed (blast intro: sessions_inv_step system_inv_run)

lemma connected_published:
  assumes "conn_run resolves connects ls (conn_init h p rt ct ot) s"
  shows "\<forall>x \<in> set (connected ls). \<exists>i ep. Connected i ep x \<in> set ls \<and> ep \<in> \<Union> (set ` set (published ls)) \<and> connects ep (Inr x)"
  using assms
proof (rule conn_runs.run_invariant)
  fix ls t l u
  assume run: "conn_run resolves connects ls (conn_init h p rt ct ot) t" and step: "conn_step resolves connects l t u"
    and before: "\<forall>x \<in> set (connected ls). \<exists>i ep. Connected i ep x \<in> set ls \<and> ep \<in> \<Union> (set ` set (published ls)) \<and> connects ep (Inr x)"
  have new: "\<exists>i ep. Connected i ep x \<in> {l} \<and> ep \<in> \<Union> (set ` set (published ls)) \<and> connects ep (Inr x)"
    if "x \<in> set (connected [l])" for x
    using that connected_from [OF _ conn_inv_run [OF run], of resolves connects] step by (cases l) auto
  show "\<forall>x \<in> set (connected (ls @ [l])). \<exists>i ep. Connected i ep x \<in> set (ls @ [l]) \<and>
      ep \<in> \<Union> (set ` set (published (ls @ [l]))) \<and> connects ep (Inr x)"
    using before new by (fastforce simp: ball_Un)
qed simp

text \<open>An example: the host is resolved, the watcher fills a pool of size 1, a client takes the session.\<close>

definition sample_system :: "(nat, nat) system" where
  "sample_system = system_init 1 1000 5 ''localhost'' ''6666'' 500000000 100000000 100000000"

definition sample_trace :: "(nat, nat) system_label list" where
  "sample_trace =
     map By_connector [Internal, Resolve_start, Resolve_end Success [7, 8], Internal, Published [7, 8], Internal, Internal] @
     [By_pool (Evicted []), By_pool Silent] @
     map By_connector [Internal, Internal, Internal, Connected 0 7 70] @
     [By_adder Internal (Opened 70), By_pool (Took 70)]"

text \<open>Steps of the resolving thread, and the steps of the single adder.\<close>

lemma lift_thread:
  assumes "conn_step resolves connects l c d" and "callers d = callers c"
    and "resolving_thread_running (conn d) = resolving_thread_running (conn c)"
    and "system_alive (s\<lparr>conn_part := c\<rparr>)"
    and "system_run resolves connects session_open attempts (map By_connector ls) (s\<lparr>conn_part := d\<rparr>) u"
  shows "system_run resolves connects session_open attempts (map By_connector (l # ls)) (s\<lparr>conn_part := c\<rparr>) u"
proof -
  have "system_step resolves connects session_open attempts (By_connector l) (s\<lparr>conn_part := c\<rparr>) (s\<lparr>conn_part := d\<rparr>)"
    using system_thread [of resolves connects l "s\<lparr>conn_part := c\<rparr>" d session_open attempts] assms(1-3) by simp
  from system_runs.run_step [OF this assms(4,5)] show ?thesis by simp
qed

lemma system_round:
  fixes s :: "('ep, 's) system"
  assumes "resolver_pc (conn_part s) = R_loop" and "\<not> needed_locked (conn_part s)" and "system_alive s"
    and "resolving_thread_running (conn (conn_part s))" and "resolve_needed (conn (conn_part s))"
    and "kDurationResolution \<le> c_resolve_timeout (conn (conn_part s))" and "resolves ec eps" and "\<not> is_error ec"
  shows "system_run resolves connects session_open attempts
    (map By_connector [Internal, Resolve_start, Resolve_end ec eps, Internal, Published eps, Internal, Internal])
    s (s\<lparr>conn_part := after_round eps ec (conn_part s)\<rparr>)"
proof -
  define c0 where "c0 = conn_part s"
  define c1 where "c1 = c0\<lparr>resolver_pc := R_wait\<rparr>"
  define c2 where "c2 = c1\<lparr>resolver_pc := R_resolving, needed_locked := True\<rparr>"
  define c3 where "c3 = c2\<lparr>resolver_pc := R_resolved ec eps\<rparr>"
  define c4 where "c4 = c3\<lparr>conn := set_resolve_error ec (conn c3), resolver_pc := R_publish eps\<rparr>"
  define c5 where "c5 = c4\<lparr>conn := update_endpoints eps ((conn c4)\<lparr>resolve_needed := False\<rparr>), resolver_pc := R_unlock\<rparr>"
  define c6 where "c6 = c5\<lparr>resolver_pc := R_notify, needed_locked := False\<rparr>"
  define c7 where "c7 = c6\<lparr>conn := notify_resolve_done (conn c6), resolver_pc := R_loop\<rparr>"
  note defs = c0_def c1_def c2_def c3_def c4_def c5_def c6_def c7_def
  have alive: "system_alive (s\<lparr>conn_part := c\<rparr>)" if "callers c = callers (conn_part s)" "resolver_pc c \<noteq> R_terminated" for c
    using assms(3) that by (simp add: system_alive_def)
  have 0: "conn_step resolves connects Internal c0 c1"
    unfolding c1_def by (rule r_check) (use assms in \<open>simp_all add: c0_def\<close>)
  have 1: "conn_step resolves connects Resolve_start c1 c2"
    unfolding c2_def by (rule r_begin) (use assms in \<open>simp_all add: c0_def c1_def\<close>)
  have 2: "conn_step resolves connects (Resolve_end ec eps) c2 c3"
    unfolding c3_def by (rule r_resolve) (use assms in \<open>simp_all add: c0_def c1_def c2_def\<close>)
  have 3: "conn_step resolves connects Internal c3 c4"
    using r_error [of c3 ec eps resolves connects] assms(8) by (simp add: c3_def c4_def)
  have 4: "conn_step resolves connects (Published eps) c4 c5"
    unfolding c5_def by (rule r_publish) (simp add: c4_def)
  have 5: "conn_step resolves connects Internal c5 c6"
    unfolding c6_def by (rule r_unlock) (simp add: c5_def)
  have 6: "conn_step resolves connects Internal c6 c7"
    unfolding c7_def by (rule r_notify) (simp add: c6_def)
  have "c7 = after_round eps ec (conn_part s)"
    by (rule conn_state.equality) (simp_all add: defs after_round_def)
  moreover have "s\<lparr>conn_part := c0\<rparr> = s" by (rule system.equality) (simp_all add: c0_def)
  moreover have "system_run resolves connects session_open attempts
    (map By_connector [Internal, Resolve_start, Resolve_end ec eps, Internal, Published eps, Internal, Internal])
    (s\<lparr>conn_part := c0\<rparr>) (s\<lparr>conn_part := c7\<rparr>)"
    by (rule lift_thread [OF 0 _ _ _ lift_thread [OF 1 _ _ _ lift_thread [OF 2 _ _ _ lift_thread [OF 3 _ _ _
          lift_thread [OF 4 _ _ _ lift_thread [OF 5 _ _ _ lift_thread [OF 6]]]]]]])
      (use assms(1,3) in \<open>simp_all add: alive defs connector_defs system_nil\<close>)
  ultimately show ?thesis by simp
qed

lemma sample_system_run:
  obtains s where "system_run sample_resolves sample_connects (\<lambda>_. True) one_per_place sample_trace sample_system s"
proof -
  let ?step = "system_step sample_resolves sample_connects (\<lambda>_. True) one_per_place"
  let ?run = "system_run sample_resolves sample_connects (\<lambda>_. True) one_per_place"
  define s0 where "s0 = sample_system\<lparr>conn_part := after_round [7, 8] Success (conn_part sample_system)\<rparr>"
  define s1 where "s1 = s0\<lparr>pool_part := (pool_part s0)\<lparr>the_pool := the_pool (pool_part s0), watcher := W_refill 1\<rparr>\<rparr>"
  define s2 where "s2 = s1\<lparr>pool_part := (pool_part s1)\<lparr>watcher := W_fill (card {0 :: nat})\<rparr>, adders := {0}\<rparr>"
  define s3 where "s3 = s2\<lparr>conn_part := goto 0 (N_wait Success) (conn_part s2)\<rparr>"
  define s4 where "s4 = s3\<lparr>conn_part := goto 0 (N_endpoints Success) (conn_part s3)\<rparr>"
  define s5 where "s5 = s4\<lparr>conn_part := goto 0 (N_connecting 7 Success) (conn_part s4)\<rparr>"
  define s6 where "s6 = s5\<lparr>conn_part := goto 0 (N_return (Some 70) Success) (conn_part s5)\<rparr>"
  define s7 where "s7 = s6\<lparr>conn_part := goto 0 N_idle (conn_part s6),
    pool_part := (pool_part s6)\<lparr>the_pool := return_session (\<lambda>_. True) True (clock (pool_part s6)) (Some 70) (the_pool (pool_part s6)),
      watcher := W_fill 0\<rparr>, adders := adders s6 - {0}\<rparr>"
  define s8 where "s8 = s7\<lparr>pool_part := (pool_part s7)\<lparr>the_pool := (the_pool (pool_part s7))\<lparr>sesson_pool := []\<rparr>\<rparr>\<rparr>"
  note init = sample_system_def system_init_def conn_init_def pool_init_def pool_ctor_def
  have round: "?run (map By_connector [Internal, Resolve_start, Resolve_end Success [7, 8], Internal, Published [7, 8], Internal, Internal]) sample_system s0"
    unfolding s0_def by (rule system_round)
      (simp_all add: init connector_ctor_def system_alive_def sample_resolves_def kDurationResolution_def)
  have 0: "?step (By_pool (Evicted [])) s0 s1"
    unfolding s1_def
  proof (rule system_watcher)
    show "pool_step (\<lambda>_. True) one_per_place (Evicted []) (pool_part s0)
        ((pool_part s0)\<lparr>the_pool := the_pool (pool_part s0), watcher := W_refill 1\<rparr>)"
      using w_purge [of "pool_part s0" 1 "the_pool (pool_part s0)"]
      by (simp add: s0_def init purge_def vacant_places_def)
  qed (simp_all add: s0_def init)
  have 1: "?step (By_pool Silent) s1 s2"
    unfolding s2_def by (rule system_refill [of s1 1]) (simp_all add: s1_def one_per_place_def)
  have 2: "?step (By_connector Internal) s2 s3"
    unfolding s3_def by (rule system_call) (simp_all add: s2_def s1_def s0_def init after_round_def)
  have 3: "?step (By_connector Internal) s3 s4"
    unfolding s4_def by (rule system_thread [OF n_ready])
      (simp_all add: s3_def s2_def s1_def s0_def init after_round_def connector_defs)
  have 4: "?step (By_connector Internal) s4 s5"
    unfolding s5_def by (rule system_thread [OF n_pick])
      (simp_all add: s4_def s3_def s2_def s1_def s0_def init after_round_def connector_defs)
  have 5: "?step (By_connector (Connected 0 7 70)) s5 s6"
    unfolding s6_def by (rule system_thread [OF n_connected]) (simp_all add: s5_def sample_connects_def)
  have 6: "?step (By_adder Internal (Opened 70)) s6 s7"
    using system_add [of 0 s6 70 Success 0 sample_resolves sample_connects "\<lambda>_. True" one_per_place True]
    by (simp add: s7_def s6_def s5_def s4_def s3_def s2_def accepted_def)
  have pool: "pool_part s6 = (pool_part sample_system)\<lparr>watcher := W_fill 1\<rparr>"
    by (simp add: s6_def s5_def s4_def s3_def s2_def s1_def s0_def)
  have "sesson_pool (the_pool (pool_part s7)) = [(5, 70)]"
    by (simp add: s7_def pool return_session_def) (simp add: init)
  note pulled = this
  have 7: "?step (By_pool (Took 70)) s7 s8"
    unfolding s8_def
  proof (rule system_client)
    show "pool_step (\<lambda>_. True) one_per_place (Took 70) (pool_part s7)
        ((pool_part s7)\<lparr>the_pool := (the_pool (pool_part s7))\<lparr>sesson_pool := []\<rparr>\<rparr>)"
      using p_get [of True Success "pool_part s7" 70 Success "(the_pool (pool_part s7))\<lparr>sesson_pool := []\<rparr>"] pulled
      by (simp add: get_session_def ensure_session_def pop_front_def)
  qed simp
  have "resolver_pc (conn_part s0) = R_loop" "callers (conn_part s0) = (\<lambda>_. N_idle)"
    by (simp_all add: s0_def init after_round_def)
  note fields = this
  have alive: "system_alive s0" "system_alive s1" "system_alive s2" "system_alive s3" "system_alive s4"
    "system_alive s5" "system_alive s6" "system_alive s7"
    by (simp_all add: system_alive_def fields s1_def s2_def s3_def s4_def s5_def s6_def s7_def)
  note last = system_runs.run_step [OF 6 alive(7) system_runs.run_step [OF 7 alive(8) system_nil]]
  note middle = system_runs.run_step [OF 3 alive(4) system_runs.run_step [OF 4 alive(5) system_runs.run_step [OF 5 alive(6) last]]]
  note all = system_runs.run_step [OF 0 alive(1) system_runs.run_step [OF 1 alive(2) system_runs.run_step [OF 2 alive(3) middle]]]
  have "?run ([By_pool (Evicted []), By_pool Silent] @ map By_connector [Internal, Internal, Internal, Connected 0 7 70] @
      [By_adder Internal (Opened 70), By_pool (Took 70)]) s0 s8"
    using all by simp
  from system_runs.run_join [OF round this] that show thesis by (simp add: sample_trace_def)
qed

section \<open>Properties\<close>

text \<open>
  C1. Sessions are conserved. In every run of a pool with its connector, the sessions the connector has
  connected and those the clients have returned are, counted with multiplicity, those the clients have
  taken, those evicted as idle, those in the list, those an adder could not append, and those
  an adder has just got. Nothing leaks and nothing appears from nowhere.
\<close>

theorem sessions_conserved:
  assumes "system_run resolves connects session_open attempts ls (system_init n limit t0 h p rt ct ot) s"
    and "0 \<le> t0" and "t0 \<le> tick_max"
  shows "mset (connected (conn_trace ls)) + mset (returned (pool_trace ls)) =
    mset (taken (pool_trace ls)) + mset (evicted (pool_trace ls)) + mset (sessions (the_pool (pool_part s))) +
    mset (dropped ls) + in_flight s"
proof -
  have "mset (entered (pool_trace ls)) = mset (departed (pool_trace ls)) + mset (sessions (the_pool (pool_part s)))"
    using fifo_inv_run [OF system_parts(2) [OF assms(1)] assms(2,3)] by (simp add: fifo_inv_def)
  with sessions_inv_run [OF assms(1)] show ?thesis
    by (simp add: sessions_inv_def entered_mset departed_mset ac_simps)
qed

theorem sessions_conserved_witness:
  "\<exists>s. system_run sample_resolves sample_connects (\<lambda>_. True) one_per_place sample_trace sample_system s \<and>
     mset (sessions (the_pool (pool_part s))) + in_flight s = {#}"
proof -
  obtain s where s: "system_run sample_resolves sample_connects (\<lambda>_. True) one_per_place sample_trace sample_system s"
    by (rule sample_system_run)
  from sessions_conserved [OF s [unfolded sample_system_def]] s show ?thesis
    by (auto simp: tick_max_def sample_trace_def)
qed

text \<open>
  C13. Every session a client gets was either put into the pool by a client, or connected by the pool's
  connector to an endpoint that one of its resolves had delivered.
\<close>

theorem handed_out_was_connected:
  assumes "system_run resolves connects session_open attempts ls (system_init n limit t0 h p rt ct ot) s"
    and "0 \<le> t0" and "t0 \<le> tick_max" and "x \<in> set (taken (pool_trace ls))"
  shows "x \<in> set (returned (pool_trace ls)) \<or>
    (\<exists>i ep. Connected i ep x \<in> set (conn_trace ls) \<and> ep \<in> \<Union> (set ` set (published (conn_trace ls))) \<and> connects ep (Inr x))"
proof -
  have "x \<in># mset (departed (pool_trace ls))" using assms(4) by (simp add: departed_mset)
  then have "x \<in># mset (entered (pool_trace ls))"
    using fifo_inv_run [OF system_parts(2) [OF assms(1)] assms(2,3)] by (auto simp: fifo_inv_def)
  then consider "x \<in> set (returned (pool_trace ls))" | "x \<in> set (opened (pool_trace ls))"
    by (auto simp: entered_mset)
  then show ?thesis
  proof cases
    case 2
    moreover have "set (opened (pool_trace ls)) \<subseteq> set (connected (conn_trace ls))"
      using sessions_inv_run [OF assms(1)] by (metis sessions_inv_def set_mset_mset set_mset_union Un_assoc Un_upper1)
    ultimately have "x \<in> set (connected (conn_trace ls))" by blast
    with connected_published [OF system_parts(1) [OF assms(1)]] show ?thesis by simp
  qed simp
qed

theorem handed_out_was_connected_witness:
  "\<exists>i ep. Connected i ep 70 \<in> set (conn_trace sample_trace) \<and> ep \<in> {7, 8} \<and> sample_connects ep (Inr 70)"
proof -
  obtain s where s: "system_run sample_resolves sample_connects (\<lambda>_. True) one_per_place sample_trace sample_system s"
    by (rule sample_system_run)
  from handed_out_was_connected [OF s [unfolded sample_system_def], of 70] show ?thesis
    by (simp add: tick_max_def sample_trace_def)
qed

end
