(* ===== verification/Pool_Shutdown.thy ===== *)
theory Pool_Shutdown
  imports Pool_System
begin

text \<open>
  The end of a pool: \<open>~base_connection_pool\<close> tells the watcher to stop and joins it, then the connector is
  destroyed, whose destructor joins the resolving thread. On the composed machine of \<open>Pool_System\<close>:
  how much the threads can still do, that something can always move, and that both joins return.
\<close>

section \<open>What is left to do\<close>

text \<open>What the watcher and its adders can still do once the watcher has been told to stop.\<close>

fun work_left :: "watcher_pc \<times> nat set \<times> (nat \<Rightarrow> ('ep, 's) caller_pc) \<Rightarrow> nat" where
  "work_left (W_exit, I, f) = 0"
| "work_left (W_loop, I, f) = 1"
| "work_left (W_fill n, I, f) = 2 + (\<Sum>i \<in> I. caller_rank (f i))"
| "work_left (W_refill v, I, f) = 3 + 7 * unat v"

lemma caller_rank_le: "caller_rank p \<le> 7"
  by (cases p) simp_all

definition work :: "('ep, 's) system \<Rightarrow> watcher_pc \<times> nat set \<times> (nat \<Rightarrow> ('ep, 's) caller_pc)" where
  "work s = (watcher (pool_part s), adders s, callers (conn_part s))"

lemma stopped_pool_step:
  assumes "pool_step session_open attempts l p q" and "\<not> watch_pool (the_pool p)"
  shows "\<not> watch_pool (the_pool q)"
  using assms(1)
proof cases
  case (p_get locked ec x ec' r)
  with assms(2) take_cases [of locked ec "the_pool p" x ec' r] show ?thesis by force
next
  case (p_try_get locked ec x ec' r)
  with assms(2) take_cases [of locked ec "the_pool p" x ec' r] show ?thesis by force
qed (use assms(2) in \<open>auto dest!: take_fails simp: pool_dtor_def\<close>)

lemma stopped_watcher_step:
  assumes "pool_step session_open attempts l p q" and "\<not> watch_pool (the_pool p)" and "watcher q \<noteq> watcher p"
    and "\<forall>n. watcher p \<noteq> W_fill (Suc n) \<and> watcher q \<noteq> W_fill n"
  shows "work_left (watcher q, I, f) < work_left (watcher p, I, f)"
  using assms by cases auto

lemma thread_work:
  assumes "conn_step resolves connects l (conn_part s) c" and "system_inv s"
    and "\<forall>i. callers c i = N_idle \<longleftrightarrow> callers (conn_part s) i = N_idle"
  shows "callers c = callers (conn_part s) \<or> work_left (watcher (pool_part s), adders s, callers c) < work_left (work s)"
proof (cases "moves_one l (callers (conn_part s)) (callers c)")
  case True
  then obtain i p where p: "callers (conn_part s) i \<noteq> N_idle" "callers c = (callers (conn_part s))(i := p)"
    "caller_rank p < caller_rank (callers (conn_part s) i)" by (auto simp: moves_one_def)
  then have i: "i \<in> adders s" "finite (adders s)" using assms(2) by (auto simp: system_inv_def)
  then have "card (adders s) \<noteq> 0" by auto
  then obtain n where "watcher (pool_part s) = W_fill n"
    using assms(2) by (cases "watcher (pool_part s)") (auto simp: system_inv_def)
  with sum_move [OF i(2,1), of caller_rank "callers (conn_part s)"] p show ?thesis by (simp add: work_def)
qed (use thread_moves [OF assms(1,3)] in auto)

text \<open>An adder that comes back leaves one thread less to wait for.\<close>

lemma adder_work:
  assumes "system_inv s" and "i \<in> adders s" and "callers (conn_part s) i = N_return r ec"
    and "watcher (pool_part s) = W_fill (Suc n)"
  shows "work_left (W_fill n, adders s - {i}, (callers (conn_part s))(i := q)) < work_left (work s)"
  using assms sum_move(2) [of "adders s" i caller_rank "callers (conn_part s)"]
  by (simp add: work_def system_inv_def cong: sum.cong_simp)

text \<open>Every step leaves the watcher and its adders where they are, or leaves them less to do.\<close>

lemma stopped_system_step:
  assumes "system_step resolves connects session_open attempts l s t" and "system_inv s"
    and "\<not> watch_pool (the_pool (pool_part s))" and "\<And>v m. v \<noteq> 0 \<Longrightarrow> attempts v m \<Longrightarrow> m \<le> unat v"
  shows "\<not> watch_pool (the_pool (pool_part t)) \<and> (work t = work s \<or> work_left (work t) < work_left (work s))"
  using assms(1)
proof cases
  case (system_thread k c)
  with thread_work [OF system_thread(3) assms(2) system_thread(4)] assms(3) show ?thesis by (auto simp: work_def)
next
  case (system_client k p)
  with stopped_pool_step [OF system_client(3)] assms(3) show ?thesis by (simp add: work_def)
next
  case (system_watcher k p)
  with stopped_pool_step [OF system_watcher(3)] stopped_watcher_step [OF system_watcher(3) assms(3) system_watcher(4,5)] assms(3)
  show ?thesis by (simp add: work_def)
next
  case (system_refill v I)
  have "(\<Sum>i \<in> I. caller_rank (callers (conn_part s) i)) \<le> 7 * card I"
    using sum_bounded_above [of I "\<lambda>i. caller_rank (callers (conn_part s) i)" 7] system_refill(6)
    by (metis caller_rank_le mult.commute of_nat_id)
  with system_refill assms(3) assms(4) [of v "card I"] show ?thesis by (simp add: work_def)
next
  case (system_call i)
  moreover obtain n where "watcher (pool_part s) = W_fill n"
    using system_call assms(2) by (cases "watcher (pool_part s)") (auto simp: system_inv_def)
  ultimately show ?thesis
    using sum_move [of "adders s" i caller_rank "callers (conn_part s)"] assms(2,3) by (simp add: work_def system_inv_def)
next
  case (system_add i x ec n locked)
  with adder_work [OF assms(2) system_add(3,4,6), of N_idle] assms(3) show ?thesis by (simp add: work_def)
next
  case (system_fail i r ec n)
  with adder_work [OF assms(2) system_fail(3,4,6), of N_idle] assms(3) show ?thesis by (simp add: work_def)
qed (use assms(3) in \<open>simp add: work_def\<close>)

text \<open>
  Nothing blocks for ever: while the watcher has not left, it or an adder can move, or the resolving
  thread holds the lock an adder waits for and can move itself.
\<close>

definition lock_left :: "('ep, 's) system \<Rightarrow> nat" where
  "lock_left s = (if in_resolve (resolver_pc (conn_part s)) then resolver_rank (resolver_pc (conn_part s)) else 0)"

lemma resolver_progress:
  assumes "in_resolve (resolver_pc c)" and "resolver_pc c \<noteq> R_terminated" and "resolves ec eps"
    and "kDurationResolution \<le> c_resolve_timeout (conn c)"
  shows "\<exists>l d. conn_step resolves connects l c d \<and> callers d = callers c \<and> resolver_pc d \<noteq> R_terminated \<and>
    resolving_thread_running (conn d) = resolving_thread_running (conn c) \<and>
    resolver_rank (resolver_pc d) < resolver_rank (resolver_pc c)"
proof (cases "resolver_pc c")
  case R_resolving
  then show ?thesis using r_resolve [of c resolves ec eps connects] assms(3,4) by fastforce
next
  case (R_resolved ec' eps')
  from r_error [OF this, of resolves connects] R_resolved show ?thesis
    by (intro exI conjI) (assumption, simp_all add: connector_defs)
next
  case R_unlock_failed
  then show ?thesis using r_unlock_failed [of c resolves connects] by fastforce
next
  case (R_publish eps')
  then show ?thesis using r_publish [of c eps' resolves connects] by (fastforce simp: connector_defs)
next
  case R_unlock
  then show ?thesis using r_unlock [of c resolves connects] by fastforce
qed (use assms(1,2) in simp_all)

text \<open>A caller inside \<open>new_session\<close> can move, unless it is at the lock.\<close>

lemma caller_progress:
  assumes "p = callers c i" and "p \<noteq> N_idle" and "\<forall>x. p \<noteq> N_throw x" and "\<forall>r ec. p \<noteq> N_return r ec"
    and "\<forall>ep. connects ep (peer ep) \<and> \<not> escapes (peer ep)" and "\<forall>ec. p = N_notify ec \<longrightarrow> \<not> needed_locked c"
  shows "\<exists>l q d. conn_step resolves connects l c (goto i q d) \<and> callers d = callers c \<and> resolver_pc d = resolver_pc c \<and>
    resolving_thread_running (conn d) = resolving_thread_running (conn c) \<and> q \<notin> {N_idle, p} \<and> (\<forall>x. q \<noteq> N_throw x)"
proof (cases p)
  case (N_wait ec)
  then show ?thesis using assms(1) n_timeout [of c i ec resolves connects] by fastforce
next
  case (N_failed ec)
  then show ?thesis using assms(1) n_fail [of c i ec resolves connects] by fastforce
next
  case (N_endpoints ec)
  show ?thesis
  proof (cases "get_endpoints (conn c)")
    case Nil
    then show ?thesis using assms(1) N_endpoints n_none [of c i ec resolves connects] by fastforce
  next
    case (Cons ep eps)
    then show ?thesis using assms(1) N_endpoints n_pick [of c i ec ep resolves connects] by fastforce
  qed
next
  case (N_connecting ep ec)
  show ?thesis
  proof (cases "peer ep")
    case (Inr x)
    with assms(5) have "connects ep (Inr x)" by metis
    then show ?thesis using assms(1) N_connecting n_connected [of c i ep ec connects x resolves] by fastforce
  next
    case (Inl y)
    from assms(5) have "connects ep (Inl y)" "\<not> escapes (peer ep)" using Inl by metis+
    then obtain err what where "connects ep (Inl (System_error err what))"
      using Inl by (cases y) (auto simp: escapes_def)
    then show ?thesis using assms(1) N_connecting n_refused [of c i ep ec connects err what resolves] by fastforce
  qed
next
  case (N_failing ec)
  then show ?thesis using assms(1) n_failing [of c i ec resolves connects] by fastforce
next
  case (N_notify ec)
  then have "conn_step resolves connects (Requested i) c
      (goto i (N_return None ec) (c\<lparr>conn := notify_resolve_needed (conn c)\<rparr>))"
    using assms(1,6) n_notify [of c i ec resolves connects] by simp
  with N_notify show ?thesis by (intro exI conjI) (assumption, simp_all add: connector_defs)
qed (use assms(2-4) in auto)

text \<open>What the components outside the model are assumed to do: a resolve and every connect come back.\<close>

definition peers_answer :: "(error_code \<Rightarrow> 'ep list \<Rightarrow> bool) \<Rightarrow> ('ep \<Rightarrow> exn + 's \<Rightarrow> bool) \<Rightarrow> bool" where
  "peers_answer resolves connects \<longleftrightarrow>
     (\<exists>ec eps. resolves ec eps) \<and> (\<forall>ep. \<exists>r. connects ep r \<and> \<not> escapes r)"

definition strategy_ok :: "(64 word \<Rightarrow> nat \<Rightarrow> bool) \<Rightarrow> bool" where
  "strategy_ok attempts \<longleftrightarrow> (\<forall>v. v \<noteq> 0 \<longrightarrow> (\<exists>n. attempts v n) \<and> (\<forall>n. attempts v n \<longrightarrow> n \<le> unat v))"

text \<open>Both strategies of the library are such, whatever their clock and their back-off.\<close>

lemma strategies_ok:
  "strategy_ok one_per_place" "strategy_ok (\<lambda>v n. \<exists>t0 st. n = conservative_attempts t0 v st)"
proof -
  show "strategy_ok one_per_place" by (auto simp: strategy_ok_def one_per_place_def)
  have "conservative_attempts t0 v st \<le> unat v" if "v \<noteq> 0" for t0 v st
  proof -
    have "0 < unat v" using that by (simp add: unat_gt_0)
    then show ?thesis by (auto simp: conservative_attempts_def)
  qed
  then show "strategy_ok (\<lambda>v n. \<exists>t0 st. n = conservative_attempts t0 v st)" by (auto simp: strategy_ok_def)
qed

text \<open>A state on the way out.\<close>

definition closing :: "('ep, 's) system \<Rightarrow> bool" where
  "closing s \<longleftrightarrow> system_inv s \<and> system_alive s \<and> \<not> watch_pool (the_pool (pool_part s)) \<and>
     needed_locked (conn_part s) = in_resolve (resolver_pc (conn_part s)) \<and>
     kDurationResolution \<le> c_resolve_timeout (conn (conn_part s))"

lemma closing_step:
  assumes "closing s" and "system_step resolves connects session_open attempts l s t" and "system_alive t"
    and "strategy_ok attempts"
  shows "closing t \<and> (work t = work s \<or> work_left (work t) < work_left (work s))"
proof -
  have run: "conn_run resolves connects (conn_labels l) (conn_part s) (conn_part t)"
    using conn_view assms(1,2) by (auto simp: closing_def)
  have lock: "needed_locked (conn_part t) = in_resolve (resolver_pc (conn_part t))"
    using run
  proof (rule conn_runs.run_preserves)
    show "needed_locked d = in_resolve (resolver_pc d)"
      if "conn_step resolves connects k c d" "needed_locked c = in_resolve (resolver_pc c)" for k c d
      using that by cases auto
  qed (use assms(1) in \<open>simp add: closing_def\<close>)
  show ?thesis
    using lock assms stopped_system_step [OF assms(2)] system_inv_step [OF assms(2)] conn_run_config [OF run]
    by (auto simp: closing_def strategy_ok_def)
qed

text \<open>Each branch of a step towards the exit: the watcher's own steps first, then those of the adders.\<close>

lemma watcher_progress:
  assumes "closing s" and "strategy_ok attempts" and "adders s = {}" and "watcher (pool_part s) \<noteq> W_exit"
  shows "\<exists>l t. system_step resolves connects session_open attempts l s t \<and> system_alive t \<and> work t \<noteq> work s"
proof -
  have own: "\<exists>l t. system_step resolves connects session_open attempts l s t \<and> system_alive t \<and> work t \<noteq> work s"
    if "pool_step session_open attempts k (pool_part s) p" "watcher p \<noteq> watcher (pool_part s)"
      "\<forall>n. watcher (pool_part s) \<noteq> W_fill (Suc n) \<and> watcher p \<noteq> W_fill n" for k p
    using system_watcher [of session_open attempts k s p resolves connects] that assms(1)
    by (auto simp: closing_def system_alive_def work_def intro!: exI [of _ "s\<lparr>pool_part := p\<rparr>"])
  show ?thesis
  proof (cases "watcher (pool_part s)")
    case W_loop
    then show ?thesis using own [OF w_exit] assms(1) by (simp add: closing_def)
  next
    case (W_fill n)
    then have "n = 0" using assms(1,3) by (simp add: closing_def system_inv_def)
    with W_fill show ?thesis using own [OF w_next] by simp
  next
    case (W_refill v)
    show ?thesis
    proof (cases "v = 0")
      case True
      with W_refill show ?thesis using own [OF w_full] by simp
    next
      case False
      with assms(2) obtain n where "attempts v n" unfolding strategy_ok_def by blast
      then have n: "attempts v (card {..<n})" by simp
      show ?thesis
        using system_refill [of s v attempts "{..<n}" resolves connects session_open] W_refill False n assms(1)
        by (auto simp: closing_def system_alive_def work_def
            intro!: exI [of _ "s\<lparr>pool_part := (pool_part s)\<lparr>watcher := W_fill n\<rparr>, adders := {..<n}\<rparr>"])
    qed
  qed (use assms(4) in simp)
qed

lemma adder_progress:
  assumes "closing s" and "i \<in> adders s" and "\<forall>ep. connects ep (peer ep) \<and> \<not> escapes (peer ep)"
    and "\<forall>ec. callers (conn_part s) i = N_notify ec \<longrightarrow> \<not> needed_locked (conn_part s)"
  shows "\<exists>l t. system_step resolves connects session_open attempts l s t \<and> system_alive t \<and> work t \<noteq> work s"
proof -
  have alive: "resolver_pc (conn_part s) \<noteq> R_terminated" "\<forall>j x. callers (conn_part s) j \<noteq> N_throw x"
    and inv: "system_inv s" using assms(1) by (auto simp: closing_def system_alive_def)
  obtain n where n: "watcher (pool_part s) = W_fill (Suc n)"
  proof -
    have "card (adders s) \<noteq> 0" using inv assms(2) by (auto simp: system_inv_def)
    then have "awaited (watcher (pool_part s)) \<noteq> 0" using inv by (simp add: system_inv_def)
    then show ?thesis using that by (cases "watcher (pool_part s)") (auto simp: gr0_conv_Suc)
  qed
  consider "callers (conn_part s) i = N_idle" | r ec where "callers (conn_part s) i = N_return r ec"
    | "callers (conn_part s) i \<noteq> N_idle" "\<forall>r ec. callers (conn_part s) i \<noteq> N_return r ec" by blast
  then show ?thesis
  proof cases
    case 1
    from system_call [OF assms(2) this, of resolves connects session_open attempts] alive 1 show ?thesis
      by (intro exI conjI) (assumption, auto simp: system_alive_def work_def fun_upd_idem_iff)
  next
    case 2
    then have gone: "work t \<noteq> work s" if "watcher (pool_part t) = W_fill n" for t using n that by (auto simp: work_def)
    show ?thesis
    proof (cases "is_error ec \<or> r = None")
      case True
      from system_fail [OF assms(2) 2 this n, of resolves connects session_open attempts] alive gone show ?thesis
        by (intro exI conjI) (assumption, auto simp: system_alive_def)
    next
      case False
      then obtain x where "callers (conn_part s) i = N_return (Some x) ec" "\<not> is_error ec" using 2 by auto
      from system_add [OF assms(2) this n, of resolves connects session_open attempts] alive gone show ?thesis
        by (intro exI conjI) (assumption, auto simp: system_alive_def)
    qed
  next
    case 3
    have quiet: "\<forall>x. callers (conn_part s) i \<noteq> N_throw x" using alive(2) by blast
    obtain l q d where d: "conn_step resolves connects l (conn_part s) (goto i q d)" "callers d = callers (conn_part s)"
      "resolver_pc d = resolver_pc (conn_part s)" "q \<notin> {N_idle, callers (conn_part s) i}" "\<forall>x. q \<noteq> N_throw x"
      "resolving_thread_running (conn d) = resolving_thread_running (conn (conn_part s))"
      using caller_progress [of _ "conn_part s" i connects peer resolves, OF refl 3(1) quiet 3(2) assms(3,4)] by blast
    have idle: "\<forall>j. callers (goto i q d) j = N_idle \<longleftrightarrow> callers (conn_part s) j = N_idle" using d(2,4) 3(1) by simp
    have "callers (goto i q d) i \<noteq> callers (conn_part s) i" using d(4) by simp
    then have "callers (goto i q d) \<noteq> callers (conn_part s)" by metis
    then have "work (s\<lparr>conn_part := goto i q d\<rparr>) \<noteq> work s" by (simp add: work_def)
    moreover have "system_alive (s\<lparr>conn_part := goto i q d\<rparr>)" using d alive by (simp add: system_alive_def)
    ultimately show ?thesis using system_thread [OF d(1) idle, of session_open attempts] d(6) by auto
  qed
qed

lemma closing_progress:
  assumes "closing s" and "strategy_ok attempts" and "peers_answer resolves connects" and "watcher (pool_part s) \<noteq> W_exit"
  shows "\<exists>l t. system_step resolves connects session_open attempts l s t \<and> system_alive t \<and>
    (work t \<noteq> work s \<or> work t = work s \<and> lock_left t < lock_left s)"
proof (cases "adders s = {}")
  case True
  with watcher_progress [OF assms(1,2) _ assms(4)] show ?thesis by blast
next
  case False
  then obtain i where i: "i \<in> adders s" by blast
  obtain ec eps where answer: "resolves ec eps" using assms(3) by (auto simp: peers_answer_def)
  have "\<forall>ep. \<exists>r. connects ep r \<and> \<not> escapes r" using assms(3) by (simp add: peers_answer_def)
  then obtain peer where peer: "\<forall>ep. connects ep (peer ep) \<and> \<not> escapes (peer ep)" by metis
  show ?thesis
  proof (cases "needed_locked (conn_part s)")
    case locked: True
    then have "in_resolve (resolver_pc (conn_part s))" "resolver_pc (conn_part s) \<noteq> R_terminated"
      "kDurationResolution \<le> c_resolve_timeout (conn (conn_part s))"
      using assms(1) by (auto simp: closing_def system_alive_def)
    with resolver_progress [of "conn_part s" resolves ec eps connects] answer obtain l d where d:
      "conn_step resolves connects l (conn_part s) d" "callers d = callers (conn_part s)" "resolver_pc d \<noteq> R_terminated"
      "resolving_thread_running (conn d) = resolving_thread_running (conn (conn_part s))"
      "resolver_rank (resolver_pc d) < resolver_rank (resolver_pc (conn_part s))" by blast
    have "system_step resolves connects session_open attempts (By_connector l) s (s\<lparr>conn_part := d\<rparr>)"
      using d by (intro system_thread) auto
    moreover have "system_alive (s\<lparr>conn_part := d\<rparr>)" using assms(1) d(2,3) by (simp add: closing_def system_alive_def)
    moreover have "lock_left (s\<lparr>conn_part := d\<rparr>) < lock_left s"
      using d(5) \<open>in_resolve (resolver_pc (conn_part s))\<close> by (simp add: lock_left_def)
    moreover have "work (s\<lparr>conn_part := d\<rparr>) = work s" using d(2) by (simp add: work_def)
    ultimately show ?thesis by blast
  next
    case False
    with adder_progress [where s = s and connects = connects and i = i, OF assms(1) i peer] show ?thesis by blast
  qed
qed

lemma lock_left_le: "lock_left s \<le> 7"
  by (cases "resolver_pc (conn_part s)") (simp_all add: lock_left_def)

lemma closing_run:
  assumes "closing s" and "strategy_ok attempts" and "peers_answer resolves connects"
  shows "\<exists>ls t. system_run resolves connects session_open attempts ls s t \<and> watcher (pool_part t) = W_exit"
  using assms(1)
proof (induction "8 * work_left (work s) + lock_left s" arbitrary: s rule: less_induct)
  case less
  show ?case
  proof (cases "watcher (pool_part s) = W_exit")
    case True
    then show ?thesis using system_nil by blast
  next
    case False
    from closing_progress [of s attempts resolves connects session_open, OF less.prems assms(2,3) False] obtain l t where
      step: "system_step resolves connects session_open attempts l s t" "system_alive t"
      and moved: "work t \<noteq> work s \<or> work t = work s \<and> lock_left t < lock_left s" by blast
    from closing_step [OF less.prems step assms(2)] have t: "closing t" "work t = work s \<or> work_left (work t) < work_left (work s)"
      by simp_all
    have "8 * work_left (work t) + lock_left t < 8 * work_left (work s) + lock_left s"
      using moved t(2) lock_left_le [of t] by auto
    from less.hyps [OF this t(1)] obtain ls u where "system_run resolves connects session_open attempts ls t u"
      "watcher (pool_part u) = W_exit" by blast
    moreover have "system_alive s" using less.prems by (simp add: closing_def)
    ultimately show ?thesis using system_runs.run_step [OF step(1)] by blast
  qed
qed

text \<open>An infinite execution of the composed machine.\<close>

definition system_execution ::
  "(error_code \<Rightarrow> 'ep list \<Rightarrow> bool) \<Rightarrow> ('ep \<Rightarrow> exn + 's \<Rightarrow> bool) \<Rightarrow> ('s \<Rightarrow> bool) \<Rightarrow> (64 word \<Rightarrow> nat \<Rightarrow> bool)
     \<Rightarrow> (nat \<Rightarrow> ('ep, 's) system) \<Rightarrow> bool" where
  "system_execution resolves connects session_open attempts f \<longleftrightarrow>
     (\<forall>n. system_alive (f n) \<and> (\<exists>l. system_step resolves connects session_open attempts l (f n) (f (Suc n))))"

text \<open>The pool's destructor has stored \<open>false\<close> in \<open>watch_pool_\<close> and joins the watcher.\<close>

definition begin_dtor :: "('ep, 's) system \<Rightarrow> ('ep, 's) system" where
  "begin_dtor s = s\<lparr>pool_part := (pool_part s)\<lparr>the_pool := pool_dtor (the_pool (pool_part s))\<rparr>\<rparr>"

lemma begin_dtor_closing:
  assumes "system_run resolves connects session_open attempts ls (system_init n limit t0 h p rt ct ot) s"
    and "system_alive s" and "kDurationResolution \<le> rt"
  shows "closing (begin_dtor s)"
proof -
  note conn = system_parts(1) [OF assms(1)]
  have "c_resolve_timeout (conn (conn_part s)) = rt"
    using conn_run_config [OF conn] by (simp add: conn_init_def connector_ctor_def)
  then show ?thesis
    using assms(2,3) system_inv_run [OF assms(1)] conn_inv_run [OF conn]
    by (simp add: closing_def begin_dtor_def system_inv_def system_alive_def pool_dtor_def conn_inv_def)
qed

lemma closing_execution:
  assumes "system_execution resolves connects session_open attempts f" and "closing (f 0)" and "strategy_ok attempts"
  shows "closing (f n) \<and> (work (f (Suc n)) = work (f n) \<or> work_left (work (f (Suc n))) < work_left (work (f n)))"
proof -
  have step: "closing (f (Suc m)) \<and> (work (f (Suc m)) = work (f m) \<or> work_left (work (f (Suc m))) < work_left (work (f m)))"
    if "closing (f m)" for m
    using assms(1,3) closing_step [OF that] unfolding system_execution_def by blast
  have "closing (f n)" by (induction n) (use assms(2) step in auto)
  with step show ?thesis by blast
qed

lemma teardown_run:
  assumes "\<not> resolving_thread_running (conn (conn_part s))" and "\<forall>i. callers (conn_part s) i = N_idle" and "resolves ec eps"
  shows "\<exists>ls t. system_run resolves connects session_open attempts ls s t \<and> thread_exit (conn_part t) \<and> pool_part t = pool_part s"
  using assms(1,2)
proof (induction "resolver_rank (resolver_pc (conn_part s))" arbitrary: s rule: less_induct)
  case less
  show ?case
  proof (cases "thread_exit (conn_part s)")
    case True
    then show ?thesis using system_nil by blast
  next
    case False
    from stopped_progress [of "conn_part s" resolves ec eps connects, OF less.prems(1) False assms(3)] obtain l d where
      d: "conn_step resolves connects l (conn_part s) d" "callers d = callers (conn_part s)" "\<not> resolving_thread_running (conn d)"
      "resolver_rank (resolver_pc d) < resolver_rank (resolver_pc (conn_part s))" by blast
    have step: "system_step resolves connects session_open attempts (By_connector l) s (s\<lparr>conn_part := d\<rparr>)"
      using d less.prems(1) by (intro system_thread) auto
    have "system_alive s" using False less.prems(2) by (simp add: system_alive_def thread_exit_def)
    moreover obtain ls t where "system_run resolves connects session_open attempts ls (s\<lparr>conn_part := d\<rparr>) t"
      "thread_exit (conn_part t)" "pool_part t = pool_part s"
      using less.hyps [of "s\<lparr>conn_part := d\<rparr>"] d less.prems(2) by auto
    ultimately show ?thesis using system_runs.run_step [OF step] by blast
  qed
qed

text \<open>The watcher leaves at the first look at \<open>watch_pool_\<close>; the clients may go on for ever.\<close>

lemma sample_exit_steps:
  defines "s \<equiv> begin_dtor sample_system"
  defines "t \<equiv> s\<lparr>pool_part := (pool_part s)\<lparr>watcher := W_exit\<rparr>\<rparr>"
  shows "system_step sample_resolves sample_connects (\<lambda>_. True) one_per_place (By_pool Silent) s t"
    and "system_step sample_resolves sample_connects (\<lambda>_. True) one_per_place (By_pool Silent) t t"
    and "system_alive s" "system_alive t" "watcher (pool_part s) = W_loop"
proof -
  note init = s_def t_def begin_dtor_def sample_system_def system_init_def conn_init_def pool_init_def pool_ctor_def pool_dtor_def
  show "system_alive s" "system_alive t" "watcher (pool_part s) = W_loop" by (simp_all add: init system_alive_def)
  show "system_step sample_resolves sample_connects (\<lambda>_. True) one_per_place (By_pool Silent) s t"
    unfolding t_def by (rule system_watcher [OF w_exit]) (simp_all add: init)
  have "(pool_part t)\<lparr>clock := clock (pool_part t)\<rparr> = pool_part t" "t\<lparr>pool_part := pool_part t\<rparr> = t" by simp_all
  then show "system_step sample_resolves sample_connects (\<lambda>_. True) one_per_place (By_pool Silent) t t"
    using system_client [OF p_tick [of "pool_part t" "clock (pool_part t)"], of sample_resolves sample_connects] by (simp add: init tick_max_def)
qed

section \<open>Properties\<close>

text \<open>
  C26. Destruction does not race: whenever the connector inside a pool has been told to stop, the pool's
  watcher has left, no adder is left, and no thread is inside \<open>new_session\<close> of the dying connector.
\<close>

theorem destructors_do_not_race:
  assumes "system_run resolves connects session_open attempts ls (system_init n limit t0 h p rt ct ot) s"
    and "\<not> resolving_thread_running (conn (conn_part s))"
  shows "watcher (pool_part s) = W_exit \<and> adders s = {} \<and> (\<forall>i. callers (conn_part s) i = N_idle)"
  using system_inv_run [OF assms(1)] assms(2) by (auto simp: system_inv_def)

theorem destructors_do_not_race_witness:
  "\<exists>ls s. system_run sample_resolves sample_connects (\<lambda>_. True) one_per_place ls sample_system s \<and>
     \<not> resolving_thread_running (conn (conn_part s)) \<and> adders s = {}"
proof -
  let ?s = "begin_dtor sample_system"
  let ?t = "?s\<lparr>pool_part := (pool_part ?s)\<lparr>watcher := W_exit\<rparr>\<rparr>"
  let ?u = "?t\<lparr>conn_part := (conn_part ?t)\<lparr>conn := connector_stop (conn (conn_part ?t))\<rparr>\<rparr>"
  have 1: "system_step sample_resolves sample_connects (\<lambda>_. True) one_per_place (By_pool Silent) sample_system ?s"
    unfolding begin_dtor_def by (rule system_client [OF p_stop]) simp
  have 2: "system_step sample_resolves sample_connects (\<lambda>_. True) one_per_place (By_connector Internal) ?t ?u"
    by (rule system_connector_dtor) simp
  have "system_alive sample_system" using sample_exit_steps(3) by (simp add: begin_dtor_def system_alive_def)
  from system_runs.run_step [OF 1 this system_runs.run_step [OF sample_exit_steps(1,3) system_runs.run_step [OF 2 sample_exit_steps(4) system_nil]]]
  have run: "system_run sample_resolves sample_connects (\<lambda>_. True) one_per_place
      [By_pool Silent, By_pool Silent, By_connector Internal] sample_system ?u" .
  have "\<not> resolving_thread_running (conn (conn_part ?u))" by (simp add: connector_stop_def)
  with destructors_do_not_race [OF run [unfolded sample_system_def]] run show ?thesis
    unfolding sample_system_def by blast
qed

text \<open>
  C7. The destructor of a pool never gets stuck: from every state a run can reach, once the destructor has
  begun, there is a way for the threads to go on in which the watcher leaves, the connector is told to
  stop and its resolving thread leaves too, provided every resolve and every connect comes back.
\<close>

theorem teardown_completes:
  assumes "system_run resolves connects session_open attempts ls (system_init n limit t0 h p rt ct ot) s"
    and "system_alive s" and "kDurationResolution \<le> rt"
    and "strategy_ok attempts" and "peers_answer resolves connects"
  shows "\<exists>ls' t. system_run resolves connects session_open attempts ls' (begin_dtor s) t \<and>
    watcher (pool_part t) = W_exit \<and> thread_exit (conn_part t)"
proof -
  note closing = begin_dtor_closing [OF assms(1-3)]
  from closing_run [where session_open = session_open, OF closing assms(4,5)] obtain ls1 u where
    u: "system_run resolves connects session_open attempts ls1 (begin_dtor s) u" "watcher (pool_part u) = W_exit" by blast
  have "system_inv u"
    using u(1) by (rule system_runs.run_preserves) (use closing in \<open>auto simp: closing_def intro: system_inv_step\<close>)
  then have idle: "\<forall>i. callers (conn_part u) i = N_idle" using u(2) by (auto simp: system_inv_def)
  let ?u = "u\<lparr>conn_part := (conn_part u)\<lparr>conn := connector_stop (conn (conn_part u))\<rparr>\<rparr>"
  obtain ec eps where "resolves ec eps" using assms(5) by (auto simp: peers_answer_def)
  with teardown_run [of ?u resolves ec eps connects session_open attempts] idle obtain ls2 t where
    t: "system_run resolves connects session_open attempts ls2 ?u t" "thread_exit (conn_part t)" "pool_part t = pool_part ?u"
    by (auto simp: connector_stop_def)
  show ?thesis
  proof (cases "resolver_pc (conn_part u) = R_terminated")
    case True
    with u show ?thesis by (auto simp: thread_exit_def)
  next
    case False
    with idle have "system_alive u" by (simp add: system_alive_def)
    from system_runs.run_step [OF system_connector_dtor [OF u(2)] this t(1)] system_runs.run_join [OF u(1)] t(2,3) u(2)
    show ?thesis by fastforce
  qed
qed

theorem teardown_completes_witness:
  "\<exists>ls' t. system_run sample_resolves sample_connects (\<lambda>_. True) one_per_place ls' (begin_dtor sample_system) t \<and>
     watcher (pool_part t) = W_exit \<and> thread_exit (conn_part t)"
proof -
  have "strategy_ok one_per_place" by (rule strategies_ok)
  moreover have "peers_answer sample_resolves sample_connects"
    by (auto simp: peers_answer_def sample_resolves_def sample_connects_def escapes_def)
  moreover have "system_alive sample_system"
    by (simp add: system_alive_def sample_system_def system_init_def conn_init_def)
  ultimately show ?thesis
    using teardown_completes [OF system_nil, of 1 1000 5 "''localhost''" "''6666''" 500000000 100000000 100000000]
    by (simp add: sample_system_def kDurationResolution_def)
qed

text \<open>
  C17. The pool destructor's \<open>join\<close> returns: in every execution that begins when \<open>watch_pool_\<close> has become false,
  and in which the watcher or one of its adders keeps being scheduled until the watcher has left,
  the watcher leaves.
\<close>

theorem pool_join_returns:
  assumes "system_run resolves connects session_open attempts ls (system_init n limit t0 h p rt ct ot) s"
    and "kDurationResolution \<le> rt" and "strategy_ok attempts"
    and "system_execution resolves connects session_open attempts f" and "f 0 = begin_dtor s"
    and "\<forall>k. watcher (pool_part (f k)) \<noteq> W_exit \<longrightarrow> (\<exists>m > k. work (f m) \<noteq> work (f k))"
  shows "\<exists>k. watcher (pool_part (f k)) = W_exit"
proof -
  have "system_alive (begin_dtor s)" using assms(4,5) unfolding system_execution_def by metis
  then have "system_alive s" by (simp add: system_alive_def begin_dtor_def)
  from begin_dtor_closing [OF assms(1) this assms(2)] assms(5) have "closing (f 0)" by simp
  note moves = closing_execution [OF assms(4) this assms(3)]
  have "\<exists>k. fst (work (f k)) = W_exit"
  proof (rule execution_finishes [of "\<lambda>k. work (f k)" work_left])
    show "\<exists>m > k. work (f m) \<noteq> work (f k)" if "fst (work (f k)) \<noteq> W_exit" for k
      using assms(6) that by (simp add: work_def)
  qed (use moves in blast)
  then show ?thesis by (simp add: work_def)
qed

theorem pool_join_returns_witness:
  "\<exists>k. watcher (pool_part (if k = (0 :: nat) then begin_dtor sample_system
      else (begin_dtor sample_system)\<lparr>pool_part := (pool_part (begin_dtor sample_system))\<lparr>watcher := W_exit\<rparr>\<rparr>)) = W_exit"
    (is "\<exists>k. watcher (pool_part (?f k)) = W_exit")
proof -
  have "\<exists>l. system_step sample_resolves sample_connects (\<lambda>_. True) one_per_place l (?f n) (?f (Suc n))" for n
    using sample_exit_steps(1,2) by (cases n) auto
  then have exec: "system_execution sample_resolves sample_connects (\<lambda>_. True) one_per_place ?f"
    using sample_exit_steps(3,4) by (simp add: system_execution_def)
  have fair: "\<forall>k. watcher (pool_part (?f k)) \<noteq> W_exit \<longrightarrow> (\<exists>m > k. work (?f m) \<noteq> work (?f k))"
  proof (intro allI impI)
    fix k
    assume "watcher (pool_part (?f k)) \<noteq> W_exit"
    then have "k = 0" by (auto split: if_splits)
    moreover have "work (?f 1) \<noteq> work (?f 0)" using sample_exit_steps(5) by (simp add: work_def)
    ultimately show "\<exists>m > k. work (?f m) \<noteq> work (?f k)" by blast
  qed
  have "strategy_ok one_per_place" by (rule strategies_ok)
  from pool_join_returns [OF system_nil _ this exec _ fair, of 500000000 1 1000 5 "''localhost''" "''6666''" 100000000 100000000]
  show ?thesis by (simp add: sample_system_def kDurationResolution_def)
qed

end
