(* ===== verification/Uri.thy ===== *)
theory Uri
  imports Prelude "HOL-Library.Sublist"
begin

text \<open>
  The URL argument of the example programs (\<open>example/http/example_connector.cpp\<close> and
  \<open>example/http/example_pool.cpp\<close> have the same \<open>struct ParsedURI\<close>). It is taken apart by a
  \<open>std::regex\<close>, so the theory starts with what the pattern uses of ECMAScript regular expressions:
  classes of characters, \<open>+\<close> on a class, sequences, alternatives, \<open>?\<close> and capture groups, all of them
  greedy, matched by backtracking. A match is one of the alternatives \<open>alts\<close> in the order the
  backtracking tries them; \<open>regex_match\<close> takes the first that consumes the whole input. The flag
  \<open>icase\<close> compares lower-case characters (the classic locale).
\<close>

section \<open>Regular expressions\<close>

definition to_lower :: "char \<Rightarrow> char" where
  "to_lower c = (if 65 \<le> (of_char c :: nat) \<and> (of_char c :: nat) \<le> 90 then char_of ((of_char c :: nat) + 32) else c)"

definition to_lower_copy :: "string \<Rightarrow> string" where
  "to_lower_copy s = map to_lower s"

definition is_digit :: "char \<Rightarrow> bool" where
  "is_digit c \<longleftrightarrow> 48 \<le> (of_char c :: nat) \<and> (of_char c :: nat) \<le> 57"

text \<open>A literal character, \<^verbatim>\<open>\d\<close>, and a negated bracket expression.\<close>

datatype char_class = Lit char | Digit | None_of "char list"

fun in_class :: "char_class \<Rightarrow> char \<Rightarrow> bool" where
  "in_class (Lit x) c = (to_lower c = to_lower x)"
| "in_class Digit c = is_digit c"
| "in_class (None_of xs) c = (to_lower c \<notin> to_lower ` set xs)"

datatype regex =
    One char_class
  | Plus char_class
  | Eps
  | Seq regex regex
  | Alt regex regex
  | Opt regex
  | Group nat regex

type_synonym captures = "nat \<rightharpoonup> string"

text \<open>
  \<open>alts r m s\<close>: the ways \<open>r\<close> can match a beginning of \<open>s\<close>, each with the captures so far and the rest of
  the input, in the order backtracking tries them.
\<close>

fun alts :: "regex \<Rightarrow> captures \<Rightarrow> string \<Rightarrow> (captures \<times> string) list" where
  "alts (One c) m s = (case s of [] \<Rightarrow> [] | x # xs \<Rightarrow> if in_class c x then [(m, xs)] else [])"
| "alts (Plus c) m s =
     map (\<lambda>n. (m, drop n s)) (rev [1..<Suc (length (takeWhile (in_class c) s))])"
| "alts Eps m s = [(m, s)]"
| "alts (Seq r1 r2) m s = concat (map (\<lambda>(m', s'). alts r2 m' s') (alts r1 m s))"
| "alts (Alt r1 r2) m s = alts r1 m s @ alts r2 m s"
| "alts (Opt r) m s = alts r m s @ [(m, s)]"
| "alts (Group i r) m s =
     map (\<lambda>(m', s'). (m'(i \<mapsto> take (length s - length s') s), s')) (alts r m s)"

text \<open>\<open>std::regex_match\<close>: the whole input; sub-match 0 is the input itself.\<close>

definition regex_match :: "regex \<Rightarrow> string \<Rightarrow> captures option" where
  "regex_match r s =
     (case filter (\<lambda>(m, rest). rest = []) (alts r Map.empty s) of
        [] \<Rightarrow> None
      | (m, rest) # _ \<Rightarrow> Some (m(0 \<mapsto> s)))"

text \<open>\<open>match[i]\<close> converted to a string: empty when the group took no part.\<close>

definition sub_match :: "captures \<Rightarrow> nat \<Rightarrow> string" where
  "sub_match m i = (case m i of None \<Rightarrow> '''' | Some s \<Rightarrow> s)"

section \<open>The pattern and the parsed URI\<close>

fun literal :: "string \<Rightarrow> regex" where
  "literal [] = Eps"
| "literal [c] = One (Lit c)"
| "literal (c # cs) = Seq (One (Lit c)) (literal cs)"

text \<open>\<^verbatim>\<open>((http|https)://)?([^/ :]+)(:(\d+))?(/([^ ?]+)?)?/?\??([^/ ]+\=[^/ ]+)?\<close>\<close>

definition url_scheme :: regex where
  "url_scheme = Group 1 (Seq (Group 2 (Alt (literal ''http'') (literal ''https''))) (literal ''://''))"

definition url_domain :: regex where
  "url_domain = Group 3 (Plus (None_of ''/ :''))"

definition url_port :: regex where
  "url_port = Group 4 (Seq (literal '':'') (Group 5 (Plus Digit)))"

definition url_path :: regex where
  "url_path = Group 6 (Seq (literal ''/'') (Opt (Group 7 (Plus (None_of '' ?'')))))"

definition url_query :: regex where
  "url_query = Group 8 (Seq (Plus (None_of ''/ '')) (Seq (literal ''='') (Plus (None_of ''/ ''))))"

definition PARSE_URL :: regex where
  "PARSE_URL =
     Seq (Opt url_scheme) (Seq url_domain (Seq (Opt url_port) (Seq (Opt url_path)
       (Seq (Opt (literal ''/'')) (Seq (Opt (literal ''?'')) (Opt url_query))))))"

record parsed_uri =
  protocol :: string
  domain :: string
  uri_port :: string
  resource :: string
  uri_query :: string

definition value_or :: "string \<Rightarrow> string \<Rightarrow> string" where
  "value_or v deflt = (if v = [] then deflt else v)"

text \<open>
  The constructor: a URL that does not match leaves every member empty. The number of sub-matches is
  one more than the number of groups, always 9.
\<close>

definition ParsedURI :: "string \<Rightarrow> parsed_uri" where
  "ParsedURI url =
     (case regex_match PARSE_URL url of
        None \<Rightarrow> \<lparr>protocol = '''', domain = '''', uri_port = '''', resource = '''', uri_query = ''''\<rparr>
      | Some match \<Rightarrow>
          (let proto = value_or (to_lower_copy (sub_match match 2)) ''http'' in
           \<lparr>protocol = proto, domain = sub_match match 3,
            uri_port = value_or (sub_match match 5) (if proto = ''https'' then ''443'' else ''80''),
            resource = value_or (sub_match match 6) ''/'', uri_query = sub_match match 8\<rparr>))"

section \<open>Backtracking with continuations\<close>

text \<open>The first success, and a matcher that hands each alternative to a continuation.\<close>

fun pick :: "('a \<Rightarrow> 'b option) \<Rightarrow> 'a list \<Rightarrow> 'b option" where
  "pick f [] = None"
| "pick f (x # xs) = (case f x of None \<Rightarrow> pick f xs | Some y \<Rightarrow> Some y)"

definition run :: "regex \<Rightarrow> (captures \<Rightarrow> string \<Rightarrow> 'b option) \<Rightarrow> captures \<Rightarrow> string \<Rightarrow> 'b option" where
  "run r k m s = pick (\<lambda>(m', s'). k m' s') (alts r m s)"

definition at_end :: "captures \<Rightarrow> string \<Rightarrow> captures option" where
  "at_end m s = (if s = [] then Some m else None)"

lemma pick_append [simp]: "pick f (xs @ ys) = (case pick f xs of None \<Rightarrow> pick f ys | Some y \<Rightarrow> Some y)"
  by (induction xs) (auto split: option.splits)

lemma pick_map [simp]: "pick f (map g xs) = pick (\<lambda>x. f (g x)) xs"
  by (induction xs) (auto split: option.splits)

lemma pick_concat: "pick f (concat (map g xs)) = pick (\<lambda>x. pick f (g x)) xs"
  by (induction xs) (auto split: option.splits)

lemma pick_unique:
  assumes "\<And>x. x \<in> set xs \<Longrightarrow> f x = None \<or> f x = Some y" and "x \<in> set xs" and "f x = Some y"
  shows "pick f xs = Some y"
  using assms by (induction xs) (fastforce split: option.splits)+

lemma pick_None_iff: "pick f xs = None \<longleftrightarrow> (\<forall>x \<in> set xs. f x = None)"
  by (induction xs) (auto split: option.splits)

lemma pick_filter:
  "pick (\<lambda>x. if P x then Some (f x) else None) xs = (case filter P xs of [] \<Rightarrow> None | x # _ \<Rightarrow> Some (f x))"
  by (induction xs) auto

named_theorems run_simps

lemma run_Eps [run_simps]: "run Eps k m s = k m s"
  by (simp add: run_def split: option.splits)

lemma run_One [run_simps]:
  "run (One c) k m [] = None"
  "run (One c) k m (x # xs) = (if in_class c x then k m xs else None)"
  by (simp_all add: run_def split: option.splits)

lemma run_Seq [run_simps]: "run (Seq r1 r2) k = run r1 (run r2 k)"
  by (intro ext) (simp add: run_def pick_concat case_prod_unfold)

lemma run_Alt [run_simps]:
  "run (Alt r1 r2) k m s = (case run r1 k m s of None \<Rightarrow> run r2 k m s | Some y \<Rightarrow> Some y)"
  by (auto simp: run_def split: option.split)

lemma run_Opt [run_simps]: "run (Opt r) k m s = (case run r k m s of None \<Rightarrow> k m s | Some y \<Rightarrow> Some y)"
  by (auto simp: run_def split: option.split)

lemma run_Group [run_simps]:
  "run (Group i r) k m s = run r (\<lambda>m' s'. k (m'(i \<mapsto> take (length s - length s') s)) s') m s"
  by (simp add: run_def case_prod_unfold)

lemma run_Plus: "run (Plus c) k m s = pick (\<lambda>n. k m (drop n s)) (rev [1..<Suc (length (takeWhile (in_class c) s))])"
  by (simp add: run_def)

lemma run_Plus_none [run_simps]:
  "run (Plus c) k m [] = None" "\<not> in_class c x \<Longrightarrow> run (Plus c) k m (x # xs) = None"
  by (simp_all add: run_Plus del: upt_Suc)

text \<open>A maximal run of characters of the class is tried first.\<close>

lemma run_Plus_first:
  assumes "w \<noteq> []" and "\<forall>x \<in> set w. in_class c x" and "rest = [] \<or> \<not> in_class c (hd rest)"
    and "k m rest = Some y"
  shows "run (Plus c) k m (w @ rest) = Some y"
proof -
  have "takeWhile (in_class c) (w @ rest) = w"
    using assms(2,3) by (cases rest) (auto simp: takeWhile_append2)
  moreover have "[1..<Suc (length w)] = [1..<length w] @ [length w]"
    using assms(1) by (cases w) simp_all
  ultimately show ?thesis using assms(4) by (simp add: run_Plus)
qed

lemma regex_match_run: "regex_match r s = map_option (\<lambda>m. m(0 \<mapsto> s)) (run r at_end Map.empty s)"
proof -
  have "run r at_end Map.empty s =
      pick (\<lambda>x. if (case x of (m, rest) \<Rightarrow> rest = []) then Some (fst x) else None) (alts r Map.empty s)"
    by (simp add: run_def at_end_def case_prod_unfold)
  then show ?thesis
    unfolding pick_filter by (auto simp: regex_match_def split: list.splits)
qed

section \<open>What a match is\<close>

text \<open>
  The declarative side: \<open>matched r m w m'\<close> when the whole of \<open>w\<close> is in the language of \<open>r\<close> by a choice
  that turns the captures \<open>m\<close> into \<open>m'\<close>.
\<close>

inductive matched :: "regex \<Rightarrow> captures \<Rightarrow> string \<Rightarrow> captures \<Rightarrow> bool" where
  m_one: "in_class c x \<Longrightarrow> matched (One c) m [x] m"
| m_plus: "w \<noteq> [] \<Longrightarrow> \<forall>x \<in> set w. in_class c x \<Longrightarrow> matched (Plus c) m w m"
| m_eps: "matched Eps m [] m"
| m_seq: "matched r1 m u m' \<Longrightarrow> matched r2 m' v m'' \<Longrightarrow> matched (Seq r1 r2) m (u @ v) m''"
| m_left: "matched r1 m w m' \<Longrightarrow> matched (Alt r1 r2) m w m'"
| m_right: "matched r2 m w m' \<Longrightarrow> matched (Alt r1 r2) m w m'"
| m_none: "matched (Opt r) m [] m"
| m_some: "matched r m w m' \<Longrightarrow> matched (Opt r) m w m'"
| m_group: "matched r m w m' \<Longrightarrow> matched (Group i r) m w (m'(i \<mapsto> w))"

inductive_simps matched_simps:
  "matched (One c) m w m'"
  "matched (Plus c) m w m'"
  "matched Eps m w m'"
  "matched (Seq r1 r2) m w m'"
  "matched (Alt r1 r2) m w m'"
  "matched (Opt r) m w m'"
  "matched (Group i r) m w m'"

lemma run_of_class:
  "rest \<in> (\<lambda>n. drop n s) ` set [1..<Suc (length (takeWhile P s))] \<longleftrightarrow>
    (\<exists>w. s = w @ rest \<and> w \<noteq> [] \<and> (\<forall>x \<in> set w. P x))"
proof
  assume "rest \<in> (\<lambda>n. drop n s) ` set [1..<Suc (length (takeWhile P s))]"
  then obtain n where n: "1 \<le> n" "n \<le> length (takeWhile P s)" "rest = drop n s" by auto
  have "take n s = take n (takeWhile P s)"
    using n(2) by (metis take_append takeWhile_dropWhile_id diff_is_0_eq' take_0 append_Nil2)
  then have "\<forall>x \<in> set (take n s). P x" by (metis in_set_takeD set_takeWhileD)
  moreover have "take n s \<noteq> []" using n by (cases s) auto
  ultimately show "\<exists>w. s = w @ rest \<and> w \<noteq> [] \<and> (\<forall>x \<in> set w. P x)"
    using n(3) by (metis append_take_drop_id)
next
  assume "\<exists>w. s = w @ rest \<and> w \<noteq> [] \<and> (\<forall>x \<in> set w. P x)"
  then obtain w where w: "s = w @ rest" "w \<noteq> []" "\<forall>x \<in> set w. P x" by blast
  then have "length w \<le> length (takeWhile P s)" by (simp add: takeWhile_append2)
  with w show "rest \<in> (\<lambda>n. drop n s) ` set [1..<Suc (length (takeWhile P s))]"
    by (intro image_eqI [where x = "length w"]) (auto simp: Suc_le_eq)
qed

lemma alts_iff: "(m', rest) \<in> set (alts r m s) \<longleftrightarrow> (\<exists>w. s = w @ rest \<and> matched r m w m')"
proof (induction r arbitrary: m m' s rest)
  case (One c)
  then show ?case by (auto simp: matched_simps split: list.splits)
next
  case (Plus c)
  then show ?case
    using run_of_class [of rest s "in_class c"] by (auto simp: matched_simps simp del: upt_Suc)
next
  case Eps
  then show ?case by (auto simp: matched_simps)
next
  case (Seq r1 r2)
  have "(m', rest) \<in> set (alts (Seq r1 r2) m s) \<longleftrightarrow>
      (\<exists>m1 s1. (m1, s1) \<in> set (alts r1 m s) \<and> (m', rest) \<in> set (alts r2 m1 s1))" by force
  also have "\<dots> \<longleftrightarrow> (\<exists>u v m1. s = u @ v @ rest \<and> matched r1 m u m1 \<and> matched r2 m1 v m')"
    unfolding Seq.IH by blast
  finally show ?case by (auto simp: matched_simps) (metis append.assoc)+
next
  case (Alt r1 r2)
  then show ?case by (auto simp: matched_simps)
next
  case (Opt r)
  then show ?case by (auto simp: matched_simps)
next
  case (Group i r)
  have "(m', rest) \<in> set (alts (Group i r) m s) \<longleftrightarrow>
      (\<exists>m1. (m1, rest) \<in> set (alts r m s) \<and> m' = m1(i \<mapsto> take (length s - length rest) s))" by force
  also have "\<dots> \<longleftrightarrow> (\<exists>w m1. s = w @ rest \<and> matched r m w m1 \<and> m' = m1(i \<mapsto> w))"
    unfolding Group.IH by auto
  finally show ?case by (auto simp: matched_simps)
qed

lemma run_at_end:
  "run r at_end m s = None \<Longrightarrow> \<not> matched r m s m'"
  "run r at_end m s = Some m' \<Longrightarrow> matched r m s m'"
proof -
  assume "run r at_end m s = None"
  then have "(m', []) \<notin> set (alts r m s)" by (auto simp: run_def pick_None_iff at_end_def)
  then show "\<not> matched r m s m'" by (simp add: alts_iff)
next
  have pick_in: "pick f xs = Some y \<Longrightarrow> \<exists>x \<in> set xs. f x = Some y" for f :: "captures \<times> string \<Rightarrow> captures option" and xs y
    by (induction xs) (auto split: option.splits)
  assume "run r at_end m s = Some m'"
  then have "(m', []) \<in> set (alts r m s)"
    unfolding run_def by (auto dest!: pick_in simp: at_end_def split: if_splits)
  then show "matched r m s m'" by (simp add: alts_iff)
qed

text \<open>
  The backtracking matcher is sound and complete: it fails exactly when the input is not in the
  language of the expression, and the captures it returns are those of a match of the whole input.
\<close>

theorem regex_match_correct:
  "case regex_match r s of
     None \<Rightarrow> \<forall>m. \<not> matched r Map.empty s m
   | Some m' \<Rightarrow> \<exists>m. matched r Map.empty s m \<and> m' = m(0 \<mapsto> s)"
proof (cases "run r at_end Map.empty s")
  case None
  then show ?thesis using run_at_end(1) [OF None] by (simp add: regex_match_run)
next
  case (Some m)
  then show ?thesis using run_at_end(2) [OF Some] by (auto simp: regex_match_run)
qed

lemma matched_Seq_One: "matched (Seq (One c) r) m w m' \<longleftrightarrow> (\<exists>x v. w = x # v \<and> in_class c x \<and> matched r m v m')"
proof
  assume "\<exists>x v. w = x # v \<and> in_class c x \<and> matched r m v m'"
  then show "matched (Seq (One c) r) m w m'" using m_seq [OF m_one] by fastforce
qed (auto simp: matched_simps)

lemma matched_literal: "matched (literal t) m w m' \<longleftrightarrow> m' = m \<and> to_lower_copy w = to_lower_copy t"
proof (induction t arbitrary: w rule: literal.induct)
  case (3 c c' cs)
  have "matched (literal (c # c' # cs)) m w m' \<longleftrightarrow>
      (\<exists>x v. w = x # v \<and> to_lower x = to_lower c \<and> matched (literal (c' # cs)) m v m')"
    by (simp add: matched_Seq_One)
  also have "\<dots> \<longleftrightarrow> m' = m \<and> to_lower_copy w = to_lower_copy (c # c' # cs)"
    unfolding 3 by (cases w) (auto simp: to_lower_copy_def)
  finally show ?case .
qed (auto simp: matched_simps to_lower_copy_def)

declare literal.simps [simp del]

text \<open>A character that is not a letter matches only itself.\<close>

lemma to_lower_fixed:
  assumes "(of_char c :: nat) < 65"
  shows "to_lower x = c \<longleftrightarrow> x = c" "to_lower c = c"
proof -
  have "(of_char (char_of (n + 32) :: char) :: nat) = n + 32" if "n \<le> 90" for n :: nat
    using that by simp
  then show "to_lower x = c \<longleftrightarrow> x = c"
    using assms by (auto simp: to_lower_def)
  show "to_lower c = c" using assms by (simp add: to_lower_def)
qed

lemma lower_marks [simp]:
  "to_lower (CHR ''/'') = CHR ''/''" "to_lower (CHR '' '') = CHR '' ''" "to_lower (CHR '':'') = CHR '':''"
  "to_lower (CHR ''?'') = CHR ''?''" "to_lower (CHR ''='') = CHR ''=''"
  "to_lower x = CHR ''/'' \<longleftrightarrow> x = CHR ''/''" "to_lower x = CHR '' '' \<longleftrightarrow> x = CHR '' ''"
  "to_lower x = CHR '':'' \<longleftrightarrow> x = CHR '':''" "to_lower x = CHR ''?'' \<longleftrightarrow> x = CHR ''?''"
  "to_lower x = CHR ''='' \<longleftrightarrow> x = CHR ''=''"
  by (simp_all add: to_lower_fixed)

lemma lower_copy_marks [simp]:
  "to_lower_copy w = to_lower_copy ''/'' \<longleftrightarrow> w = ''/''" "to_lower_copy w = to_lower_copy '':'' \<longleftrightarrow> w = '':''"
  "to_lower_copy w = to_lower_copy ''?'' \<longleftrightarrow> w = ''?''" "to_lower_copy w = to_lower_copy ''='' \<longleftrightarrow> w = ''=''"
  "to_lower_copy w = to_lower_copy ''://'' \<longleftrightarrow> w = ''://''"
  by (auto simp: to_lower_copy_def map_eq_Cons_conv)

lemma lower_letters [simp]:
  "to_lower (CHR ''h'') = CHR ''h''" "to_lower (CHR ''t'') = CHR ''t''" "to_lower (CHR ''p'') = CHR ''p''"
  "to_lower (CHR ''s'') = CHR ''s''"
  by (simp_all add: to_lower_def)

lemma lower_copy_schemes [simp]:
  "to_lower_copy [] = []" "to_lower_copy ''http'' = ''http''" "to_lower_copy ''https'' = ''https''"
  by (simp_all add: to_lower_copy_def to_lower_def)

section \<open>The parts of a URL\<close>

lemma matched_scheme:
  "matched url_scheme m w m' \<longleftrightarrow>
    (\<exists>p. to_lower_copy p \<in> {''http'', ''https''} \<and> w = p @ ''://'' \<and> m' = m(2 \<mapsto> p, 1 \<mapsto> w))"
  by (auto simp: url_scheme_def matched_simps matched_literal)

lemma matched_domain:
  "matched url_domain m w m' \<longleftrightarrow> w \<noteq> [] \<and> set w \<inter> set ''/ :'' = {} \<and> m' = m(3 \<mapsto> w)"
  by (auto simp: url_domain_def matched_simps)

lemma matched_port:
  "matched url_port m w m' \<longleftrightarrow>
    (\<exists>p. p \<noteq> [] \<and> list_all is_digit p \<and> w = '':'' @ p \<and> m' = m(5 \<mapsto> p, 4 \<mapsto> w))"
  by (auto simp: url_port_def matched_simps matched_literal list_all_iff)

lemma matched_path:
  "matched url_path m w m' \<longleftrightarrow>
    (\<exists>p m1. w = ''/'' @ p \<and> (p = '''' \<and> m1 = m \<or> p \<noteq> '''' \<and> set p \<inter> set '' ?'' = {} \<and> m1 = m(7 \<mapsto> p)) \<and>
      m' = m1(6 \<mapsto> w))"
  by (auto simp: url_path_def matched_simps matched_literal)

lemma matched_query:
  assumes "matched url_query m w m'"
  shows "w \<noteq> '''' \<and> set w \<inter> set ''/ '' = {} \<and> m' = m(8 \<mapsto> w)"
proof -
  obtain u v where "w = u @ ''='' @ v" "u \<noteq> ''''" "\<forall>x \<in> set u. in_class (None_of ''/ '') x"
    "\<forall>x \<in> set v. in_class (None_of ''/ '') x" "m' = m(8 \<mapsto> w)"
    using assms unfolding url_query_def matched_simps matched_literal lower_copy_marks by blast
  then show ?thesis by auto
qed

inductive_cases matched_SeqE: "matched (Seq r1 r2) m w m'"

lemma matched_PARSE_URL:
  assumes "matched PARSE_URL Map.empty url m"
  obtains w1 w2 w3 w4 w5 w6 w7 m1 m3 m4 where
    "url = w1 @ w2 @ w3 @ w4 @ w5 @ w6 @ w7" "matched (Opt url_scheme) Map.empty w1 m1"
    "w2 \<noteq> []" "set w2 \<inter> set ''/ :'' = {}" "matched (Opt url_port) (m1(3 \<mapsto> w2)) w3 m3"
    "matched (Opt url_path) m3 w4 m4" "w5 \<in> {'''', ''/''}" "w6 \<in> {'''', ''?''}" "matched (Opt url_query) m4 w7 m"
proof -
  have opt: "matched (Opt (literal t)) m w m' \<Longrightarrow> t \<in> {''/'', ''?''} \<Longrightarrow> m' = m \<and> w \<in> {'''', t}" for t m w m'
    by (auto simp: matched_simps matched_literal)
  obtain w1 v1 m1 where 1: "url = w1 @ v1" "matched (Opt url_scheme) Map.empty w1 m1"
    "matched (Seq url_domain (Seq (Opt url_port) (Seq (Opt url_path)
       (Seq (Opt (literal ''/'')) (Seq (Opt (literal ''?'')) (Opt url_query)))))) m1 v1 m"
    using assms unfolding PARSE_URL_def by (rule matched_SeqE)
  from 1(3) obtain w2 v2 m2 where 2: "v1 = w2 @ v2" "matched url_domain m1 w2 m2"
    "matched (Seq (Opt url_port) (Seq (Opt url_path)
       (Seq (Opt (literal ''/'')) (Seq (Opt (literal ''?'')) (Opt url_query))))) m2 v2 m"
    by (rule matched_SeqE)
  from 2(3) obtain w3 v3 m3 where 3: "v2 = w3 @ v3" "matched (Opt url_port) m2 w3 m3"
    "matched (Seq (Opt url_path) (Seq (Opt (literal ''/'')) (Seq (Opt (literal ''?'')) (Opt url_query)))) m3 v3 m"
    by (rule matched_SeqE)
  from 3(3) obtain w4 v4 m4 where 4: "v3 = w4 @ v4" "matched (Opt url_path) m3 w4 m4"
    "matched (Seq (Opt (literal ''/'')) (Seq (Opt (literal ''?'')) (Opt url_query))) m4 v4 m"
    by (rule matched_SeqE)
  from 4(3) obtain w5 v5 m5 where 5: "v4 = w5 @ v5" "matched (Opt (literal ''/'')) m4 w5 m5"
    "matched (Seq (Opt (literal ''?'')) (Opt url_query)) m5 v5 m"
    by (rule matched_SeqE)
  from 5(3) obtain w6 w7 m6 where 6: "v5 = w6 @ w7" "matched (Opt (literal ''?'')) m5 w6 m6" "matched (Opt url_query) m6 w7 m"
    by (rule matched_SeqE)
  have "m5 = m4" "w5 \<in> {'''', ''/''}" "m6 = m5" "w6 \<in> {'''', ''?''}"
    using opt [OF 5(2)] opt [OF 6(2)] by simp_all
  with 1 2 3 4 5 6 show ?thesis
    by (intro that [of w1 w2 w3 w4 w5 w6 w7 m1 m3 m4]) (simp_all add: matched_domain)
qed

text \<open>How the constructor reads the captures of a URL that matches.\<close>

definition uri_of :: "captures \<Rightarrow> parsed_uri" where
  "uri_of match =
     (let proto = value_or (to_lower_copy (sub_match match 2)) ''http'' in
      \<lparr>protocol = proto, domain = sub_match match 3,
       uri_port = value_or (sub_match match 5) (if proto = ''https'' then ''443'' else ''80''),
       resource = value_or (sub_match match 6) ''/'', uri_query = sub_match match 8\<rparr>)"

lemma uri_of_zero [simp]: "uri_of (m(0 \<mapsto> s)) = uri_of m"
  by (simp add: uri_of_def sub_match_def)

lemma ParsedURI_run:
  "ParsedURI url =
     (case run PARSE_URL at_end Map.empty url of
        None \<Rightarrow> \<lparr>protocol = '''', domain = '''', uri_port = '''', resource = '''', uri_query = ''''\<rparr>
      | Some m \<Rightarrow> uri_of m)"
  unfolding ParsedURI_def regex_match_run uri_of_def [symmetric]
  by (simp split: option.split)

text \<open>The four captures that matter, each as its part of the pattern left it.\<close>

lemma uri_of_captures:
  assumes "w1 = '''' \<and> m1 = Map.empty \<or>
      (\<exists>p. to_lower_copy p \<in> {''http'', ''https''} \<and> w1 = p @ ''://'' \<and> m1 = [2 \<mapsto> p, 1 \<mapsto> w1])"
    and "w3 = '''' \<and> m3 = m1(3 \<mapsto> w2) \<or>
      (\<exists>p. p \<noteq> [] \<and> list_all is_digit p \<and> w3 = '':'' @ p \<and> m3 = m1(3 \<mapsto> w2, 5 \<mapsto> p, 4 \<mapsto> w3))"
    and "w4 = '''' \<and> m4 = m3 \<or> (\<exists>p m'. w4 = ''/'' @ p \<and> m' \<in> {m3, m3(7 \<mapsto> p)} \<and> m4 = m'(6 \<mapsto> w4))"
    and "w7 = '''' \<and> m = m4 \<or> w7 \<noteq> '''' \<and> m = m4(8 \<mapsto> w7)"
  shows "domain (uri_of m) = w2" "uri_query (uri_of m) = w7"
    "w1 = '''' \<and> protocol (uri_of m) = ''http'' \<or>
      to_lower_copy w1 = protocol (uri_of m) @ ''://'' \<and> protocol (uri_of m) \<in> {''http'', ''https''}"
    "w3 = '''' \<and> uri_port (uri_of m) = (if protocol (uri_of m) = ''https'' then ''443'' else ''80'') \<or>
      w3 = '':'' @ uri_port (uri_of m) \<and> list_all is_digit (uri_port (uri_of m))"
    "w4 = '''' \<and> resource (uri_of m) = ''/'' \<or> w4 = resource (uri_of m) \<and> prefix ''/'' w4"
proof -
  have "sub_match m 2 = sub_match m1 2" "sub_match m 3 = w2" "sub_match m 8 = w7"
    "sub_match m 5 = sub_match m3 5" "sub_match m 6 = w4"
    using assms by (auto simp: sub_match_def)
  then have u: "uri_of m = \<lparr>protocol = value_or (to_lower_copy (sub_match m1 2)) ''http'', domain = w2,
      uri_port = value_or (sub_match m3 5)
        (if value_or (to_lower_copy (sub_match m1 2)) ''http'' = ''https'' then ''443'' else ''80''),
      resource = value_or w4 ''/'', uri_query = w7\<rparr>"
    by (simp add: uri_of_def Let_def)
  show "domain (uri_of m) = w2" "uri_query (uri_of m) = w7" by (simp_all add: u)
  have low: "to_lower_copy (p @ ''://'') = to_lower_copy p @ ''://''" for p by (simp add: to_lower_copy_def)
  show "w1 = '''' \<and> protocol (uri_of m) = ''http'' \<or>
      to_lower_copy w1 = protocol (uri_of m) @ ''://'' \<and> protocol (uri_of m) \<in> {''http'', ''https''}"
    using assms(1) by (auto simp: u sub_match_def value_or_def low)
  show "w3 = '''' \<and> uri_port (uri_of m) = (if protocol (uri_of m) = ''https'' then ''443'' else ''80'') \<or>
      w3 = '':'' @ uri_port (uri_of m) \<and> list_all is_digit (uri_port (uri_of m))"
    using assms(1,2) by (auto simp: u sub_match_def value_or_def)
  show "w4 = '''' \<and> resource (uri_of m) = ''/'' \<or> w4 = resource (uri_of m) \<and> prefix ''/'' w4"
    using assms(3) by (auto simp: u value_or_def)
qed

lemma ParsedURI_parts:
  assumes "protocol (ParsedURI url) \<noteq> ''''"
  shows "\<exists>scheme prt path slash mark.
    url = scheme @ domain (ParsedURI url) @ prt @ path @ slash @ mark @ uri_query (ParsedURI url) \<and>
    (scheme = '''' \<and> protocol (ParsedURI url) = ''http'' \<or>
     to_lower_copy scheme = protocol (ParsedURI url) @ ''://'' \<and> protocol (ParsedURI url) \<in> {''http'', ''https''}) \<and>
    domain (ParsedURI url) \<noteq> [] \<and> set (domain (ParsedURI url)) \<inter> set ''/ :'' = {} \<and>
    (prt = '''' \<and> uri_port (ParsedURI url) = (if protocol (ParsedURI url) = ''https'' then ''443'' else ''80'') \<or>
     prt = '':'' @ uri_port (ParsedURI url) \<and> list_all is_digit (uri_port (ParsedURI url))) \<and>
    (path = '''' \<and> resource (ParsedURI url) = ''/'' \<or> path = resource (ParsedURI url) \<and> prefix ''/'' path) \<and>
    slash \<in> {'''', ''/''} \<and> mark \<in> {'''', ''?''}"
proof -
  obtain m where run: "run PARSE_URL at_end Map.empty url = Some m"
    using assms by (auto simp: ParsedURI_run split: option.splits)
  then have u: "ParsedURI url = uri_of m" by (simp add: ParsedURI_run)
  from run_at_end(2) [OF run] obtain w1 w2 w3 w4 w5 w6 w7 m1 m3 m4 where parts:
    "url = w1 @ w2 @ w3 @ w4 @ w5 @ w6 @ w7" "matched (Opt url_scheme) Map.empty w1 m1"
    "w2 \<noteq> []" "set w2 \<inter> set ''/ :'' = {}" "matched (Opt url_port) (m1(3 \<mapsto> w2)) w3 m3"
    "matched (Opt url_path) m3 w4 m4" "w5 \<in> {'''', ''/''}" "w6 \<in> {'''', ''?''}" "matched (Opt url_query) m4 w7 m"
    by (rule matched_PARSE_URL)
  have scheme: "w1 = '''' \<and> m1 = Map.empty \<or>
      (\<exists>p. to_lower_copy p \<in> {''http'', ''https''} \<and> w1 = p @ ''://'' \<and> m1 = [2 \<mapsto> p, 1 \<mapsto> w1])"
    using parts(2) unfolding matched_simps(6) matched_scheme by blast
  have prt: "w3 = '''' \<and> m3 = m1(3 \<mapsto> w2) \<or>
      (\<exists>p. p \<noteq> [] \<and> list_all is_digit p \<and> w3 = '':'' @ p \<and> m3 = m1(3 \<mapsto> w2, 5 \<mapsto> p, 4 \<mapsto> w3))"
    using parts(5) unfolding matched_simps(6) matched_port by blast
  have path: "w4 = '''' \<and> m4 = m3 \<or> (\<exists>p m'. w4 = ''/'' @ p \<and> m' \<in> {m3, m3(7 \<mapsto> p)} \<and> m4 = m'(6 \<mapsto> w4))"
    using parts(6) unfolding matched_simps(6) matched_path by blast
  have qry: "w7 = '''' \<and> m = m4 \<or> w7 \<noteq> '''' \<and> m = m4(8 \<mapsto> w7)"
    using parts(9) matched_query unfolding matched_simps(6) by blast
  from parts(1,3,4,7,8) uri_of_captures [OF scheme prt path qry] show ?thesis
    unfolding u by (intro exI [of _ w1] exI [of _ w3] exI [of _ w4] exI [of _ w5] exI [of _ w6]) simp
qed

text \<open>
  C40. A URL that is accepted falls into its parts: the optional scheme, the domain, the optional port,
  the path and the query, with at most one slash and one question mark between them; nothing of the
  input is lost. The defaults fill in what is missing.
\<close>

theorem parsed_uri_parts:
  assumes "protocol (ParsedURI url) \<noteq> ''''"
  shows "\<exists>scheme prt path slash mark.
    url = scheme @ domain (ParsedURI url) @ prt @ path @ slash @ mark @ uri_query (ParsedURI url) \<and>
    (scheme = '''' \<and> protocol (ParsedURI url) = ''http'' \<or>
     to_lower_copy scheme = protocol (ParsedURI url) @ ''://'' \<and> protocol (ParsedURI url) \<in> {''http'', ''https''}) \<and>
    domain (ParsedURI url) \<noteq> [] \<and> set (domain (ParsedURI url)) \<inter> set ''/ :'' = {} \<and>
    (prt = '''' \<and> uri_port (ParsedURI url) = (if protocol (ParsedURI url) = ''https'' then ''443'' else ''80'') \<or>
     prt = '':'' @ uri_port (ParsedURI url) \<and> list_all is_digit (uri_port (ParsedURI url))) \<and>
    (path = '''' \<and> resource (ParsedURI url) = ''/'' \<or> path = resource (ParsedURI url) \<and> prefix ''/'' path) \<and>
    slash \<in> {'''', ''/''} \<and> mark \<in> {'''', ''?''}"
  using assms by (rule ParsedURI_parts)

section \<open>Printing and parsing\<close>

text \<open>The parts a URL is written from.\<close>

record uri_parts =
  u_scheme :: "string option"
  u_domain :: string
  u_port :: "string option"
  u_path :: "string option"
  u_query :: "(string \<times> string) option"

definition print_query :: "(string \<times> string) option \<Rightarrow> string" where
  "print_query q = (case q of None \<Rightarrow> '''' | Some (k, v) \<Rightarrow> ''?'' @ k @ ''='' @ v)"

definition print_path :: "string option \<Rightarrow> string" where
  "print_path p = (case p of None \<Rightarrow> '''' | Some w \<Rightarrow> ''/'' @ w)"

definition print_port :: "string option \<Rightarrow> string" where
  "print_port p = (case p of None \<Rightarrow> '''' | Some w \<Rightarrow> '':'' @ w)"

definition print_scheme :: "string option \<Rightarrow> string" where
  "print_scheme p = (case p of None \<Rightarrow> '''' | Some w \<Rightarrow> w @ ''://'')"

definition print_uri :: "uri_parts \<Rightarrow> string" where
  "print_uri u =
     print_scheme (u_scheme u) @ u_domain u @ print_port (u_port u) @ print_path (u_path u) @ print_query (u_query u)"

definition free_of :: "string \<Rightarrow> string \<Rightarrow> bool" where
  "free_of w bad \<longleftrightarrow> list_all (\<lambda>c. c \<notin> set bad) w"

definition wf_query :: "(string \<times> string) option \<Rightarrow> bool" where
  "wf_query q \<longleftrightarrow> (case q of None \<Rightarrow> True | Some (k, v) \<Rightarrow> k \<noteq> '''' \<and> v \<noteq> '''' \<and> free_of k ''/ '' \<and> free_of v ''/ '')"

text \<open>
  A query needs a port or a path before it: after a bare domain it would be read as a part of the
  domain.
\<close>

definition wf_uri :: "uri_parts \<Rightarrow> bool" where
  "wf_uri u \<longleftrightarrow>
     (case u_scheme u of None \<Rightarrow> True | Some p \<Rightarrow> to_lower_copy p \<in> {''http'', ''https''}) \<and>
     u_domain u \<noteq> '''' \<and> free_of (u_domain u) ''/ :'' \<and>
     (case u_port u of None \<Rightarrow> True | Some p \<Rightarrow> p \<noteq> '''' \<and> list_all is_digit p) \<and>
     (case u_path u of None \<Rightarrow> True | Some p \<Rightarrow> free_of p '' ?'') \<and> wf_query (u_query u) \<and>
     (u_query u \<noteq> None \<longrightarrow> u_port u \<noteq> None \<or> u_path u \<noteq> None)"

text \<open>What the parser should make of the parts.\<close>

definition uri_of_parts :: "uri_parts \<Rightarrow> parsed_uri" where
  "uri_of_parts u =
     (let proto = (case u_scheme u of None \<Rightarrow> ''http'' | Some p \<Rightarrow> to_lower_copy p) in
      \<lparr>protocol = proto, domain = u_domain u,
       uri_port = (case u_port u of None \<Rightarrow> if proto = ''https'' then ''443'' else ''80'' | Some p \<Rightarrow> p),
       resource = (case u_path u of None \<Rightarrow> ''/'' | Some p \<Rightarrow> ''/'' @ p),
       uri_query = (case u_query u of None \<Rightarrow> '''' | Some (k, v) \<Rightarrow> k @ ''='' @ v)\<rparr>)"

text \<open>Each part of the pattern on its part of the text, from the end to the beginning.\<close>

lemma run_literal:
  "run (literal '':'') k m s = (case s of [] \<Rightarrow> None | x # xs \<Rightarrow> if x = CHR '':'' then k m xs else None)"
  "run (literal ''/'') k m s = (case s of [] \<Rightarrow> None | x # xs \<Rightarrow> if x = CHR ''/'' then k m xs else None)"
  "run (literal ''?'') k m s = (case s of [] \<Rightarrow> None | x # xs \<Rightarrow> if x = CHR ''?'' then k m xs else None)"
  "run (literal ''='') k m s = (case s of [] \<Rightarrow> None | x # xs \<Rightarrow> if x = CHR ''='' then k m xs else None)"
  by (cases s; simp add: literal.simps run_simps)+

lemma run_query:
  assumes "q = k @ ''='' @ v" and "wf_query (Some (k, v))"
  shows "run (Opt url_query) at_end m q = Some (m(8 \<mapsto> q))"
proof -
  let ?c = "None_of ''/ ''"
  let ?k = "\<lambda>m' s'. at_end (m'(8 \<mapsto> take (length q - length s') q)) s'"
  let ?f = "\<lambda>n. run (literal ''='') (run (Plus ?c) ?k) m (drop n q)"
  have cls: "\<forall>x \<in> set q. in_class ?c x" and ne: "k \<noteq> ''''" "v \<noteq> ''''"
    using assms by (auto simp: wf_query_def free_of_def list_all_iff)
  have rest: "run (Plus ?c) ?k m w = Some (m(8 \<mapsto> q))" if "w \<noteq> ''''" "set w \<subseteq> set q" for w
    using run_Plus_first [of w ?c "[]" ?k m "m(8 \<mapsto> q)"] that cls by (auto simp: at_end_def)
  have f: "?f n = None \<or> ?f n = Some (m(8 \<mapsto> q))" for n
  proof (cases "drop n q")
    case (Cons x xs)
    moreover have "set xs \<subseteq> set q" using Cons by (metis set_drop_subset set_subset_Cons subset_trans)
    ultimately show ?thesis using rest [of xs] by (cases xs) (auto simp: run_literal run_simps)
  qed (simp add: run_literal)
  have g: "?f (length k) = Some (m(8 \<mapsto> q))"
  proof -
    have "drop (length k) q = CHR ''='' # v" and "set v \<subseteq> set q" using assms(1) by auto
    then show ?thesis using rest [of v] ne(2) by (simp add: run_literal)
  qed
  have "length k \<in> set (rev [1..<Suc (length q)])" using ne(1) assms(1) by (auto simp: Suc_le_eq)
  with f g have "pick ?f (rev [1..<Suc (length q)]) = Some (m(8 \<mapsto> q))" by (intro pick_unique) blast+
  moreover have "takeWhile (in_class ?c) q = q" using cls by (simp add: takeWhile_eq_all_conv)
  ultimately have "run (Plus ?c) (run (literal ''='') (run (Plus ?c) ?k)) m q = Some (m(8 \<mapsto> q))"
    by (simp only: run_Plus [of ?c "run (literal ''='') (run (Plus ?c) ?k)"])
  then show ?thesis by (simp add: url_query_def run_simps)
qed

lemma run_literal_take:
  "run (literal t) k m s = (if to_lower_copy (take (length t) s) = to_lower_copy t then k m (drop (length t) s) else None)"
proof (induction t arbitrary: s rule: literal.induct)
  case (3 c c' cs)
  then show ?case by (cases s) (simp_all add: literal.simps run_simps to_lower_copy_def)
next
  case (2 c)
  then show ?case by (cases s) (simp_all add: literal.simps run_simps to_lower_copy_def)
qed (simp add: literal.simps run_simps to_lower_copy_def)

text \<open>What the query adds to the captures.\<close>

definition query_capture :: "(string \<times> string) option \<Rightarrow> captures \<Rightarrow> captures" where
  "query_capture q m = (case q of None \<Rightarrow> m | Some (k, v) \<Rightarrow> m(8 \<mapsto> k @ ''='' @ v))"

lemma print_query_cases: "print_query q = [] \<or> (\<exists>w. print_query q = CHR ''?'' # w)"
  by (cases q) (auto simp: print_query_def)

lemma run_tail:
  assumes "wf_query q"
  shows "run (Opt (literal ''/'')) (run (Opt (literal ''?'')) (run (Opt url_query) at_end)) m (print_query q) =
    Some (query_capture q m)"
proof (cases q)
  case None
  then show ?thesis
    by (simp add: print_query_def query_capture_def run_Opt run_literal url_query_def run_simps at_end_def)
next
  case (Some kv)
  obtain k v where kv: "kv = (k, v)" by (cases kv)
  then have "run (Opt url_query) at_end m (k @ ''='' @ v) = Some (m(8 \<mapsto> k @ ''='' @ v))"
    using assms Some by (intro run_query) auto
  then show ?thesis using Some kv by (simp add: print_query_def query_capture_def run_Opt run_literal)
qed

lemma run_path:
  assumes "\<And>m. k m (print_query q) = Some (query_capture q m)" and "case p of None \<Rightarrow> True | Some w \<Rightarrow> free_of w '' ?''"
  shows "\<exists>m1. run (Opt url_path) k m (print_path p @ print_query q) = Some (query_capture q m1) \<and>
    (\<forall>i < 6. m1 i = m i) \<and> m1 6 = (case p of None \<Rightarrow> m 6 | Some w \<Rightarrow> Some (''/'' @ w)) \<and> m1 8 = m 8"
proof (cases p)
  case None
  have "run url_path k m (print_query q) = None"
    using print_query_cases [of q] by (auto simp: url_path_def run_simps run_literal)
  then show ?thesis using None assms(1) by (auto simp: print_path_def run_Opt)
next
  case (Some w)
  let ?k = "\<lambda>m' s'. k (m'(6 \<mapsto> take (Suc (length w + length (print_query q)) - length s') (CHR ''/'' # w @ print_query q))) s'"
  have "\<exists>m1. run (Opt (Group 7 (Plus (None_of '' ?'')))) ?k m (w @ print_query q) =
      Some (query_capture q (m1(6 \<mapsto> ''/'' @ w))) \<and> (\<forall>i. i \<noteq> 7 \<longrightarrow> m1 i = m i)"
  proof (cases "w = ''''")
    case True
    have "run (Group 7 (Plus (None_of '' ?''))) ?k m (print_query q) = None"
      using print_query_cases [of q] True by (auto simp: run_simps)
    then show ?thesis using True assms(1) by (auto simp: run_Opt)
  next
    case False
    have "run (Group 7 (Plus (None_of '' ?''))) ?k m (w @ print_query q) =
        Some (query_capture q (m(7 \<mapsto> w, 6 \<mapsto> ''/'' @ w)))"
      unfolding run_Group
    proof (rule run_Plus_first [OF False])
      show "\<forall>x \<in> set w. in_class (None_of '' ?'') x"
        using assms(2) Some by (auto simp: free_of_def list_all_iff)
      show "print_query q = [] \<or> \<not> in_class (None_of '' ?'') (hd (print_query q))"
        using print_query_cases [of q] by auto
      show "?k (m(7 \<mapsto> take (length (w @ print_query q) - length (print_query q)) (w @ print_query q))) (print_query q) =
          Some (query_capture q (m(7 \<mapsto> w, 6 \<mapsto> ''/'' @ w)))"
        by (simp add: assms(1))
    qed
    then show ?thesis by (auto simp: run_Opt intro!: exI [of _ "m(7 \<mapsto> w)"])
  qed
  then obtain m1 where "run (Opt (Group 7 (Plus (None_of '' ?'')))) ?k m (w @ print_query q) =
      Some (query_capture q (m1(6 \<mapsto> ''/'' @ w)))" "\<forall>i. i \<noteq> 7 \<longrightarrow> m1 i = m i" by blast
  then show ?thesis
    using Some
    by (intro exI [of _ "m1(6 \<mapsto> ''/'' @ w)"])
      (simp add: run_Opt print_path_def url_path_def run_Group run_Seq run_literal)
qed

lemma run_port:
  assumes "\<And>m. \<exists>m1. k m R = Some m1 \<and> P m m1" and "R = [] \<or> hd R \<in> {CHR ''/'', CHR ''?''}"
    and "case p of None \<Rightarrow> True | Some d \<Rightarrow> d \<noteq> '''' \<and> list_all is_digit d"
  shows "\<exists>m1. run (Opt url_port) k m (print_port p @ R) = Some m1 \<and>
    P (case p of None \<Rightarrow> m | Some d \<Rightarrow> m(5 \<mapsto> d, 4 \<mapsto> '':'' @ d)) m1"
proof (cases p)
  case None
  have "run url_port k m R = None"
    using assms(2) by (cases R) (auto simp: url_port_def run_simps run_literal)
  then show ?thesis using None assms(1) [of m] by (auto simp: print_port_def run_Opt)
next
  case (Some d)
  let ?m = "m(5 \<mapsto> d, 4 \<mapsto> '':'' @ d)"
  obtain m1 where m1: "k ?m R = Some m1" "P ?m m1" using assms(1) by blast
  let ?k = "\<lambda>m' s'. k (m'(4 \<mapsto> take (Suc (length d + length R) - length s') (CHR '':'' # d @ R))) s'"
  have "run (Group 5 (Plus Digit)) ?k m (d @ R) = Some m1"
    unfolding run_Group
  proof (rule run_Plus_first)
    show "d \<noteq> []" and "\<forall>x \<in> set d. in_class Digit x"
      using assms(3) Some by (auto simp: list_all_iff)
    show "R = [] \<or> \<not> in_class Digit (hd R)"
      using assms(2) by (auto simp: is_digit_def)
    show "?k (m(5 \<mapsto> take (length (d @ R) - length R) (d @ R))) R = Some m1"
      using m1(1) by simp
  qed
  then have "run url_port k m (CHR '':'' # d @ R) = Some m1"
    by (simp add: url_port_def run_Group [of 4] run_Seq run_literal)
  with m1(2) show ?thesis using Some by (auto simp: print_port_def run_Opt)
qed

lemma run_domain:
  assumes "k (m(3 \<mapsto> d)) R = Some m1" and "R = [] \<or> hd R \<in> {CHR ''/'', CHR '':''}" and "d \<noteq> ''''" and "free_of d ''/ :''"
  shows "run url_domain k m (d @ R) = Some m1"
  unfolding url_domain_def run_Group
proof (rule run_Plus_first [OF assms(3)])
  show "\<forall>x \<in> set d. in_class (None_of ''/ :'') x"
    using assms(4) by (auto simp: free_of_def list_all_iff)
  show "R = [] \<or> \<not> in_class (None_of ''/ :'') (hd R)" using assms(2) by auto
  show "k (m(3 \<mapsto> take (length (d @ R) - length R) (d @ R))) R = Some m1" using assms(1) by simp
qed

text \<open>Without a scheme nothing before the domain is taken for one.\<close>

lemma run_no_scheme:
  assumes "free_of d ''/ :''" and "R = [] \<or> hd R = CHR ''/'' \<or> (\<exists>c w. R = CHR '':'' # c # w \<and> is_digit c)"
  shows "run url_scheme k m (d @ R) = None"
proof -
  have "\<not> matched url_scheme m w m'" if "d @ R = w @ rest" for w m' rest
  proof
    assume "matched url_scheme m w m'"
    then obtain p where p: "to_lower_copy p \<in> {''http'', ''https''}" "w = p @ ''://''"
      by (auto simp: matched_scheme)
    let ?P = "\<lambda>c. c \<notin> set ''/ :''"
    have "\<forall>c \<in> set (to_lower_copy p). c \<notin> set ''/ :''" using p(1) by auto
    then have "\<forall>c \<in> set p. ?P c" by (auto simp: to_lower_copy_def)
    then have "takeWhile ?P (p @ ''://'' @ rest) = p \<and> dropWhile ?P (p @ ''://'' @ rest) = ''://'' @ rest"
      by (simp add: takeWhile_append2 dropWhile_append2)
    moreover have "takeWhile ?P (d @ R) = d \<and> dropWhile ?P (d @ R) = R"
      using assms by (cases R) (auto simp: free_of_def list_all_iff takeWhile_append2 dropWhile_append2)
    ultimately have "R = ''://'' @ rest" using that p(2) by simp
    then show False using assms(2) by (auto simp: is_digit_def)
  qed
  then have "(m', rest) \<notin> set (alts url_scheme m (d @ R))" for m' rest
    unfolding alts_iff by blast
  then have "alts url_scheme m (d @ R) = []" by (metis last_in_set surj_pair)
  then show ?thesis by (simp add: run_def)
qed

lemma run_with_scheme:
  assumes "to_lower_copy p \<in> {''http'', ''https''}" and "k (m(2 \<mapsto> p, 1 \<mapsto> p @ ''://'')) R = Some m1"
  shows "run url_scheme k m (p @ ''://'' @ R) = Some m1"
proof -
  show ?thesis
  proof (cases "to_lower_copy p = ''http''")
    case True
    then have "length p = 4" by (auto simp: to_lower_copy_def map_eq_Cons_conv)
    then show ?thesis using True assms(2) by (simp add: url_scheme_def run_simps run_literal_take)
  next
    case False
    then have s: "to_lower_copy p = ''https''" using assms(1) by simp
    then obtain a b c d e where p: "p = [a, b, c, d, e]" "to_lower e = CHR ''s''"
      by (auto simp: to_lower_copy_def map_eq_Cons_conv)
    then have "e \<noteq> CHR '':''" by auto
    then show ?thesis using s assms(2) p
      by (auto simp: url_scheme_def run_simps run_literal_take to_lower_copy_def)
  qed
qed

definition after_scheme :: "captures \<Rightarrow> string \<Rightarrow> captures option" where
  "after_scheme = run url_domain (run (Opt url_port) (run (Opt url_path)
     (run (Opt (literal ''/'')) (run (Opt (literal ''?'')) (run (Opt url_query) at_end)))))"

lemma run_PARSE_URL: "run PARSE_URL at_end m s = run (Opt url_scheme) after_scheme m s"
  by (simp add: PARSE_URL_def run_Seq after_scheme_def)

lemma rest_cases:
  assumes "wf_uri u"
  defines "R \<equiv> print_path (u_path u) @ print_query (u_query u)"
  shows "R = [] \<or> hd R \<in> {CHR ''/'', CHR ''?''}"
    "print_port (u_port u) @ R = [] \<or> hd (print_port (u_port u) @ R) = CHR ''/'' \<or>
      (\<exists>c w. print_port (u_port u) @ R = CHR '':'' # c # w \<and> is_digit c)"
proof -
  show "R = [] \<or> hd R \<in> {CHR ''/'', CHR ''?''}"
    using print_query_cases [of "u_query u"] by (cases "u_path u") (auto simp: R_def print_path_def)
  show "print_port (u_port u) @ R = [] \<or> hd (print_port (u_port u) @ R) = CHR ''/'' \<or>
      (\<exists>c w. print_port (u_port u) @ R = CHR '':'' # c # w \<and> is_digit c)"
  proof (cases "u_port u")
    case None
    then show ?thesis using assms(1)
      by (cases "u_path u"; cases "u_query u") (auto simp: R_def print_port_def print_path_def print_query_def wf_uri_def)
  next
    case (Some d)
    then obtain c w where "d = c # w" using assms(1) by (cases d) (auto simp: wf_uri_def)
    then show ?thesis using assms(1) Some by (auto simp: print_port_def wf_uri_def)
  qed
qed

lemma run_after_scheme:
  assumes "wf_uri u"
  defines "R \<equiv> print_port (u_port u) @ print_path (u_path u) @ print_query (u_query u)"
  shows "\<exists>m1. after_scheme m (u_domain u @ R) = Some (query_capture (u_query u) m1) \<and>
    m1 2 = m 2 \<and> m1 3 = Some (u_domain u) \<and> m1 5 = (case u_port u of None \<Rightarrow> m 5 | Some d \<Rightarrow> Some d) \<and>
    m1 6 = (case u_path u of None \<Rightarrow> m 6 | Some w \<Rightarrow> Some (''/'' @ w)) \<and> m1 8 = m 8"
proof -
  let ?tail = "run (Opt (literal ''/'')) (run (Opt (literal ''?'')) (run (Opt url_query) at_end))"
  have wf: "wf_query (u_query u)" "case u_path u of None \<Rightarrow> True | Some w \<Rightarrow> free_of w '' ?''"
    "case u_port u of None \<Rightarrow> True | Some d \<Rightarrow> d \<noteq> '''' \<and> list_all is_digit d"
    "u_domain u \<noteq> ''''" "free_of (u_domain u) ''/ :''"
    using assms(1) by (simp_all add: wf_uri_def)
  let ?P = "\<lambda>m r. \<exists>m1. r = query_capture (u_query u) m1 \<and> (\<forall>i < 6. m1 i = m i) \<and>
      m1 6 = (case u_path u of None \<Rightarrow> m 6 | Some w \<Rightarrow> Some (''/'' @ w)) \<and> m1 8 = m 8"
  have path: "\<exists>r. run (Opt url_path) ?tail m (print_path (u_path u) @ print_query (u_query u)) = Some r \<and> ?P m r" for m
    using run_path [of ?tail "u_query u" "u_path u" m, OF run_tail [OF wf(1)] wf(2)] by blast
  from run_port [of "run (Opt url_path) ?tail", OF path rest_cases(1) [OF assms(1)] wf(3), of "m(3 \<mapsto> u_domain u)"]
  obtain m1 m3 where r: "run (Opt url_port) (run (Opt url_path) ?tail) (m(3 \<mapsto> u_domain u)) R =
        Some (query_capture (u_query u) m1)"
      "m3 = (case u_port u of None \<Rightarrow> m(3 \<mapsto> u_domain u) | Some d \<Rightarrow> m(3 \<mapsto> u_domain u, 5 \<mapsto> d, 4 \<mapsto> '':'' @ d))"
      "\<forall>i < 6. m1 i = m3 i" "m1 6 = (case u_path u of None \<Rightarrow> m3 6 | Some w \<Rightarrow> Some (''/'' @ w))" "m1 8 = m3 8"
    unfolding R_def by blast
  have hd: "R = [] \<or> hd R \<in> {CHR ''/'', CHR '':''}"
    using rest_cases(2) [OF assms(1)] unfolding R_def by auto
  have "after_scheme m (u_domain u @ R) = Some (query_capture (u_query u) m1)"
    unfolding after_scheme_def by (rule run_domain) (fact r(1) hd wf(4,5))+
  with r(2-5) show ?thesis
    by (intro exI [of _ m1]) (cases "u_port u"; cases "u_path u"; simp)
qed

lemma ParsedURI_print:
  assumes "wf_uri u"
  shows "ParsedURI (print_uri u) = uri_of_parts u"
proof -
  have free: "free_of (u_domain u) ''/ :''" using assms by (simp add: wf_uri_def)
  let ?R = "u_domain u @ print_port (u_port u) @ print_path (u_path u) @ print_query (u_query u)"
  let ?m = "case u_scheme u of None \<Rightarrow> Map.empty | Some p \<Rightarrow> [2 \<mapsto> p, 1 \<mapsto> p @ ''://'']"
  obtain m1 where m1: "after_scheme ?m ?R = Some (query_capture (u_query u) m1)" "m1 2 = u_scheme u"
      "m1 3 = Some (u_domain u)" "m1 5 = u_port u" "m1 6 = map_option (\<lambda>w. ''/'' @ w) (u_path u)" "m1 8 = None"
    using run_after_scheme [OF assms, of ?m] by (auto split: option.splits)
  have "run PARSE_URL at_end Map.empty (print_uri u) = Some (query_capture (u_query u) m1)"
  proof (cases "u_scheme u")
    case None
    with m1(1) show ?thesis
      by (simp add: run_PARSE_URL run_Opt [of url_scheme] print_uri_def print_scheme_def
          run_no_scheme [OF free rest_cases(2) [OF assms]])
  next
    case (Some p)
    have "to_lower_copy p \<in> {''http'', ''https''}" using assms Some by (simp add: wf_uri_def)
    then have "run url_scheme after_scheme Map.empty (p @ ''://'' @ ?R) = Some (query_capture (u_query u) m1)"
      using m1(1) Some by (intro run_with_scheme) simp_all
    with Some show ?thesis
      by (simp add: run_PARSE_URL run_Opt [of url_scheme] print_uri_def print_scheme_def)
  qed
  then have u: "ParsedURI (print_uri u) = uri_of (query_capture (u_query u) m1)" by (simp add: ParsedURI_run)
  have ne: "\<And>p. u_scheme u = Some p \<Longrightarrow> to_lower_copy p \<noteq> ''''" "\<And>p. u_port u = Some p \<Longrightarrow> p \<noteq> ''''"
    using assms by (auto simp: wf_uri_def)
  show ?thesis
    unfolding u using m1(2-) ne
    by (cases "u_scheme u"; cases "u_port u"; cases "u_path u"; cases "u_query u")
      (auto simp: uri_of_def uri_of_parts_def query_capture_def sub_match_def value_or_def Let_def)
qed

lemmas print_defs = print_uri_def print_scheme_def print_port_def print_path_def print_query_def

text \<open>
  C15. Printing and parsing: a URL written from well-formed parts, in any letter case of the scheme, is
  parsed into exactly these parts, with the default protocol, port and resource where one is missing.
\<close>

theorem parse_print_uri:
  assumes "wf_uri u"
  shows "ParsedURI (print_uri u) = uri_of_parts u"
  using assms by (rule ParsedURI_print)

theorem parse_print_uri_witness:
  "ParsedURI ''HttpS://example.org:8443/api/v1?key=value'' =
     \<lparr>protocol = ''https'', domain = ''example.org'', uri_port = ''8443'', resource = ''/api/v1'', uri_query = ''key=value''\<rparr>"
proof -
  let ?u = "\<lparr>u_scheme = Some ''HttpS'', u_domain = ''example.org'', u_port = Some ''8443'', u_path = Some ''api/v1'',
    u_query = Some (''key'', ''value'')\<rparr>"
  have low: "to_lower_copy ''HttpS'' = ''https''" by code_simp
  have "wf_uri ?u" by (simp add: wf_uri_def wf_query_def free_of_def is_digit_def low)
  from parse_print_uri [OF this] show ?thesis
    by (simp add: print_defs uri_of_parts_def low Let_def)
qed

theorem parsed_uri_parts_witness:
  "\<exists>scheme prt path slash mark. ''example.org/a?x=1'' = scheme @ ''example.org'' @ prt @ path @ slash @ mark @ ''x=1''"
proof -
  let ?u = "\<lparr>u_scheme = None, u_domain = ''example.org'', u_port = None, u_path = Some ''a'', u_query = Some (''x'', ''1'')\<rparr>"
  have "wf_uri ?u" by (simp add: wf_uri_def wf_query_def free_of_def)
  from ParsedURI_print [OF this] have p: "protocol (ParsedURI ''example.org/a?x=1'') = ''http''"
    "domain (ParsedURI ''example.org/a?x=1'') = ''example.org''" "uri_query (ParsedURI ''example.org/a?x=1'') = ''x=1''"
    by (simp_all add: print_defs uri_of_parts_def Let_def)
  show ?thesis using parsed_uri_parts [of "''example.org/a?x=1''"] unfolding p by blast
qed

text \<open>
  A query that follows the domain directly is read as a part of the domain: the request then goes to
  a host of that name, for the resource \<open>/\<close> and without a query.
\<close>

theorem bare_query_in_domain:
  assumes "d \<noteq> ''''" and "free_of d ''/ :''" and "free_of q ''/ :''"
  shows "ParsedURI (d @ ''?'' @ q) =
    \<lparr>protocol = ''http'', domain = d @ ''?'' @ q, uri_port = ''80'', resource = ''/'', uri_query = ''''\<rparr>"
proof -
  let ?u = "\<lparr>u_scheme = None, u_domain = d @ ''?'' @ q, u_port = None, u_path = None, u_query = None\<rparr>"
  have "wf_uri ?u" using assms by (simp add: wf_uri_def wf_query_def free_of_def)
  from ParsedURI_print [OF this] show ?thesis by (simp add: print_defs uri_of_parts_def Let_def)
qed

theorem bare_query_in_domain_witness: "domain (ParsedURI ''example.org?x=1'') = ''example.org?x=1''"
  using bare_query_in_domain [of "''example.org''" "''x=1''"] by (simp add: free_of_def)

text \<open>Up to the first slash after the scheme there is nothing but the domain and the port.\<close>

lemma before_slash:
  assumes "matched (Opt url_port) m w3 m'" and "matched (Opt url_path) m' w4 m''" and "w5 \<in> {'''', ''/''}"
    and "w6 \<in> {'''', ''?''}" and "matched (Opt url_query) m'' w7 m'''" and "set w2 \<inter> set ''/ :'' = {}"
    and "CHR ''/'' \<in> set (w2 @ w3 @ w4 @ w5 @ w6 @ w7)"
  shows "takeWhile (\<lambda>c. c \<noteq> CHR ''/'') (w2 @ w3 @ w4 @ w5 @ w6 @ w7) = w2 @ w3"
proof -
  let ?P = "\<lambda>c. c \<noteq> CHR ''/''"
  have "\<not> is_digit (CHR ''/'')" by (simp add: is_digit_def)
  then have w3: "\<forall>c \<in> set w3. ?P c" using assms(1) by (auto simp: matched_simps matched_port list_all_iff)
  have w7: "\<forall>c \<in> set w7. ?P c" using assms(5) matched_query [of m'' w7 m'''] unfolding matched_simps(6) by auto
  have w4: "w4 = [] \<or> (\<exists>v. w4 = CHR ''/'' # v)" using assms(2) unfolding matched_simps(6) matched_path by auto
  have w2: "\<forall>c \<in> set w2. ?P c" using assms(6) by auto
  have "\<exists>v. w4 @ w5 @ w6 @ w7 = CHR ''/'' # v"
  proof (cases "w4 = [] \<and> w5 = []")
    case True
    moreover have "CHR ''/'' \<notin> set w2" "CHR ''/'' \<notin> set w3" "CHR ''/'' \<notin> set w7" using w2 w3 w7 by blast+
    moreover have "CHR ''/'' \<notin> set w6" using assms(4) by auto
    ultimately show ?thesis using assms(7) by simp
  next
    case False
    with w4 assms(3) show ?thesis by auto
  qed
  then obtain v where v: "w4 @ w5 @ w6 @ w7 = CHR ''/'' # v" by blast
  show ?thesis unfolding v using w2 w3 by (simp add: takeWhile_append2)
qed

lemma ParsedURI_other_scheme:
  assumes "free_of p ''/ :''" and "to_lower_copy p \<notin> {''http'', ''https''}"
  shows "ParsedURI (p @ ''://'' @ w) =
    \<lparr>protocol = '''', domain = '''', uri_port = '''', resource = '''', uri_query = ''''\<rparr>"
proof -
  let ?url = "p @ ''://'' @ w"
  have "\<not> matched PARSE_URL Map.empty ?url m" for m
  proof
    assume "matched PARSE_URL Map.empty ?url m"
    then obtain w1 w2 w3 w4 w5 w6 w7 m1 m3 m4 where parts:
      "?url = w1 @ w2 @ w3 @ w4 @ w5 @ w6 @ w7" "matched (Opt url_scheme) Map.empty w1 m1"
      "w2 \<noteq> []" "set w2 \<inter> set ''/ :'' = {}" "matched (Opt url_port) (m1(3 \<mapsto> w2)) w3 m3"
      "matched (Opt url_path) m3 w4 m4" "w5 \<in> {'''', ''/''}" "w6 \<in> {'''', ''?''}" "matched (Opt url_query) m4 w7 m"
      by (rule matched_PARSE_URL)
    have p: "\<forall>c \<in> set p. c \<notin> set ''/ :''" using assms(1) by (simp add: free_of_def list_all_iff)
    have "w1 = []"
    proof (rule ccontr)
      assume "w1 \<noteq> []"
      then obtain q where q: "to_lower_copy q \<in> {''http'', ''https''}" "w1 = q @ ''://''"
        using parts(2) by (auto simp: matched_simps matched_scheme)
      have "\<forall>c \<in> set (to_lower_copy q). c \<notin> set ''/ :''" using q(1) by auto
      then have "\<forall>c \<in> set q. c \<notin> set ''/ :''" by (auto simp: to_lower_copy_def)
      moreover have "takeWhile (\<lambda>c. c \<notin> set ''/ :'') (v @ ''://'' @ r) = v" if "\<forall>c \<in> set v. c \<notin> set ''/ :''" for v r
        using that by (simp add: takeWhile_append2)
      moreover have "?url = q @ ''://'' @ (w2 @ w3 @ w4 @ w5 @ w6 @ w7)" using parts(1) q(2) by simp
      ultimately have "p = q" using p by metis
      with q(1) assms(2) show False by simp
    qed
    with parts(1) have url: "?url = w2 @ w3 @ w4 @ w5 @ w6 @ w7" by simp
    have "CHR ''/'' \<in> set ?url" by simp
    from before_slash [OF parts(5-9,4) this [unfolded url]]
    have "takeWhile (\<lambda>c. c \<noteq> CHR ''/'') ?url = w2 @ w3" unfolding url .
    moreover have "takeWhile (\<lambda>c. c \<noteq> CHR ''/'') ?url = p @ '':''"
      using p by (auto simp: takeWhile_append2)
    ultimately have e: "w2 @ w3 = p @ '':''" by simp
    have "\<not> is_digit (CHR '':'')" by (simp add: is_digit_def)
    then have "CHR '':'' \<noteq> last (w2 @ w3)"
      using parts(3,4,5) last_in_set [of w2]
      by (auto simp: matched_simps matched_port list_all_iff last_append)
    with e show False by simp
  qed
  then have "run PARSE_URL at_end Map.empty ?url = None" using run_at_end(2) by (metis not_None_eq)
  then show ?thesis by (simp add: ParsedURI_run)
qed

text \<open>
  Only the two protocols are accepted: a URL with any other scheme before \<open>://\<close> does not match, and
  every member stays empty.
\<close>

theorem other_scheme_rejected:
  assumes "free_of p ''/ :''" and "to_lower_copy p \<notin> {''http'', ''https''}"
  shows "ParsedURI (p @ ''://'' @ w) =
    \<lparr>protocol = '''', domain = '''', uri_port = '''', resource = '''', uri_query = ''''\<rparr>"
  using assms by (rule ParsedURI_other_scheme)

theorem other_scheme_rejected_witness: "protocol (ParsedURI ''ftp://example.org/x'') = ''''"
proof -
  have "to_lower_copy ''ftp'' = ''ftp''" by code_simp
  then show ?thesis using other_scheme_rejected [of "''ftp''" "''example.org/x''"] by (simp add: free_of_def)
qed

section \<open>The URLs that are accepted\<close>

text \<open>What the parts of the pattern admit, and the URLs they make up.\<close>

definition scheme_part :: "string \<Rightarrow> bool" where
  "scheme_part w \<longleftrightarrow> w = '''' \<or> (\<exists>p. to_lower_copy p \<in> {''http'', ''https''} \<and> w = p @ ''://'')"

definition port_part :: "string \<Rightarrow> bool" where
  "port_part w \<longleftrightarrow> w = '''' \<or> (\<exists>p. p \<noteq> '''' \<and> list_all is_digit p \<and> w = '':'' @ p)"

definition path_part :: "string \<Rightarrow> bool" where
  "path_part w \<longleftrightarrow> w = '''' \<or> (\<exists>p. free_of p '' ?'' \<and> w = ''/'' @ p)"

definition query_part :: "string \<Rightarrow> bool" where
  "query_part w \<longleftrightarrow> w = '''' \<or> (\<exists>k v. k \<noteq> '''' \<and> v \<noteq> '''' \<and> free_of (k @ v) ''/ '' \<and> w = k @ ''='' @ v)"

definition followed_by :: "(string \<Rightarrow> bool) \<Rightarrow> (string \<Rightarrow> bool) \<Rightarrow> string \<Rightarrow> bool" where
  "followed_by P Q w \<longleftrightarrow> (\<exists>u v. w = u @ v \<and> P u \<and> Q v)"

definition domain_part :: "string \<Rightarrow> bool" where
  "domain_part w \<longleftrightarrow> w \<noteq> '''' \<and> free_of w ''/ :''"

definition url_form :: "string \<Rightarrow> bool" where
  "url_form =
     followed_by scheme_part (followed_by domain_part (followed_by port_part (followed_by path_part
       (followed_by (\<lambda>w. w \<in> {'''', ''/''}) (followed_by (\<lambda>w. w \<in> {'''', ''?''}) query_part)))))"

lemma matched_parts:
  "(\<exists>m'. matched (Opt url_scheme) m w m') \<longleftrightarrow> scheme_part w"
  "(\<exists>m'. matched url_domain m w m') \<longleftrightarrow> domain_part w"
  "(\<exists>m'. matched (Opt url_port) m w m') \<longleftrightarrow> port_part w"
  "(\<exists>m'. matched (Opt url_path) m w m') \<longleftrightarrow> path_part w"
  "(\<exists>m'. matched (Opt (literal ''/'')) m w m') \<longleftrightarrow> w \<in> {'''', ''/''}"
  "(\<exists>m'. matched (Opt (literal ''?'')) m w m') \<longleftrightarrow> w \<in> {'''', ''?''}"
proof -
  show "(\<exists>m'. matched (Opt url_scheme) m w m') \<longleftrightarrow> scheme_part w"
    unfolding matched_simps(6) matched_scheme scheme_part_def by blast
  show "(\<exists>m'. matched url_domain m w m') \<longleftrightarrow> domain_part w"
    unfolding matched_domain domain_part_def by (auto simp: free_of_def list_all_iff)
  show "(\<exists>m'. matched (Opt url_port) m w m') \<longleftrightarrow> port_part w"
    unfolding matched_simps(6) matched_port port_part_def by blast
  have "free_of p '' ?'' \<longleftrightarrow> p = '''' \<or> p \<noteq> '''' \<and> set p \<inter> set '' ?'' = {}" for p
    by (auto simp: free_of_def list_all_iff)
  then show "(\<exists>m'. matched (Opt url_path) m w m') \<longleftrightarrow> path_part w"
    unfolding matched_simps(6) matched_path path_part_def by blast
qed (auto simp: matched_simps(6) matched_literal)

lemma followed_byI: "P u \<Longrightarrow> Q v \<Longrightarrow> followed_by P Q (u @ v)"
  by (auto simp: followed_by_def)

lemma matched_followed_by:
  assumes "\<And>m w. (\<exists>m'. matched r1 m w m') \<longleftrightarrow> P w" and "\<And>m w. (\<exists>m'. matched r2 m w m') \<longleftrightarrow> Q w"
  shows "(\<exists>m'. matched (Seq r1 r2) m w m') \<longleftrightarrow> followed_by P Q w"
  using assms unfolding matched_simps followed_by_def by metis

lemma matched_query_part: "(\<exists>m'. matched (Opt url_query) m w m') \<longleftrightarrow> query_part w"
proof -
  let ?word = "\<lambda>w. w \<noteq> '''' \<and> free_of w ''/ ''"
  have word: "(\<exists>m'. matched (Plus (None_of ''/ '')) m w m') \<longleftrightarrow> ?word w" for m w
    by (auto simp: matched_simps free_of_def list_all_iff)
  have sign: "(\<exists>m'. matched (literal ''='') m w m') \<longleftrightarrow> w = ''=''" for m w
    by (simp add: matched_literal)
  have "(\<exists>m'. matched (Opt url_query) m w m') \<longleftrightarrow>
      w = '''' \<or> (\<exists>m'. matched (Seq (Plus (None_of ''/ '')) (Seq (literal ''='') (Plus (None_of ''/ '')))) m w m')"
    unfolding url_query_def matched_simps(6,7) by blast
  also have "\<dots> \<longleftrightarrow> w = '''' \<or> followed_by ?word (followed_by (\<lambda>w. w = ''='') ?word) w"
    by (simp only: matched_followed_by [OF word matched_followed_by [OF sign word]])
  also have "\<dots> \<longleftrightarrow> query_part w"
    unfolding query_part_def followed_by_def free_of_def list_all_append by blast
  finally show ?thesis .
qed

lemma PARSE_URL_language: "(\<exists>m'. matched PARSE_URL m url m') \<longleftrightarrow> url_form url"
  unfolding PARSE_URL_def url_form_def
  by (intro matched_followed_by matched_parts matched_query_part)

text \<open>
  C14. Which URLs are accepted: exactly those that consist of an optional scheme \<open>http\<close> or \<open>https\<close> in any
  letter case, a domain without slash, space or colon, an optional decimal port, an optional path without
  space or question mark, at most one slash, at most one question mark, and an optional query
  \<open>key=value\<close> without slash or space. Every other URL leaves all members empty.
\<close>

theorem uri_accepted_iff:
  "if url_form url then protocol (ParsedURI url) \<in> {''http'', ''https''} \<and> domain (ParsedURI url) \<noteq> ''''
   else ParsedURI url = \<lparr>protocol = '''', domain = '''', uri_port = '''', resource = '''', uri_query = ''''\<rparr>"
proof (cases "run PARSE_URL at_end Map.empty url")
  case None
  with PARSE_URL_language run_at_end(1) have "\<not> url_form url" by metis
  with None show ?thesis by (simp add: ParsedURI_run)
next
  case (Some m)
  then have "url_form url" using PARSE_URL_language run_at_end(2) by metis
  moreover have "protocol (ParsedURI url) \<noteq> []"
    using Some by (simp add: ParsedURI_run uri_of_def value_or_def Let_def)
  then have "protocol (ParsedURI url) \<in> {''http'', ''https''} \<and> domain (ParsedURI url) \<noteq> []"
    using ParsedURI_parts by fastforce
  ultimately show ?thesis by simp
qed

theorem uri_accepted_iff_witness:
  "protocol (ParsedURI ''example.org:80'') \<noteq> [] \<and> protocol (ParsedURI '':80'') = []"
proof -
  have "url_form ([] @ ''example.org'' @ '':80'' @ [] @ [] @ [] @ [])"
    unfolding url_form_def
    by (intro followed_byI)
      (simp_all add: scheme_part_def domain_part_def port_part_def path_part_def query_part_def free_of_def is_digit_def)
  then have "url_form ''example.org:80''" by simp
  moreover have "\<not> url_form '':80''"
    by (auto simp: url_form_def followed_by_def domain_part_def scheme_part_def free_of_def Cons_eq_append_conv)
  ultimately show ?thesis
    using uri_accepted_iff [of "''example.org:80''"] uri_accepted_iff [of "'':80''"] by auto
qed

end
