(* ===== verification/Examples.thy ===== *)
theory Examples
  imports Uri Http_Session
begin

text \<open>
  The two example programs (\<open>example/http/example_connector.cpp\<close>, \<open>example/http/example_pool.cpp\<close>): a number
  of threads that send HTTP requests, each over a session of its own from a connector, or over a
  session borrowed from a pool. The library calls are those of the other theories. An exception that
  leaves a thread calls \<open>std::terminate\<close>. What is printed is the list a thread returns.
\<close>

section \<open>Arguments and the request\<close>

definition is_space :: "char \<Rightarrow> bool" where
  "is_space c \<longleftrightarrow> (of_char c :: nat) = 32 \<or> (9 \<le> (of_char c :: nat) \<and> (of_char c :: nat) \<le> 13)"

definition digits_value :: "string \<Rightarrow> nat" where
  "digits_value ds = foldl (\<lambda>v c. 10 * v + (of_char c - 48)) 0 ds"

text \<open>
  \<open>std::atoi\<close>: white space, a sign, digits; anything else ends the number. A value that does not fit an
  \<open>int\<close> is undefined in C++; here it is what the C library computes, \<open>strtol\<close> cut to 32 bits.
\<close>

definition atoi :: "string \<Rightarrow> int" where
  "atoi s =
     (let t = dropWhile is_space s;
          (neg, u) = (case t of [] \<Rightarrow> (False, []) | c # cs \<Rightarrow>
             if c = CHR ''-'' then (True, cs) else if c = CHR ''+'' then (False, cs) else (False, t));
          v = int (digits_value (takeWhile is_digit u));
          l = (if neg then max tick_min (- v) else min tick_max v)
      in (l + 2 ^ 31) mod 2 ^ 32 - 2 ^ 31)"

record http_request =
  rq_version :: nat
  rq_method :: string
  rq_target :: string
  rq_fields :: "(string \<times> string) list"
  rq_body :: string

text \<open>The request of both programs; \<open>prepare_payload\<close> is Boost.Beast's.\<close>

definition make_request :: "(http_request \<Rightarrow> http_request) \<Rightarrow> parsed_uri \<Rightarrow> http_request" where
  "make_request prepare_payload uri =
     prepare_payload
       \<lparr>rq_version = 11, rq_method = ''POST'', rq_target = resource uri,
        rq_fields = [(''Host'', domain uri), (''Content-Type'', ''application/json''), (''Accept'', ''*/*''),
          (''User-Agent'', ''beast/stream_client'')],
        rq_body = ''{test}''\<rparr>"

section \<open>Threads\<close>

datatype 'r thread_end = Thread_done "'r list" | Thread_throws exn "'r list"

text \<open>The loop of a connector thread: \<open>perform\<close> throws on an error, and every response is printed.\<close>

fun connector_requests ::
  "(nat \<Rightarrow> 'h \<Rightarrow> ((exn + 'r) \<times> byte list \<times> 'h) option) \<Rightarrow> nat list \<Rightarrow> 'r list \<Rightarrow> 'h
     \<Rightarrow> ('r thread_end \<times> 'h) option" where
  "connector_requests perf [] out h = Some (Thread_done out, h)"
| "connector_requests perf (j # js) out h =
     (case perf j h of
        None \<Rightarrow> None
      | Some (Inl x, wire, h') \<Rightarrow> Some (Thread_throws x out, h')
      | Some (Inr resp, wire, h') \<Rightarrow> connector_requests perf js (out @ [resp]) h')"

text \<open>
  What a thread meets: in \<open>new_session\<close>, on its stream, the number of the first read and the clock
  reading of each request, and the clock reading of \<open>new_session\<close>.
\<close>

record ('ep, 's, 'b) thread_env =
  te_session :: "tick \<Rightarrow> ('ep, ('s, 'b) http_socket) session_env"
  te_stream :: "'s http_stream"
  te_first :: "nat \<Rightarrow> nat"
  te_clock :: "nat \<Rightarrow> tick"
  te_now :: tick

text \<open>A thread of \<open>example_connector.cpp\<close>: its session comes from \<open>new_session\<close>, which throws when there is none.\<close>

definition connector_thread ::
  "('m, 'z) serializer \<Rightarrow> ('p, 'r) parser \<Rightarrow> 'b flat_buffer \<Rightarrow> 'm \<Rightarrow> int \<Rightarrow> ('ep, 's, 'b) thread_env \<Rightarrow> 'ep connector
     \<Rightarrow> 'r thread_end option \<times> 'ep connector" where
  "connector_thread Z P B request req_per_thread T c =
     (case new_session_throw (te_session T) (te_now T) c of
        (Inl x, c') \<Rightarrow> (Some (Thread_throws x []), c')
      | (Inr session, c') \<Rightarrow>
          (map_option fst
             (connector_requests (\<lambda>j. perform_throw (te_stream T) Z P B (te_first T j) (te_clock T j) request)
                [0..<nat req_per_thread] [] session),
           c'))"

text \<open>
  \<open>start_threads\<close> of \<open>example_connector.cpp\<close>: the connector with its timeouts, shared with its resolving
  thread and among the threads, so each thread meets it in some state, \<open>met i\<close>, when its wait for the
  endpoints ends. No thread is started for a number that is not positive.
\<close>

definition example_connector :: "string \<Rightarrow> string \<Rightarrow> 'ep connector" where
  "example_connector h p = connector_ctor h p 5000000000 1000000000 500000000"

definition start_connector_threads ::
  "('m, 'z) serializer \<Rightarrow> ('p, 'r) parser \<Rightarrow> 'b flat_buffer \<Rightarrow> (nat \<Rightarrow> ('ep, 's, 'b) thread_env)
     \<Rightarrow> ('ep connector \<Rightarrow> nat \<Rightarrow> 'ep connector) \<Rightarrow> string \<Rightarrow> string \<Rightarrow> 'm \<Rightarrow> int \<Rightarrow> int \<Rightarrow> 'r thread_end option list" where
  "start_connector_threads Z P B T met h p request threads_num req_per_thread =
     map (\<lambda>i. fst (connector_thread Z P B request req_per_thread (T i) (met (example_connector h p) i)))
       [0..<nat threads_num]"

text \<open>
  What a pool thread prints for a request: the message of the error, or the response. To print the
  response of an empty optional would be undefined.
\<close>

datatype 'r printed = Printed_error error_code | Printed_response 'r | Printed_undefined

definition print_result :: "error_code \<Rightarrow> 'r option \<Rightarrow> 'r printed" where
  "print_result err resp =
     (if is_error err then Printed_error err
      else case resp of None \<Rightarrow> Printed_undefined | Some r \<Rightarrow> Printed_response r)"

text \<open>The loop of a pool thread; \<open>err\<close> is declared before the loop and handed to every \<open>perform\<close>.\<close>

fun pool_requests ::
  "(nat \<Rightarrow> error_code \<Rightarrow> 'h \<Rightarrow> ((exn + error_code \<times> 'r option) \<times> byte list \<times> 'h) option) \<Rightarrow> nat list \<Rightarrow> error_code
     \<Rightarrow> 'r printed list \<Rightarrow> 'h \<Rightarrow> ('r printed thread_end \<times> 'h) option" where
  "pool_requests perf [] err out h = Some (Thread_done out, h)"
| "pool_requests perf (j # js) err out h =
     (case perf j err h of
        None \<Rightarrow> None
      | Some (Inl x, wire, h') \<Rightarrow> Some (Thread_throws x out, h')
      | Some (Inr (err', resp), wire, h') \<Rightarrow> pool_requests perf js err' (out @ [print_result err' resp]) h')"

text \<open>
  What a pool thread meets besides: which locks succeed in time, what the watcher and the other threads
  do to the pool while it works, and the lock and the clock of \<open>return_session\<close>.
\<close>

record ('ep, 's, 'b) pool_env =
  pe_locks :: "tick \<Rightarrow> bool"
  pe_stream :: "'s http_stream"
  pe_first :: "nat \<Rightarrow> nat"
  pe_clock :: "nat \<Rightarrow> tick"
  pe_now :: tick
  pe_others :: "('ep, ('s, 'b) http_socket) pool \<Rightarrow> ('ep, ('s, 'b) http_socket) pool"
  pe_locked :: bool
  pe_later :: tick

text \<open>A thread of \<open>example_pool.cpp\<close>: borrow a session, send the requests, give the session back.\<close>

definition pool_thread ::
  "('s \<Rightarrow> bool) \<Rightarrow> ('m, 'z) serializer \<Rightarrow> ('p, 'r) parser \<Rightarrow> 'b flat_buffer \<Rightarrow> 'm \<Rightarrow> int \<Rightarrow> ('ep, 's, 'b) pool_env
     \<Rightarrow> ('ep, ('s, 'b) http_socket) pool \<Rightarrow> 'r printed thread_end option \<times> ('ep, ('s, 'b) http_socket) pool" where
  "pool_thread layer_is_open Z P B request req_per_thread T p =
     (case get_session_throw_default (pe_locks T) (pe_now T) p of
        (Inl x, p') \<Rightarrow> (Some (Thread_throws x []), p')
      | (Inr session, p') \<Rightarrow>
          (case pool_requests (\<lambda>j err. perform_default (pe_stream T) Z P B (pe_first T j) (pe_clock T j) request err)
                  [0..<nat req_per_thread] Success [] session of
             None \<Rightarrow> (None, pe_others T p')
           | Some (Thread_throws x out, session') \<Rightarrow> (Some (Thread_throws x out), pe_others T p')
           | Some (Thread_done out, session') \<Rightarrow>
               (Some (Thread_done out),
                return_session (http_is_open layer_is_open) (pe_locked T) (pe_later T) (Some session') (pe_others T p'))))"

text \<open>
  \<open>start_threads\<close> of \<open>example_pool.cpp\<close>: the pool has as many places as there are threads (an \<open>int\<close> converted to
  \<open>std::size_t\<close>) and is shared with its watcher, so each thread meets the pool in some state, \<open>met i\<close>,
  when its wait for a session ends.
\<close>

definition example_pool :: "int \<Rightarrow> string \<Rightarrow> string \<Rightarrow> ('ep, 's) pool" where
  "example_pool threads_num h p = pool_ctor (of_int threads_num) 500000000 (example_connector h p)"

definition start_pool_threads ::
  "('s \<Rightarrow> bool) \<Rightarrow> ('m, 'z) serializer \<Rightarrow> ('p, 'r) parser \<Rightarrow> 'b flat_buffer \<Rightarrow> (nat \<Rightarrow> ('ep, 's, 'b) pool_env)
     \<Rightarrow> (('ep, ('s, 'b) http_socket) pool \<Rightarrow> nat \<Rightarrow> ('ep, ('s, 'b) http_socket) pool) \<Rightarrow> string \<Rightarrow> string \<Rightarrow> 'm
     \<Rightarrow> int \<Rightarrow> int \<Rightarrow> 'r printed thread_end option list" where
  "start_pool_threads layer_is_open Z P B T met h p request threads_num req_per_thread =
     map (\<lambda>i. fst (pool_thread layer_is_open Z P B request req_per_thread (T i) (met (example_pool threads_num h p) i)))
       [0..<nat threads_num]"

section \<open>The programs\<close>

datatype program_end = Exit int | Terminated

text \<open>
  \<open>join\<close> on every thread: an exception that leaves any of them ends the program, a thread that does not
  return keeps it waiting.
\<close>

definition join_threads :: "'r thread_end option list \<Rightarrow> program_end option" where
  "join_threads ts =
     (if list_ex (\<lambda>t. case t of Some (Thread_throws x out) \<Rightarrow> True | _ \<Rightarrow> False) ts then Some Terminated
      else if list_ex (\<lambda>t. t = None) ts then None
      else Some (Exit 0))"

text \<open>
  The two \<open>main\<close> functions. \<open>http\<close> and \<open>https\<close> are the two instances of \<open>start_threads\<close>, given what their
  threads meet.
\<close>

definition run_main ::
  "(http_request \<Rightarrow> http_request) \<Rightarrow> (string \<Rightarrow> string \<Rightarrow> http_request \<Rightarrow> int \<Rightarrow> int \<Rightarrow> 'r thread_end option list)
     \<Rightarrow> (string \<Rightarrow> string \<Rightarrow> http_request \<Rightarrow> int \<Rightarrow> int \<Rightarrow> 'r thread_end option list) \<Rightarrow> string list \<Rightarrow> program_end option" where
  "run_main prepare_payload http https argv =
     (if length argv \<noteq> 4 then Some (Exit 1)
      else
        (let num_threads = atoi (argv ! 2); requests = atoi (argv ! 3); uri = ParsedURI (argv ! 1);
             req = make_request prepare_payload uri
         in if protocol uri = ''http'' then join_threads (http (domain uri) (uri_port uri) req num_threads requests)
            else if protocol uri = ''https'' then join_threads (https (domain uri) (uri_port uri) req num_threads requests)
            else Some (Exit 1)))"

definition connector_main ::
  "(http_request \<Rightarrow> http_request) \<Rightarrow> (http_request, 'z) serializer \<Rightarrow> ('p, 'r) parser \<Rightarrow> 'b flat_buffer
     \<Rightarrow> (nat \<Rightarrow> ('ep, 's, 'b) thread_env) \<Rightarrow> (nat \<Rightarrow> ('ep, 't, 'b) thread_env)
     \<Rightarrow> ('ep connector \<Rightarrow> nat \<Rightarrow> 'ep connector) \<Rightarrow> string list \<Rightarrow> program_end option" where
  "connector_main prepare_payload Z P B T T' met argv =
     run_main prepare_payload (start_connector_threads Z P B T met) (start_connector_threads Z P B T' met) argv"

definition pool_main ::
  "(http_request \<Rightarrow> http_request) \<Rightarrow> ('s \<Rightarrow> bool) \<Rightarrow> ('t \<Rightarrow> bool) \<Rightarrow> (http_request, 'z) serializer \<Rightarrow> ('p, 'r) parser
     \<Rightarrow> 'b flat_buffer \<Rightarrow> (nat \<Rightarrow> ('ep, 's, 'b) pool_env) \<Rightarrow> (nat \<Rightarrow> ('ep, 't, 'b) pool_env)
     \<Rightarrow> (('ep, ('s, 'b) http_socket) pool \<Rightarrow> nat \<Rightarrow> ('ep, ('s, 'b) http_socket) pool)
     \<Rightarrow> (('ep, ('t, 'b) http_socket) pool \<Rightarrow> nat \<Rightarrow> ('ep, ('t, 'b) http_socket) pool) \<Rightarrow> string list \<Rightarrow> program_end option" where
  "pool_main prepare_payload layer_is_open layer_is_open' Z P B T T' met met' argv =
     run_main prepare_payload (start_pool_threads layer_is_open Z P B T met)
       (start_pool_threads layer_is_open' Z P B T' met') argv"

section \<open>Lemmas\<close>

lemma digits_value_snoc: "digits_value (ds @ [c]) = 10 * digits_value ds + (of_char c - 48)"
  by (simp add: digits_value_def)

lemma to_string_digits: "list_all is_digit (to_string n) \<and> digits_value (to_string n) = n \<and> to_string n \<noteq> ''''"
proof (induction n rule: to_string.induct)
  case (1 n)
  have d: "is_digit (char_of (48 + k)) \<and> of_char (char_of (48 + k)) - 48 = k" if "k < 10" for k :: nat
    using that by (simp add: is_digit_def)
  show ?case
  proof (cases "n < 10")
    case True
    then show ?thesis using d [of n] by (subst (1 2 3) to_string.simps) (simp add: digits_value_def)
  next
    case False
    then show ?thesis using d [of "n mod 10"] 1
      by (subst (1 2 3) to_string.simps) (simp add: digits_value_snoc)
  qed
qed

lemma to_string_head: "\<exists>c cs. to_string n = c # cs \<and> \<not> is_space c \<and> c \<noteq> CHR ''-'' \<and> c \<noteq> CHR ''+''"
proof -
  obtain c cs where c: "to_string n = c # cs" using to_string_digits [of n] by (cases "to_string n") auto
  then have "is_digit c" using to_string_digits [of n] by simp
  then show ?thesis using c by (auto simp: is_digit_def is_space_def)
qed

lemma connector_requests_done:
  assumes "connector_requests perf js out h = Some (Thread_done out', h')"
  shows "length out' = length out + length js"
  using assms
  by (induction js arbitrary: out h) (auto split: option.splits sum.splits prod.splits)

fun outputs :: "'r thread_end \<Rightarrow> 'r list" where
  "outputs (Thread_done out) = out"
| "outputs (Thread_throws x out) = out"

lemma pool_requests_printed:
  assumes "pool_requests perf js err out h = Some (e, h')" and "ok h" and "Printed_undefined \<notin> set out"
    and "\<And>j err h err' resp wire h'. ok h \<Longrightarrow> perf j err h = Some (Inr (err', resp), wire, h') \<Longrightarrow>
      (resp = None) = is_error err' \<and> ok h'"
  shows "Printed_undefined \<notin> set (outputs e) \<and> (\<forall>out'. e = Thread_done out' \<longrightarrow> length out' = length out + length js)"
  using assms(1-3)
proof (induction js arbitrary: err out h)
  case (Cons j js)
  show ?case
  proof (cases "\<exists>err' resp wire h1. perf j err h = Some (Inr (err', resp), wire, h1)")
    case True
    then obtain err' resp wire h1 where p: "perf j err h = Some (Inr (err', resp), wire, h1)" by blast
    from assms(4) [OF Cons.prems(2) p] have "print_result err' resp \<noteq> Printed_undefined" "ok h1"
      by (auto simp: print_result_def split: option.splits)
    with Cons.IH [of err' "out @ [print_result err' resp]" h1] Cons.prems(1,3) p show ?thesis by simp
  next
    case False
    with Cons.prems(1,3) show ?thesis by (auto split: option.splits sum.splits)
  qed
qed auto

section \<open>A concrete environment\<close>

definition body_serializer :: "(http_request, byte list) serializer" where
  "body_serializer = \<lparr>ser_start = (\<lambda>m. map of_char (rq_body m)), ser_done = (\<lambda>z. z = []), ser_next = (\<lambda>z. (Inr z, z)),
     ser_consume = drop\<rparr>"

definition sample_thread_env :: "(nat, base_socket, byte list) thread_env" where
  "sample_thread_env = \<lparr>te_session = (\<lambda>d. \<lparr>done_locked = True, done_waited = True, shuffled = rev, connect_peer = (\<lambda>ep. Inr sample_http)\<rparr>),
     te_stream = tcp_stream linux_asio sample_env sample_stream_calls, te_first = (\<lambda>j. 0), te_clock = (\<lambda>j. - 999000),
     te_now = 0\<rparr>"

definition sample_pool_env :: "(nat, base_socket, byte list) pool_env" where
  "sample_pool_env = \<lparr>pe_locks = (\<lambda>d. True), pe_stream = tcp_stream linux_asio sample_env sample_stream_calls,
     pe_first = (\<lambda>j. 0), pe_clock = (\<lambda>j. - 999000), pe_now = 0, pe_others = (\<lambda>p. p), pe_locked = True, pe_later = 7\<rparr>"

definition sample_met :: "nat connector \<Rightarrow> nat \<Rightarrow> nat connector" where
  "sample_met c i = c\<lparr>endpoints := [7], resolve_done := True\<rparr>"

definition sample_pool_met :: "(nat, (base_socket, byte list) http_socket) pool \<Rightarrow> nat \<Rightarrow> (nat, (base_socket, byte list) http_socket) pool" where
  "sample_pool_met p i = p\<lparr>sesson_pool := [(5, sample_http)]\<rparr>"

lemma body_serializer_ok: "serializer_ok body_serializer (\<lambda>z. z)"
  by (simp add: serializer_ok_def body_serializer_def)

section \<open>Properties\<close>

text \<open>
  The number of threads and of requests survive the command line: \<open>atoi\<close> reads back the decimal
  notation of every number an \<open>int\<close> can hold, whatever white space precedes and whatever other text
  follows it.
\<close>

theorem atoi_to_string:
  assumes "n < 2 ^ 31" and "list_all is_space pre" and "rest = '''' \<or> \<not> is_digit (hd rest)"
  shows "atoi (pre @ to_string n @ rest) = int n \<and> atoi (pre @ ''-'' @ to_string n @ rest) = - int n"
proof -
  obtain c cs where c: "to_string n = c # cs" "\<not> is_space c" "c \<noteq> CHR ''-''" "c \<noteq> CHR ''+''"
    using to_string_head [of n] by blast
  have pre: "dropWhile is_space (pre @ x # xs) = x # xs" if "\<not> is_space x" for x xs
    using assms(2) that by (simp add: list_all_iff dropWhile_append2)
  have digits: "takeWhile is_digit (to_string n @ rest) = to_string n"
    using to_string_digits [of n] assms(3) by (cases rest) (auto simp: list_all_iff takeWhile_append2)
  have "\<not> is_space (CHR ''-'')" by (simp add: is_space_def)
  then have drop: "dropWhile is_space (pre @ to_string n @ rest) = to_string n @ rest"
    "dropWhile is_space (pre @ ''-'' @ to_string n @ rest) = ''-'' @ to_string n @ rest"
    using pre [of c "cs @ rest"] pre [of "CHR ''-''"] c by simp_all
  have v: "int (digits_value (takeWhile is_digit (to_string n @ rest))) = int n"
    using to_string_digits [of n] by (simp add: digits)
  have range: "int n \<le> tick_max" "tick_min \<le> - int n" "int n < 2 ^ 31"
    using assms(1) by (simp_all add: tick_max_def tick_min_def)
  have "atoi (pre @ to_string n @ rest) = int n"
    using c v range unfolding atoi_def drop(1) by (simp add: Let_def)
  moreover have "atoi (pre @ ''-'' @ to_string n @ rest) = - int n"
    using v range unfolding atoi_def drop(2) by (simp add: Let_def)
  ultimately show ?thesis by blast
qed

theorem atoi_to_string_witness: "atoi ('' '' @ to_string 42 @ ''x'') = 42"
  using atoi_to_string [of 42 "'' ''" "''x''"] by (simp add: is_space_def is_digit_def)

text \<open>
  Unusable arguments are refused: with a wrong number of arguments, or with a URL of any other scheme
  than the two, both programs start nothing and end with the code 1.
\<close>

theorem unusable_arguments_refused:
  assumes "length argv \<noteq> 4 \<or>
    (\<exists>p w. argv ! 1 = p @ ''://'' @ w \<and> free_of p ''/ :'' \<and> to_lower_copy p \<notin> {''http'', ''https''})"
  shows "connector_main prep Z P B T T' met argv = Some (Exit 1) \<and>
    pool_main prep lay lay' Z P B U U' pmet pmet' argv = Some (Exit 1)"
proof -
  have "protocol (ParsedURI (argv ! 1)) = ''''" if "length argv = 4"
    using that assms ParsedURI_other_scheme by fastforce
  then show ?thesis by (simp add: connector_main_def pool_main_def run_main_def Let_def)
qed

theorem unusable_arguments_refused_witness:
  "connector_main (\<lambda>r. r) body_serializer byte_parser list_buffer (\<lambda>i. sample_thread_env) (\<lambda>i. sample_thread_env) sample_met
     [''prog'', ''ftp://example.org/'', ''2'', ''5''] = Some (Exit 1)"
proof -
  have "to_lower_copy ''ftp'' = ''ftp''" by code_simp
  then have "[''prog'', ''ftp://example.org/'', ''2'', ''5''] ! 1 = ''ftp'' @ ''://'' @ ''example.org/'' \<and>
      free_of ''ftp'' ''/ :'' \<and> to_lower_copy ''ftp'' \<notin> {''http'', ''https''}"
    by (simp add: free_of_def)
  then show ?thesis using unusable_arguments_refused by blast
qed

text \<open>
  The query of the URL is parsed and then dropped: both programs behave as if it had not been given.
  What is requested is the path, or \<open>/\<close>.
\<close>

theorem query_not_sent:
  assumes "wf_uri u"
  shows "make_request prep (ParsedURI (print_uri u)) = make_request prep (ParsedURI (print_uri (u\<lparr>u_query := None\<rparr>))) \<and>
    connector_main prep Z P B T T' met [prog, print_uri u, n, r] =
      connector_main prep Z P B T T' met [prog, print_uri (u\<lparr>u_query := None\<rparr>), n, r] \<and>
    pool_main prep lay lay' Z P B U U' pmet pmet' [prog, print_uri u, n, r] =
      pool_main prep lay lay' Z P B U U' pmet pmet' [prog, print_uri (u\<lparr>u_query := None\<rparr>), n, r]"
proof -
  have "wf_uri (u\<lparr>u_query := None\<rparr>)" using assms by (simp add: wf_uri_def wf_query_def)
  then have q: "ParsedURI (print_uri (u\<lparr>u_query := None\<rparr>)) = (ParsedURI (print_uri u))\<lparr>uri_query := ''''\<rparr>"
    using ParsedURI_print [OF assms] ParsedURI_print by (simp add: uri_of_parts_def Let_def)
  have "make_request prep (v\<lparr>uri_query := w\<rparr>) = make_request prep v" for v w by (simp add: make_request_def)
  then show ?thesis by (simp add: connector_main_def pool_main_def run_main_def q Let_def)
qed

theorem query_not_sent_witness:
  "make_request (\<lambda>r. r) (ParsedURI ''example.org/a?x=1'') = make_request (\<lambda>r. r) (ParsedURI ''example.org/a'')"
proof -
  let ?u = "\<lparr>u_scheme = None, u_domain = ''example.org'', u_port = None, u_path = Some ''a'', u_query = Some (''x'', ''1'')\<rparr>"
  have "wf_uri ?u" by (simp add: wf_uri_def wf_query_def free_of_def)
  from query_not_sent [OF this, of "\<lambda>r. r", THEN conjunct1] show ?thesis by (simp add: print_defs)
qed

lemma connector_thread_done:
  assumes "fst (connector_thread Z P B request n T c) = Some (Thread_done out)"
  shows "length out = nat n"
  using assms connector_requests_done [of _ "[0..<nat n]" "[]"]
  by (fastforce simp: connector_thread_def split: prod.splits sum.splits)

lemma join_threads_zero: "join_threads ts = Some (Exit 0) \<longleftrightarrow> list_all (\<lambda>t. \<exists>out. t = Some (Thread_done out)) ts"
proof -
  have "list_all (\<lambda>t. \<exists>out. t = Some (Thread_done out)) ts \<longleftrightarrow>
      \<not> list_ex (\<lambda>t. case t of Some (Thread_throws x out) \<Rightarrow> True | _ \<Rightarrow> False) ts \<and> \<not> list_ex (\<lambda>t. t = None) ts"
    by (induction ts) (auto split: option.splits thread_end.splits)
  then show ?thesis by (simp add: join_threads_def)
qed

text \<open>
  The exit code of the connector program: it is 0 exactly when there are three arguments, the URL has
  one of the two protocols, and every thread has printed a response to each of its requests. An
  error in any thread ends the program by an exception.
\<close>

theorem connector_main_exit_zero:
  "connector_main prep Z P B T T' met argv = Some (Exit 0) \<longleftrightarrow>
     (let uri = ParsedURI (argv ! 1); req = make_request prep uri; n = atoi (argv ! 2); r = atoi (argv ! 3);
          ts = (if protocol uri = ''http'' then start_connector_threads Z P B T met (domain uri) (uri_port uri) req n r
                else start_connector_threads Z P B T' met (domain uri) (uri_port uri) req n r)
      in length argv = 4 \<and> protocol uri \<in> {''http'', ''https''} \<and> length ts = nat n \<and>
         list_all (\<lambda>t. \<exists>out. t = Some (Thread_done out) \<and> length out = nat r) ts)"
proof -
  have len: "length (start_connector_threads Z P B T met h p req n r) = nat n" for Z P B T met h p req n r
    by (simp add: start_connector_threads_def)
  have ok: "list_all (\<lambda>t. \<exists>out. t = Some (Thread_done out)) (start_connector_threads Z P B T met h p req n r) \<longleftrightarrow>
      list_all (\<lambda>t. \<exists>out. t = Some (Thread_done out) \<and> length out = nat r) (start_connector_threads Z P B T met h p req n r)"
    for Z P B T met h p req n r
    by (force simp: start_connector_threads_def list_all_iff dest: connector_thread_done)
  show ?thesis
    by (simp add: connector_main_def run_main_def Let_def join_threads_zero len flip: ok)
qed

text \<open>What the laws of the two streams give for the sessions of the threads.\<close>

definition sound_stream :: "base_socket http_stream \<Rightarrow> bool" where
  "sound_stream S \<longleftrightarrow> (\<exists>A E C L. S = tcp_stream A E C \<and> calls_complete C \<or> S = ssl_stream A L \<and> layer_completes L)"

lemma sound_perform:
  assumes "sound_stream S" and "serializer_ok Z view" and "armed (h_stream h)"
    and "perform_default S Z P B i now request err h = Some (Inr (err', resp), wire, h')"
  shows "(resp = None) = is_error err' \<and> armed (h_stream h')"
proof -
  obtain A E C L where S: "S = tcp_stream A E C \<and> calls_complete C \<or> S = ssl_stream A L \<and> layer_completes L"
    using assms(1) unfolding sound_stream_def by blast
  show ?thesis
    using either_stream_perform(1,3) [OF assms(2,3) S assms(4) [unfolded perform_default_def perform_timeout_def]] by blast
qed

lemma got_session:
  assumes "get_session_throw_default locks now p = (Inr h, p')"
  obtains t rest where "sesson_pool p = (t, h) # rest" "p' = p\<lparr>sesson_pool := rest\<rparr>"
  using assms
  by (auto simp: get_session_throw_default_def get_session_throw_def get_session_until_def pool_defs
      split: list.splits if_splits)

lemma refused_session:
  assumes "get_session_throw_default locks now p = (Inl x, p')"
  shows "p' = p \<and> (\<exists>ec. get_session (locks (tick_add now (pool_connect_timeout p))) Success p = ((None, ec), p))"
  using assms
  by (auto simp: get_session_throw_default_def get_session_throw_def get_session_until_def deadline_of_def pool_defs
      split: list.splits if_splits)

text \<open>
  A pool thread dereferences no empty response: over either stream it prints an error or a response
  for each request, one line per request when it is done, whatever the previous requests of the
  session met.
\<close>

theorem pool_thread_prints:
  assumes "sound_stream (pe_stream T)" and "serializer_ok Z view"
    and "list_all (\<lambda>(t, h). armed (h_stream h)) (sesson_pool p)"
    and "pool_thread lay Z P B request n T p = (Some e, p')"
  shows "Printed_undefined \<notin> set (outputs e) \<and> (\<forall>out. e = Thread_done out \<longrightarrow> length out = nat n)"
proof (cases "fst (get_session_throw_default (pe_locks T) (pe_now T) p)")
  case (Inl x)
  with assms(4) show ?thesis by (auto simp: pool_thread_def split: prod.splits)
next
  case (Inr h)
  let ?perf = "\<lambda>j err. perform_default (pe_stream T) Z P B (pe_first T j) (pe_clock T j) request err"
  obtain q where g: "get_session_throw_default (pe_locks T) (pe_now T) p = (Inr h, q)"
    using Inr by (metis prod.collapse)
  then have "armed (h_stream h)" using assms(3) by (auto elim!: got_session)
  moreover obtain h' where "pool_requests ?perf [0..<nat n] Success [] h = Some (e, h')"
    using assms(4) g by (auto simp: pool_thread_def split: option.splits thread_end.splits)
  ultimately show ?thesis
    using pool_requests_printed [where ok = "\<lambda>h. armed (h_stream h)" and perf = ?perf and js = "[0..<nat n]" and out = "[]",
        OF _ _ _ sound_perform [OF assms(1,2)]] by simp
qed

definition sample_request :: http_request where
  "sample_request = \<lparr>rq_version = 11, rq_method = ''POST'', rq_target = ''/'', rq_fields = [], rq_body = ''''\<rparr>"

definition sample_http_pool :: "(nat, (base_socket, byte list) http_socket) pool" where
  "sample_http_pool = sample_pool_met (example_pool 1 ''localhost'' ''80'') 0"

lemma sample_request_perform:
  "perform_default (tcp_stream linux_asio sample_env sample_stream_calls) body_serializer byte_parser list_buffer 0 (- 999000)
     sample_request Success sample_http = Some (Inr (Success, Some 42), [], \<lparr>h_stream = sample_socket, h_buffer = [43]\<rparr>)"
proof -
  have "tick_add (- 999000) (st_io_timeout (tcp_stream linux_asio sample_env sample_stream_calls) sample_socket) = 1000"
    by (simp add: tcp_stream_def sample_socket_def io_timeout_def tick_defs duration_defs)
  then show ?thesis
    by (simp add: perform_default_def perform_timeout_def perform_def send_request_def send_request_loop.simps recv_response_def
        Let_def recv_loop.simps body_serializer_def sample_request_def list_buffer_def byte_parser_def read_size_def sample_read)
qed

lemma sample_pool_thread:
  "pool_thread is_open body_serializer byte_parser list_buffer sample_request 1 sample_pool_env sample_http_pool =
     (Some (Thread_done [Printed_response 42]),
      sample_http_pool\<lparr>sesson_pool := [(7, \<lparr>h_stream = sample_socket, h_buffer = [43]\<rparr>)]\<rparr>)"
proof -
  have "get_session_throw_default (pe_locks sample_pool_env) (pe_now sample_pool_env) sample_http_pool =
      (Inr sample_http, sample_http_pool\<lparr>sesson_pool := []\<rparr>)"
    by (simp add: get_session_throw_default_def get_session_throw_def get_session_until_def pool_defs sample_http_pool_def
        sample_pool_met_def sample_pool_env_def)
  moreover have "is_open sample_socket" by (simp add: sample_socket_def is_open_def)
  ultimately show ?thesis
    by (simp add: pool_thread_def sample_request_perform sample_pool_env_def print_result_def return_session_def http_is_open_def
        http_next_layer_def)
qed

lemma sample_sound: "sound_stream (pe_stream sample_pool_env)"
  using sample_stream_calls_complete by (auto simp: sound_stream_def sample_pool_env_def)

theorem pool_thread_prints_witness:
  "pool_thread is_open body_serializer byte_parser list_buffer sample_request 1 sample_pool_env sample_http_pool =
     (Some (Thread_done [Printed_response 42]),
      sample_http_pool\<lparr>sesson_pool := [(7, \<lparr>h_stream = sample_socket, h_buffer = [43]\<rparr>)]\<rparr>) \<and>
   length [Printed_response (42 :: byte)] = nat 1"
proof -
  have "list_all (\<lambda>(t, h). armed (h_stream h)) (sesson_pool sample_http_pool)"
    by (simp add: sample_http_pool_def sample_pool_met_def)
  from pool_thread_prints [OF sample_sound body_serializer_ok this sample_pool_thread] sample_pool_thread
  show ?thesis by blast
qed

text \<open>
  C25. A pool thread is a run of the pool's machine: it is refused a session and changes nothing, or it takes the
  oldest session \<open>h\<close>; after the steps \<open>ms\<close> of the watcher and the other threads, on the pool as the take left it, it gives
  back that session as its requests left it, \<open>h'\<close>, which the pool keeps exactly when it is open and the lock was
  got in time; a thread that ends with an exception gives nothing back. So what the machine guarantees holds
  with any number of these threads.
\<close>

theorem pool_thread_is_run:
  fixes p p' :: "('ep, ('s, 'b) http_socket) pool"
  defines "st \<equiv> \<lambda>(p :: ('ep, ('s, 'b) http_socket) pool) t w. \<lparr>the_pool = p, clock = t, watcher = w\<rparr>"
  assumes "pool_thread lay Z P B request n T p = (Some e, p')"
    and "reqs = pool_requests (\<lambda>j err. perform_default (pe_stream T) Z P B (pe_first T j) (pe_clock T j) request err)
      [0..<nat n] Success []"
    and "pull = get_session_throw_default (pe_locks T) (pe_now T) p"
    and "\<forall>h q. pull = (Inr h, q) \<longrightarrow>
      pool_run (http_is_open lay) attempts ms (st q t w) (st (pe_others T q) (pe_later T) w')"
  shows "(\<exists>ec x. e = Thread_throws x [] \<and> p' = p \<and> pool_run (http_is_open lay) attempts [Refused ec] (st p t w) (st p t w)) \<or>
    (\<exists>h h' q x out. pull = (Inr h, q) \<and> e = Thread_throws x out \<and> reqs h = Some (e, h') \<and>
       pool_run (http_is_open lay) attempts (Took h # ms) (st p t w) (st p' (pe_later T) w')) \<or>
    (\<exists>h h' q out. pull = (Inr h, q) \<and> e = Thread_done out \<and> reqs h = Some (e, h') \<and>
       pool_run (http_is_open lay) attempts
         (Took h # ms @ [if http_is_open lay h' \<and> pe_locked T then Returned h' else Lost h'])
         (st p t w) (st p' (pe_later T) w'))"
proof (cases "fst (get_session_throw_default (pe_locks T) (pe_now T) p)")
  case (Inl x)
  then obtain q where g: "get_session_throw_default (pe_locks T) (pe_now T) p = (Inl x, q)" by (metis prod.collapse)
  from refused_session [OF g] obtain locked ec where r: "q = p" "get_session locked Success p = ((None, ec), p)" by blast
  have "pool_step (http_is_open lay) attempts (Refused ec) (st p t w) (st p t w)"
    using p_get_fails [of locked Success "st p t w" ec p] r(2) by (simp add: st_def)
  from pool_snoc [OF pool_nil this] show ?thesis
    using g r(1) assms(2) by (auto simp: pool_thread_def)
next
  case (Inr h)
  then obtain q where g: "get_session_throw_default (pe_locks T) (pe_now T) p = (Inr h, q)" by (metis prod.collapse)
  from g obtain s rest where s: "sesson_pool p = (s, h) # rest" "q = p\<lparr>sesson_pool := rest\<rparr>" by (rule got_session)
  have "pool_step (http_is_open lay) attempts (Took h) (st p t w) (st q t w)"
    using p_get [of True Success "st p t w" h Success q] s by (simp add: st_def pool_defs)
  then have took: "pool_run (http_is_open lay) attempts (Took h # ms) (st p t w) (st (pe_others T q) (pe_later T) w')"
    using pool_runs.run_step assms(4,5) g by blast
  have gives: "pool_run (http_is_open lay) attempts
      (Took h # ms @ [if http_is_open lay h' \<and> pe_locked T then Returned h' else Lost h']) (st p t w)
      (st (return_session (http_is_open lay) (pe_locked T) (pe_later T) (Some h') (pe_others T q)) (pe_later T) w')" for h'
    using pool_snoc [OF took p_return [of _ _ "pe_locked T" h']] by (simp add: st_def accepted_def)
  obtain h' where h': "reqs h = Some (e, h')"
    "p' = (case e of Thread_throws x out \<Rightarrow> pe_others T q
       | Thread_done out \<Rightarrow> return_session (http_is_open lay) (pe_locked T) (pe_later T) (Some h') (pe_others T q))"
    using assms(2) g by (auto simp: pool_thread_def assms(3) split: option.splits thread_end.splits)
  show ?thesis
  proof (cases e)
    case (Thread_throws x out)
    then show ?thesis using took h' g assms(4) by auto
  next
    case (Thread_done out)
    with h' gives [of h'] g assms(4) show ?thesis by (auto simp del: append_Cons split del: if_split)
  qed
qed

text \<open>An example: meanwhile another thread takes the second session, and the watcher purges the third.\<close>

abbreviation used_http :: "byte \<Rightarrow> (base_socket, byte list) http_socket" where
  "used_http b \<equiv> \<lparr>h_stream = sample_socket, h_buffer = [b]\<rparr>"

definition busy_pool :: "(nat, (base_socket, byte list) http_socket) pool" where
  "busy_pool = sample_http_pool\<lparr>sesson_pool := [(5, sample_http), (6, used_http 1), (7, used_http 2)]\<rparr>"

definition busy_env :: "(nat, base_socket, byte list) pool_env" where
  "busy_env = sample_pool_env\<lparr>pe_others := \<lambda>q. snd (purge 600000000 (snd (get_session True Success q))), pe_later := 600000000\<rparr>"

lemma busy_take:
  "get_session_throw_default (pe_locks busy_env) (pe_now busy_env) busy_pool =
     (Inr sample_http, busy_pool\<lparr>sesson_pool := [(6, used_http 1), (7, used_http 2)]\<rparr>)"
  by (simp add: get_session_throw_default_def get_session_throw_def get_session_until_def pool_defs busy_pool_def
      sample_http_pool_def sample_pool_met_def busy_env_def sample_pool_env_def)

lemma busy_others:
  "pe_others busy_env (busy_pool\<lparr>sesson_pool := [(6, used_http 1), (7, used_http 2)]\<rparr>) = busy_pool\<lparr>sesson_pool := []\<rparr>"
  by (simp add: busy_env_def pool_defs busy_pool_def sample_http_pool_def sample_pool_met_def example_pool_def tick_defs)

lemma busy_pool_thread:
  "pool_thread is_open body_serializer byte_parser list_buffer sample_request 1 busy_env busy_pool =
     (Some (Thread_done [Printed_response 42]), busy_pool\<lparr>sesson_pool := [(600000000, used_http 43)]\<rparr>)"
proof -
  have open_: "is_open sample_socket" by (simp add: sample_socket_def is_open_def)
  have env: "pe_stream busy_env = tcp_stream linux_asio sample_env sample_stream_calls" "pe_first busy_env = (\<lambda>j. 0)"
    "pe_clock busy_env = (\<lambda>j. - 999000)" "pe_locked busy_env" "pe_later busy_env = 600000000"
    by (simp_all add: busy_env_def sample_pool_env_def)
  show ?thesis
    by (simp add: pool_thread_def busy_take busy_others env open_ sample_request_perform print_result_def return_session_def
        http_is_open_def http_next_layer_def)
qed

theorem pool_thread_is_run_witness:
  "pool_run (http_is_open is_open) one_per_place
     [Took sample_http, Took (used_http 1), Evicted [used_http 2], Returned (used_http 43)]
     \<lparr>the_pool = busy_pool, clock = 600000000, watcher = W_loop\<rparr>
     \<lparr>the_pool = busy_pool\<lparr>sesson_pool := [(600000000, used_http 43)]\<rparr>, clock = 600000000, watcher = W_refill 1\<rparr>"
proof -
  let ?st = "\<lambda>p w. \<lparr>the_pool = p, clock = 600000000, watcher = w\<rparr>"
  let ?q = "busy_pool\<lparr>sesson_pool := [(6, used_http 1), (7, used_http 2)]\<rparr>"
  let ?q' = "busy_pool\<lparr>sesson_pool := [(7, used_http 2)]\<rparr>"
  have "pool_step (http_is_open is_open) one_per_place (Took (used_http 1)) (?st ?q W_loop) (?st ?q' W_loop)"
    using p_get [of True Success "?st ?q W_loop" "used_http 1" Success ?q'] by (simp add: pool_defs)
  moreover have "pool_step (http_is_open is_open) one_per_place (Evicted [used_http 2]) (?st ?q' W_loop)
      (?st (busy_pool\<lparr>sesson_pool := []\<rparr>) (W_refill 1))"
    using w_purge [of "?st ?q' W_loop" 1 "busy_pool\<lparr>sesson_pool := []\<rparr>"]
    by (simp add: pool_defs busy_pool_def sample_http_pool_def sample_pool_met_def example_pool_def tick_defs vacant_places_def)
  ultimately have ms: "pool_run (http_is_open is_open) one_per_place [Took (used_http 1), Evicted [used_http 2]] (?st ?q W_loop)
      (?st (pe_others busy_env ?q) (W_refill 1))"
    unfolding busy_others using pool_snoc [OF pool_snoc [OF pool_nil]] by fastforce
  have env: "pe_locked busy_env" "pe_later busy_env = 600000000" "http_is_open is_open (used_http 43)"
    "pe_stream busy_env = tcp_stream linux_asio sample_env sample_stream_calls" "pe_first busy_env = (\<lambda>j. 0)"
    "pe_clock busy_env = (\<lambda>j. - 999000)"
    by (simp_all add: busy_env_def sample_pool_env_def http_is_open_def http_next_layer_def is_open_def sample_socket_def)
  show ?thesis
    using pool_thread_is_run [OF busy_pool_thread refl refl, where ms = "[Took (used_http 1), Evicted [used_http 2]]" and t = 600000000
        and w = W_loop and w' = "W_refill 1" and attempts = one_per_place] ms
    by (simp add: busy_take env sample_request_perform)
qed

text \<open>
  A negative number of threads: no thread is started, but the pool is made for almost \<open>2 ^ 64\<close>
  sessions, and its watcher sets out to open that many.
\<close>

theorem negative_threads_pool:
  assumes "- (2 ^ 31) \<le> n" and "n < 0"
  shows "start_pool_threads lay Z P B T met h p request n r = [] \<and>
    int (unat (fst (purge now (example_pool n h p)))) = 2 ^ 64 + n"
proof -
  have "uint (word_of_int n :: 64 word) = n mod 2 ^ 64" by (simp add: uint_word_of_int)
  also have "\<dots> = 2 ^ 64 + n"
    using assms mod_add_self2 [of n "2 ^ 64"] mod_pos_pos_trivial [of "n + 2 ^ 64" "2 ^ 64"] by simp
  finally have u: "uint (word_of_int n :: 64 word) = 2 ^ 64 + n" .
  then have "(0 :: 64 word) < word_of_int n" using assms by (simp add: word_less_def)
  with u show ?thesis
    using assms by (simp add: start_pool_threads_def purge_def example_pool_def pool_ctor_def vacant_places_def)
qed

theorem negative_threads_pool_witness:
  "int (unat (fst (purge 0 (example_pool (atoi ''-1'') ''localhost'' ''80'' :: (nat, nat) pool)))) = 2 ^ 64 + - 1"
proof -
  have "atoi ''-1'' = - 1" by code_simp
  then show ?thesis using negative_threads_pool [THEN conjunct2, of "atoi ''-1''"] by auto
qed

end
