(* ===== verification/Logger.thy ===== *)
theory Logger
  imports Prelude
begin

text \<open>
  The logger (\<open>logger.hpp\<close>, \<open>impl/logger.ipp\<close>): logger objects shared by pointers, one of them the
  library's, and the macros through which the library logs.

  The heap of logger objects is a list, a \<open>shared_ptr\<close> an index into it (\<open>None\<close> is the null pointer);
  what has been printed or handed to a callback is the list of events. An access outside
  \<open>kLevelPrefixes\<close> is undefined behaviour in C++ and an event of its own here. The two logger classes of
  the library are modelled; \<open>put_time\<close> of the wall clock is the argument \<open>stamp\<close>.
\<close>

section \<open>Levels\<close>

datatype log_level = Mute | Trace | Debug | Info | Warning | Error

fun level_int :: "log_level \<Rightarrow> int" where
  "level_int Mute = - 1"
| "level_int Trace = 0"
| "level_int Debug = 1"
| "level_int Info = 2"
| "level_int Warning = 3"
| "level_int Error = 4"

lemma level_int_inj [simp]: "level_int a = level_int b \<longleftrightarrow> a = b"
  by (cases a; cases b) simp_all

text \<open>An \<open>enum class\<close> is compared by its underlying integers.\<close>

instantiation log_level :: linorder
begin

definition less_eq_log_level :: "log_level \<Rightarrow> log_level \<Rightarrow> bool" where
  "less_eq_log_level a b \<longleftrightarrow> level_int a \<le> level_int b"

definition less_log_level :: "log_level \<Rightarrow> log_level \<Rightarrow> bool" where
  "less_log_level a b \<longleftrightarrow> level_int a < level_int b"

instance
  by standard (auto simp: less_eq_log_level_def less_log_level_def)

end

section \<open>Logger objects\<close>

text \<open>What \<open>message\<close> does: print, call the callback with this name, or nothing (an empty \<open>std::function\<close>).\<close>

datatype log_target = Cout | Callback nat | Empty_callback

record log_object =
  level :: log_level
  target :: log_target

datatype log_event = Printed string | Called nat log_level string string | Out_of_bounds

record log_world =
  loggers :: "log_object list"
  glob_instance :: nat
  events :: "log_event list"

definition base_logger :: "log_level \<Rightarrow> log_target \<Rightarrow> log_object" where
  "base_logger l t = \<lparr>level = l, target = t\<rparr>"

definition set_level :: "log_level \<Rightarrow> log_object \<Rightarrow> log_object" where
  "set_level l logger = logger\<lparr>level := l\<rparr>"

definition get_level :: "log_object \<Rightarrow> log_level" where
  "get_level logger = level logger"

definition func_logger :: "log_level \<Rightarrow> nat option \<Rightarrow> log_object" where
  "func_logger l log_func = base_logger l (case log_func of None \<Rightarrow> Empty_callback | Some f \<Rightarrow> Callback f)"

definition cout_logger :: "log_level \<Rightarrow> log_object" where
  "cout_logger l = base_logger l Cout"

definition kLevelPrefixes :: "string list" where
  "kLevelPrefixes = [''TRACE'', ''DEBUG'', ''INFO'', ''WARNING'', ''ERROR'']"

definition cout_message :: "string \<Rightarrow> log_level \<Rightarrow> string \<Rightarrow> string \<Rightarrow> log_event list" where
  "cout_message stamp l location msg =
     (if 0 \<le> level_int l \<and> level_int l < int (length kLevelPrefixes) then
        [Printed (stamp @ '': '' @ kLevelPrefixes ! nat (level_int l) @ '': '' @ location @ '': '' @ msg @ [CHR 0x0A])]
      else [Out_of_bounds])"

definition func_message :: "nat \<Rightarrow> log_level \<Rightarrow> string \<Rightarrow> string \<Rightarrow> log_event list" where
  "func_message f l location msg = [Called f l location msg]"

text \<open>The virtual \<open>message\<close>.\<close>

definition message :: "string \<Rightarrow> log_object \<Rightarrow> log_level \<Rightarrow> string \<Rightarrow> string \<Rightarrow> log_event list" where
  "message stamp logger l location msg =
     (case target logger of
        Cout \<Rightarrow> cout_message stamp l location msg
      | Callback f \<Rightarrow> func_message f l location msg
      | Empty_callback \<Rightarrow> [])"

section \<open>The library's logger\<close>

text \<open>The static in \<open>logger_instance\<close> starts as a \<open>cout_logger\<close> at the trace level.\<close>

definition log_init :: log_world where
  "log_init = \<lparr>loggers = [cout_logger Trace], glob_instance = 0, events = []\<rparr>"

definition make_logger :: "log_object \<Rightarrow> log_world \<Rightarrow> nat \<times> log_world" where
  "make_logger logger w = (length (loggers w), w\<lparr>loggers := loggers w @ [logger]\<rparr>)"

definition logger_instance :: "nat option \<Rightarrow> log_world \<Rightarrow> nat \<times> log_world" where
  "logger_instance new_logger w =
     (case new_logger of
        None \<Rightarrow> (glob_instance w, w)
      | Some i \<Rightarrow> (i, w\<lparr>glob_instance := i\<rparr>))"

definition set_logger :: "nat option \<Rightarrow> log_world \<Rightarrow> log_world" where
  "set_logger logger w = snd (logger_instance logger w)"

definition set_logger_func :: "log_level \<Rightarrow> nat option \<Rightarrow> log_world \<Rightarrow> log_world" where
  "set_logger_func l log_func w =
     (case make_logger (func_logger l log_func) w of (i, w') \<Rightarrow> snd (logger_instance (Some i) w'))"

definition set_log_level :: "log_level \<Rightarrow> log_world \<Rightarrow> log_world" where
  "set_log_level l w =
     (case logger_instance None w of
        (i, w') \<Rightarrow> w'\<lparr>loggers := (loggers w')[i := set_level l (loggers w' ! i)]\<rparr>)"

definition get_log_level :: "log_world \<Rightarrow> log_level" where
  "get_log_level w = (case logger_instance None w of (i, w') \<Rightarrow> get_level (loggers w' ! i))"

definition log_message :: "string \<Rightarrow> log_level \<Rightarrow> string \<Rightarrow> string \<Rightarrow> log_world \<Rightarrow> log_world" where
  "log_message stamp l location msg w =
     (case logger_instance None w of
        (i, w') \<Rightarrow> w'\<lparr>events := events w' @ message stamp (loggers w' ! i) l location msg\<rparr>)"

text \<open>The macro: \<open>msg\<close> is evaluated only when the level is enough, hence a function.\<close>

definition stream_log_call ::
  "string \<Rightarrow> log_level \<Rightarrow> string \<Rightarrow> nat \<Rightarrow> (unit \<Rightarrow> string) \<Rightarrow> log_world \<Rightarrow> log_world" where
  "stream_log_call stamp l file line msg w =
     (case logger_instance None w of
        (i, w') \<Rightarrow>
          if get_level (loggers w' ! i) \<le> l then
            w'\<lparr>events := events w' @ message stamp (loggers w' ! i) l (file @ '':'' @ to_string line) (msg ())\<rparr>
          else w')"

text \<open>The five macros of the library.\<close>

definition stream_log_error :: "string \<Rightarrow> string \<Rightarrow> nat \<Rightarrow> (unit \<Rightarrow> string) \<Rightarrow> log_world \<Rightarrow> log_world" where
  "stream_log_error stamp = stream_log_call stamp Error"

definition stream_log_warn :: "string \<Rightarrow> string \<Rightarrow> nat \<Rightarrow> (unit \<Rightarrow> string) \<Rightarrow> log_world \<Rightarrow> log_world" where
  "stream_log_warn stamp = stream_log_call stamp Warning"

definition stream_log_info :: "string \<Rightarrow> string \<Rightarrow> nat \<Rightarrow> (unit \<Rightarrow> string) \<Rightarrow> log_world \<Rightarrow> log_world" where
  "stream_log_info stamp = stream_log_call stamp Info"

definition stream_log_debug :: "string \<Rightarrow> string \<Rightarrow> nat \<Rightarrow> (unit \<Rightarrow> string) \<Rightarrow> log_world \<Rightarrow> log_world" where
  "stream_log_debug stamp = stream_log_call stamp Debug"

definition stream_log_trace :: "string \<Rightarrow> string \<Rightarrow> nat \<Rightarrow> (unit \<Rightarrow> string) \<Rightarrow> log_world \<Rightarrow> log_world" where
  "stream_log_trace stamp = stream_log_call stamp Trace"

section \<open>Well-formedness\<close>

definition log_ok :: "log_world \<Rightarrow> bool" where
  "log_ok w \<longleftrightarrow> glob_instance w < length (loggers w)"

lemmas log_defs =
  base_logger_def set_level_def get_level_def func_logger_def cout_logger_def make_logger_def
  logger_instance_def set_logger_def set_logger_func_def set_log_level_def get_log_level_def log_message_def
  stream_log_call_def log_ok_def

definition current :: "log_world \<Rightarrow> log_object" where
  "current w = loggers w ! glob_instance w"

lemma set_log_level_current:
  "log_ok w \<Longrightarrow> current (set_log_level l w) = (current w)\<lparr>level := l\<rparr>"
  by (simp add: log_defs current_def)

text \<open>One call of a macro, as an update of the events.\<close>

lemma log_call_event:
  "stream_log_call stamp l file line msg w =
     (if level (current w) \<le> l
      then w\<lparr>events := events w @ message stamp (current w) l (file @ '':'' @ to_string line) (msg ())\<rparr> else w)"
  by (simp add: log_defs current_def)

lemma current_events [simp]: "current (w\<lparr>events := es\<rparr>) = current w"
  by (simp add: current_def)

lemma current_set_logger_func [simp]:
  "current (set_logger_func l (Some f) w) = \<lparr>level = l, target = Callback f\<rparr>" "events (set_logger_func l g w) = events w"
  by (simp_all add: log_defs current_def)

section \<open>Properties\<close>

text \<open>
  What the macros log: one event, at the file and line of the call, exactly when the current
  level is at or below the level of the call (and the logger has somewhere to put it); otherwise
  nothing at all happens and the message is not even built. The loggers are never changed.
\<close>

theorem log_call_filters:
  "stream_log_call stamp l file line msg w =
     (if get_log_level w \<le> l
      then w\<lparr>events := events w @ message stamp (current w) l (file @ '':'' @ to_string line) (msg ())\<rparr>
      else w) \<and>
   length (message stamp (current w) l loc m) = (if target (current w) = Empty_callback then 0 else 1)"
  by (auto simp: log_defs current_def message_def cout_message_def func_message_def split: log_target.splits)

text \<open>
  Setting the level: it is the level read back, it decides from then on which calls log, it is the
  level of the shared logger object (whoever else holds a pointer to it sees the change), and no
  other logger is affected.
\<close>

theorem set_log_level_roundtrip:
  assumes "log_ok w"
  shows "get_log_level (set_log_level l w) = l \<and> log_ok (set_log_level l w) \<and>
    get_level (loggers (set_log_level l w) ! glob_instance w) = l \<and>
    (\<forall>i. i \<noteq> glob_instance w \<longrightarrow> loggers (set_log_level l w) ! i = loggers w ! i) \<and>
    (get_log_level (stream_log_call stamp l' file line msg (set_log_level l w)) = l)"
  using assms by (auto simp: log_defs)

theorem set_log_level_roundtrip_witness:
  "get_log_level (set_log_level Warning log_init) = Warning"
  using set_log_level_roundtrip [of log_init Warning] by (simp add: log_ok_def log_init_def)

text \<open>
  The level \<open>mute\<close>, which is below every other one, silences nothing: after setting it every call
  of every macro level logs, also those that logged nothing before.
\<close>

theorem mute_logs_everything:
  assumes "log_ok w"
  shows "stream_log_call stamp l file line msg (set_log_level Mute w) =
    log_message stamp l (file @ '':'' @ to_string line) (msg ()) (set_log_level Mute w)"
proof -
  have "Mute \<le> l" by (cases l) (simp_all add: less_eq_log_level_def)
  then show ?thesis using assms by (simp add: log_defs)
qed

lemma to_string_19: "to_string 19 = ''19''"
  by code_simp

theorem mute_logs_everything_witness:
  "events (stream_log_call [] Trace ''pool.ipp'' 19 (\<lambda>_. ''made'') (set_log_level Mute log_init)) =
     [Printed '': TRACE: pool.ipp:19: made\<newline>'']"
  using mute_logs_everything [of log_init "[]" Trace "''pool.ipp''" 19 "\<lambda>_. ''made''"]
  by (simp add: log_defs log_init_def message_def cout_message_def kLevelPrefixes_def to_string_19)

text \<open>
  Setting loggers: a callback logger becomes the library's logger with its level and gets every
  later message, the previous logger none; a null pointer changes nothing, so the logger set before
  stays in place.
\<close>

theorem set_logger_effect:
  "set_logger None w = w \<and>
   current (set_logger_func l (Some f) w) = \<lparr>level = l, target = Callback f\<rparr> \<and>
   log_ok (set_logger_func l (Some f) w) \<and> get_log_level (set_logger_func l (Some f) w) = l \<and>
   events (log_message stamp l' loc m (set_logger_func l (Some f) w)) = events w @ [Called f l' loc m]"
  by (simp add: log_defs current_def message_def func_message_def)

text \<open>
  The cout logger reads outside its table of prefixes exactly for a message of level \<open>mute\<close>; every
  other message is one line that names the level.
\<close>

theorem cout_message_bounds:
  "cout_message stamp l location msg = [Out_of_bounds] \<longleftrightarrow> l = Mute"
  by (cases l) (simp_all add: cout_message_def kLevelPrefixes_def)

section \<open>Documentation and tests\<close>

text \<open>
  The documentation of the five macros: the message is logged if the current level is at least that of
  the macro, and is not constructed otherwise.
\<close>

definition log_macro_documented :: "log_level \<Rightarrow> log_level \<Rightarrow> bool \<Rightarrow> bool" where
  "log_macro_documented current_level l logged \<longleftrightarrow> logged = (l \<le> current_level)"

text \<open>
  The comparison is the other way round in the code, so a macro does what its documentation says only
  when the current level is its own level.
\<close>

theorem log_macro_documented_iff:
  "log_macro_documented (get_log_level w) l
     (stream_log_call stamp l file line msg w =
        w\<lparr>events := events w @ message stamp (current w) l (file @ '':'' @ to_string line) (msg ())\<rparr>) \<longleftrightarrow>
   get_log_level w = l \<or> (target (current w) = Empty_callback \<and> l \<le> get_log_level w)"
proof -
  let ?new = "message stamp (current w) l (file @ '':'' @ to_string line) (msg ())"
  have "?new = [] \<longleftrightarrow> target (current w) = Empty_callback"
    by (simp add: message_def cout_message_def func_message_def split: log_target.split)
  moreover have "w\<lparr>events := events w @ ?new\<rparr> = w \<longleftrightarrow> ?new = []"
    by (metis append.right_neutral append_self_conv log_world.select_convs(3) log_world.surjective log_world.update_convs(3))
  ultimately have "(stream_log_call stamp l file line msg w = w\<lparr>events := events w @ ?new\<rparr>) \<longleftrightarrow>
      get_log_level w \<le> l \<or> target (current w) = Empty_callback"
    by (auto simp: log_defs current_def)
  then show ?thesis by (auto simp: log_macro_documented_def)
qed

text \<open>
  The tests of the logger (\<open>tests/logger.cpp\<close>): a callback logger at the level of the test, then one call of
  each macro, in lines 79 to 83; and a \<open>cout_logger\<close> with the calls in the other order.
\<close>

fun level_text :: "log_level \<Rightarrow> string" where
  "level_text Mute = ''''"
| "level_text Trace = ''trace it''"
| "level_text Debug = ''this is a debug message''"
| "level_text Info = ''application started''"
| "level_text Warning = ''bad happens''"
| "level_text Error = ''invalid arguments''"

definition func_logger_test :: "log_level \<Rightarrow> log_world \<Rightarrow> log_world" where
  "func_logger_test l w =
     stream_log_trace [] ''logger.cpp'' 83 (\<lambda>_. level_text Trace)
      (stream_log_debug [] ''logger.cpp'' 82 (\<lambda>_. level_text Debug)
       (stream_log_info [] ''logger.cpp'' 81 (\<lambda>_. level_text Info)
        (stream_log_warn [] ''logger.cpp'' 80 (\<lambda>_. level_text Warning)
         (stream_log_error [] ''logger.cpp'' 79 (\<lambda>_. level_text Error) (set_logger_func l (Some 0) w)))))"

text \<open>The messages the test expects of the callback, most severe first.\<close>

definition expected_messages :: "log_event list" where
  "expected_messages =
     map (\<lambda>(l, line). Called 0 l (''logger.cpp:'' @ to_string line) (level_text l))
       [(Error, 79), (Warning, 80), (Info, 81), (Debug, 82), (Trace, 83)]"

text \<open>
  The expectations of the test hold at every level it is run with: at the level of value \<open>k\<close> the
  callback gets the first \<open>5 - k\<close> of the messages, with their places in the file; at \<open>mute\<close>, with which
  it is not run, it would get all of them.
\<close>

theorem func_logger_test_passes:
  "events (func_logger_test l w) =
     events w @ take (nat (5 - max 0 (level_int l))) expected_messages"
  by (cases l)
    (simp_all add: func_logger_test_def stream_log_error_def stream_log_warn_def stream_log_info_def
      stream_log_debug_def stream_log_trace_def log_call_event current_set_logger_func message_def func_message_def
      expected_messages_def less_eq_log_level_def eval_nat_numeral)

end
