(* ===== verification/Static_Allocator.thy ===== *)
theory Static_Allocator
  imports Prelude
begin

text \<open>
  The bump allocator (\<open>stream/detail/static_allocator.hpp\<close>): \<open>static_pool\<close>, a block of memory with a
  pointer that only moves forward until everything has been given back, and \<open>static_allocator\<close>, a
  reference-counted handle of such a pool.

  Addresses and sizes are 64-bit words. \<open>block\<close> is the address \<open>this + 1\<close>, where the usable memory
  starts. Allocator objects have addresses of their own, since \<open>operator==\<close> compares those of the
  members \<open>pool_\<close>; the heap maps pool addresses to pools, and a pool that has been deleted is not in it.
\<close>

section \<open>The pool\<close>

record static_pool =
  block :: "64 word"
  size_of_block :: "64 word"
  refs :: "64 word"
  count :: "64 word"
  next_free :: "64 word"

definition construct :: "64 word \<Rightarrow> 64 word \<Rightarrow> static_pool" where
  "construct addr n = \<lparr>block = addr, size_of_block = n, refs = 1, count = 0, next_free = addr\<rparr>"

definition share :: "static_pool \<Rightarrow> static_pool" where
  "share p = p\<lparr>refs := refs p + 1\<rparr>"

text \<open>\<open>destroy\<close> deletes the pool (\<open>None\<close>) when the last reference goes.\<close>

definition destroy :: "static_pool \<Rightarrow> static_pool option" where
  "destroy p = (let r = refs p - 1 in if r \<noteq> 0 then Some (p\<lparr>refs := r\<rparr>) else None)"

definition end_of_block :: "static_pool \<Rightarrow> 64 word" where
  "end_of_block p = block p + size_of_block p"

definition alloc :: "64 word \<Rightarrow> static_pool \<Rightarrow> exn + (64 word \<times> static_pool)" where
  "alloc n p =
     (let last = next_free p + n in
      if end_of_block p \<le> last then Inl Bad_alloc
      else Inr (next_free p, p\<lparr>count := count p + 1, next_free := last\<rparr>))"

definition dealloc :: "static_pool \<Rightarrow> static_pool" where
  "dealloc p =
     (let c = count p - 1 in
      if c \<noteq> 0 then p\<lparr>count := c\<rparr> else p\<lparr>count := c, next_free := block p\<rparr>)"

section \<open>The allocator\<close>

text \<open>
  The store: the pools by their address, and for each allocator object its member \<open>pool_\<close>. Operations
  that follow a dangling pointer have no result.
\<close>

record alloc_store =
  pools :: "nat \<rightharpoonup> static_pool"
  allocators :: "nat \<rightharpoonup> nat"

definition allocator_ctor :: "nat \<Rightarrow> nat \<Rightarrow> 64 word \<Rightarrow> 64 word \<Rightarrow> alloc_store \<Rightarrow> alloc_store" where
  "allocator_ctor a pid addr n st =
     st\<lparr>pools := (pools st)(pid \<mapsto> construct addr n), allocators := (allocators st)(a \<mapsto> pid)\<rparr>"

text \<open>The default constructor leaves \<open>pool_\<close> without a value: whatever \<open>garbage\<close> was in the memory.\<close>

definition allocator_default_ctor :: "nat \<Rightarrow> nat \<Rightarrow> alloc_store \<Rightarrow> alloc_store" where
  "allocator_default_ctor a garbage st = st\<lparr>allocators := (allocators st)(a \<mapsto> garbage)\<rparr>"

definition deref :: "nat \<Rightarrow> alloc_store \<Rightarrow> (nat \<times> static_pool) option" where
  "deref a st =
     (case allocators st a of
        None \<Rightarrow> None
      | Some pid \<Rightarrow> (case pools st pid of None \<Rightarrow> None | Some p \<Rightarrow> Some (pid, p)))"

text \<open>The copy constructors, also the converting one.\<close>

definition allocator_copy :: "nat \<Rightarrow> nat \<Rightarrow> alloc_store \<Rightarrow> alloc_store option" where
  "allocator_copy a other st =
     (case deref other st of
        None \<Rightarrow> None
      | Some (pid, p) \<Rightarrow> Some (st\<lparr>pools := (pools st)(pid \<mapsto> share p), allocators := (allocators st)(a \<mapsto> pid)\<rparr>))"

definition allocator_dtor :: "nat \<Rightarrow> alloc_store \<Rightarrow> alloc_store option" where
  "allocator_dtor a st =
     (case deref a st of
        None \<Rightarrow> None
      | Some (pid, p) \<Rightarrow> Some (st\<lparr>pools := (pools st)(pid := destroy p), allocators := (allocators st)(a := None)\<rparr>))"

text \<open>The class declares no copy assignment: the implicit one copies the pointer.\<close>

definition allocator_assign :: "nat \<Rightarrow> nat \<Rightarrow> alloc_store \<Rightarrow> alloc_store" where
  "allocator_assign a other st = st\<lparr>allocators := (allocators st)(a := allocators st other)\<rparr>"

definition allocate :: "64 word \<Rightarrow> nat \<Rightarrow> 64 word \<Rightarrow> alloc_store \<Rightarrow> (exn + 64 word \<times> alloc_store) option" where
  "allocate sizeof_T a n st =
     (case deref a st of
        None \<Rightarrow> None
      | Some (pid, p) \<Rightarrow>
          (case alloc (n * sizeof_T) p of
             Inl x \<Rightarrow> Some (Inl x)
           | Inr (ptr, p') \<Rightarrow> Some (Inr (ptr, st\<lparr>pools := (pools st)(pid \<mapsto> p')\<rparr>))))"

definition deallocate :: "nat \<Rightarrow> alloc_store \<Rightarrow> alloc_store option" where
  "deallocate a st =
     (case deref a st of
        None \<Rightarrow> None
      | Some (pid, p) \<Rightarrow> Some (st\<lparr>pools := (pools st)(pid \<mapsto> dealloc p)\<rparr>))"

definition allocator_eq :: "nat \<Rightarrow> nat \<Rightarrow> bool" where
  "allocator_eq lhs rhs \<longleftrightarrow> lhs = rhs"

definition allocator_neq :: "nat \<Rightarrow> nat \<Rightarrow> bool" where
  "allocator_neq lhs rhs \<longleftrightarrow> \<not> allocator_eq lhs rhs"

section \<open>Blocks of a pool\<close>

text \<open>
  A run of a pool: allocations and deallocations in any order, with the blocks handed out since the
  pool was last empty and the number of those not given back.
\<close>

datatype alloc_op = Alloc "64 word" | Dealloc

record alloc_trace =
  tr_pool :: static_pool
  tr_blocks :: "(nat \<times> nat) list"
  tr_live :: nat

definition trace_start :: "64 word \<Rightarrow> 64 word \<Rightarrow> alloc_trace" where
  "trace_start addr n = \<lparr>tr_pool = construct addr n, tr_blocks = [], tr_live = 0\<rparr>"

fun trace_op :: "alloc_op \<Rightarrow> alloc_trace \<Rightarrow> alloc_trace option" where
  "trace_op (Alloc n) tr =
     (case alloc n (tr_pool tr) of
        Inl x \<Rightarrow> Some tr
      | Inr (ptr, p) \<Rightarrow>
          Some \<lparr>tr_pool = p, tr_blocks = (unat ptr, unat ptr + unat n) # tr_blocks tr, tr_live = Suc (tr_live tr)\<rparr>)"
| "trace_op Dealloc tr =
     (case tr_live tr of
        0 \<Rightarrow> None
      | Suc k \<Rightarrow> Some \<lparr>tr_pool = dealloc (tr_pool tr), tr_blocks = (if k = 0 then [] else tr_blocks tr), tr_live = k\<rparr>)"

fun trace_ops :: "alloc_op list \<Rightarrow> alloc_trace \<Rightarrow> alloc_trace option" where
  "trace_ops [] tr = Some tr"
| "trace_ops (x # xs) tr = (case trace_op x tr of None \<Rightarrow> None | Some tr' \<Rightarrow> trace_ops xs tr')"

text \<open>
  The memory of the pool does not wrap around the address space, and neither does the end of a
  requested block, counted from any address of the pool. Requests larger than the pool are among them.
\<close>

definition block_ok :: "64 word \<Rightarrow> 64 word \<Rightarrow> bool" where
  "block_ok addr n \<longleftrightarrow> unat addr + unat n < 2 ^ 64"

fun op_ok :: "64 word \<Rightarrow> 64 word \<Rightarrow> alloc_op \<Rightarrow> bool" where
  "op_ok addr n (Alloc m) = (unat addr + unat n + unat m < 2 ^ 64)"
| "op_ok addr n Dealloc = True"

fun descending :: "nat \<Rightarrow> nat \<Rightarrow> (nat \<times> nat) list \<Rightarrow> bool" where
  "descending lo hi [] = (lo \<le> hi)"
| "descending lo hi ((a, b) # bs) = (b \<le> hi \<and> a \<le> b \<and> descending lo a bs)"

definition trace_inv :: "64 word \<Rightarrow> 64 word \<Rightarrow> alloc_trace \<Rightarrow> bool" where
  "trace_inv addr n tr \<longleftrightarrow>
     block (tr_pool tr) = addr \<and> size_of_block (tr_pool tr) = n \<and>
     unat addr \<le> unat (next_free (tr_pool tr)) \<and> unat (next_free (tr_pool tr)) \<le> unat addr + unat n \<and>
     count (tr_pool tr) = of_nat (tr_live tr) \<and>
     (tr_live tr = 0 \<longrightarrow> next_free (tr_pool tr) = addr \<and> tr_blocks tr = []) \<and>
     tr_live tr \<le> length (tr_blocks tr) \<and>
     descending (unat addr) (unat (next_free (tr_pool tr))) (tr_blocks tr)"

lemma alloc_exact:
  assumes "block_ok (block p) (size_of_block p)" and "unat (next_free p) + unat m < 2 ^ 64"
  shows "unat (next_free p + m) = unat (next_free p) + unat m"
    and "unat (end_of_block p) = unat (block p) + unat (size_of_block p)"
    and "alloc m p =
      (if unat (next_free p) + unat m < unat (block p) + unat (size_of_block p)
       then Inr (next_free p, p\<lparr>count := count p + 1, next_free := next_free p + m\<rparr>) else Inl Bad_alloc)"
proof -
  show 1: "unat (next_free p + m) = unat (next_free p) + unat m"
    and 2: "unat (end_of_block p) = unat (block p) + unat (size_of_block p)"
    using assms by (simp_all add: block_ok_def end_of_block_def unat_word_ariths)
  show "alloc m p =
      (if unat (next_free p) + unat m < unat (block p) + unat (size_of_block p)
       then Inr (next_free p, p\<lparr>count := count p + 1, next_free := next_free p + m\<rparr>) else Inl Bad_alloc)"
    by (simp add: alloc_def Let_def word_le_nat_alt 1 2)
qed

lemma of_nat_word64_eq_0: "k < 2 ^ 64 \<Longrightarrow> (of_nat k :: 64 word) = 0 \<longleftrightarrow> k = 0"
  by (auto simp: word_of_nat_eq_0_iff dest: nat_dvd_not_less)

lemma trace_op_inv:
  assumes "trace_inv addr n tr" and "block_ok addr n" and "op_ok addr n x" and "tr_live tr < 2 ^ 64"
    and "trace_op x tr = Some tr'"
  shows "trace_inv addr n tr' \<and> tr_live tr' \<le> Suc (tr_live tr)"
proof (cases x)
  case (Alloc m)
  have "block (tr_pool tr) = addr" "size_of_block (tr_pool tr) = n"
    "unat (next_free (tr_pool tr)) + unat m < 2 ^ 64"
    using assms(1,3) Alloc by (simp_all add: trace_inv_def)
  with alloc_exact [of "tr_pool tr" m] assms(2)
  have ex: "unat (next_free (tr_pool tr) + m) = unat (next_free (tr_pool tr)) + unat m"
    "alloc m (tr_pool tr) = (if unat (next_free (tr_pool tr)) + unat m < unat addr + unat n
       then Inr (next_free (tr_pool tr), (tr_pool tr)\<lparr>count := count (tr_pool tr) + 1,
              next_free := next_free (tr_pool tr) + m\<rparr>) else Inl Bad_alloc)"
    by simp_all
  then show ?thesis
    using assms(1,5) Alloc by (auto simp: trace_inv_def split: if_splits)
next
  case Dealloc
  then obtain k where k: "tr_live tr = Suc k"
    using assms(5) by (auto split: nat.splits)
  then have tr': "tr' = \<lparr>tr_pool = dealloc (tr_pool tr), tr_blocks = (if k = 0 then [] else tr_blocks tr), tr_live = k\<rparr>"
    using assms(5) Dealloc by simp
  have "count (tr_pool tr) - 1 = of_nat k" using assms(1) k by (simp add: trace_inv_def)
  moreover have "(of_nat k :: 64 word) = 0 \<longleftrightarrow> k = 0" using assms(4) k by (intro of_nat_word64_eq_0) simp
  ultimately have "dealloc (tr_pool tr) =
      (if k = 0 then (tr_pool tr)\<lparr>count := 0, next_free := block (tr_pool tr)\<rparr>
       else (tr_pool tr)\<lparr>count := of_nat k\<rparr>)"
    by (simp add: dealloc_def Let_def)
  then show ?thesis using assms(1) k unfolding tr' by (auto simp: trace_inv_def)
qed

lemma trace_ops_inv:
  assumes "trace_inv addr n tr" and "block_ok addr n" and "list_all (op_ok addr n) xs"
    and "tr_live tr + length xs < 2 ^ 64" and "trace_ops xs tr = Some tr'"
  shows "trace_inv addr n tr'"
  using assms
proof (induction xs arbitrary: tr)
  case (Cons x xs)
  then obtain tr1 where tr1: "trace_op x tr = Some tr1" "trace_ops xs tr1 = Some tr'"
    by (auto split: option.splits)
  have "trace_inv addr n tr1 \<and> tr_live tr1 \<le> Suc (tr_live tr)"
    by (rule trace_op_inv [OF Cons.prems(1,2) _ _ tr1(1)]) (use Cons.prems(3,4) in simp_all)
  with Cons.IH [of tr1] Cons.prems tr1(2) show ?case by simp
qed simp

lemma trace_start_inv: "trace_inv addr n (trace_start addr n)"
  by (simp add: trace_inv_def trace_start_def construct_def)

lemma descending_disjoint:
  assumes "descending lo hi bs"
  shows "lo \<le> hi \<and> (\<forall>(a, b) \<in> set bs. lo \<le> a \<and> a \<le> b \<and> b \<le> hi) \<and>
    (\<forall>i j. i < j \<and> j < length bs \<longrightarrow> snd (bs ! j) \<le> fst (bs ! i))"
  using assms
proof (induction bs arbitrary: hi)
  case (Cons x bs)
  obtain a b where x: "x = (a, b)" by (cases x)
  with Cons.prems have hyp: "b \<le> hi" "a \<le> b" and d: "descending lo a bs" by simp_all
  note IH = Cons.IH [OF d]
  have "snd ((x # bs) ! j) \<le> fst ((x # bs) ! i)" if "i < j" "j < length (x # bs)" for i j
  proof (cases i)
    case 0
    have "bs ! (j - 1) \<in> set bs" using that by simp
    with IH have "snd (bs ! (j - 1)) \<le> a" by (cases "bs ! (j - 1)") auto
    with 0 that x show ?thesis by simp
  next
    case (Suc i')
    with IH that show ?thesis by (cases j) simp_all
  qed
  moreover have "\<forall>(a, b) \<in> set (x # bs). lo \<le> a \<and> a \<le> b \<and> b \<le> hi"
    using IH hyp x by fastforce
  ultimately show ?case using IH hyp by auto
qed simp

section \<open>Reference counts\<close>

text \<open>Every pool in the heap has as many references as there are allocators that point to it, and is pointed to.\<close>

definition pointing :: "nat \<Rightarrow> (nat \<rightharpoonup> nat) \<Rightarrow> nat set" where
  "pointing pid al = {a. al a = Some pid}"

definition store_ok :: "alloc_store \<Rightarrow> bool" where
  "store_ok st \<longleftrightarrow>
     finite (dom (allocators st)) \<and> card (dom (allocators st)) < 2 ^ 64 \<and>
     (\<forall>a pid. allocators st a = Some pid \<longrightarrow> pid \<in> dom (pools st)) \<and>
     (\<forall>pid p. pools st pid = Some p \<longrightarrow>
        unat (refs p) = card (pointing pid (allocators st)) \<and> pointing pid (allocators st) \<noteq> {})"

lemma pointing_add: "al a = None \<Longrightarrow> pointing q (al(a \<mapsto> pid)) = (if q = pid then insert a (pointing q al) else pointing q al)"
  by (auto simp: pointing_def)

lemma pointing_remove: "pointing q (al(a := None)) = pointing q al - {a}"
  by (auto simp: pointing_def)

lemma pointing_iff: "a \<in> pointing q al \<longleftrightarrow> al a = Some q"
  by (simp add: pointing_def)

lemma pointing_finite: "store_ok st \<Longrightarrow> finite (pointing pid (allocators st))"
  by (rule finite_subset [of _ "dom (allocators st)"]) (auto simp: store_ok_def pointing_def)

lemma pointing_card: "store_ok st \<Longrightarrow> card (pointing pid (allocators st)) \<le> card (dom (allocators st))"
  by (rule card_mono) (auto simp: store_ok_def pointing_def)

lemma dom_add: "store_ok st \<Longrightarrow> allocators st a = None \<Longrightarrow>
    card (dom ((allocators st)(a \<mapsto> pid))) = card (dom (allocators st)) + 1"
  by (simp add: store_ok_def domIff)

lemma store_ok_ctor:
  assumes "store_ok st" and "allocators st a = None" and "pools st pid = None"
    and "card (dom (allocators st)) + 1 < 2 ^ 64"
  shows "store_ok (allocator_ctor a pid addr n st)"
proof -
  have "pointing pid (allocators st) = {}"
    using assms(1,3) by (auto simp: store_ok_def pointing_def)
  then show ?thesis
    using assms dom_add [OF assms(1,2), of pid]
    by (auto simp: store_ok_def allocator_ctor_def construct_def pointing_add split: if_splits)
qed

lemma store_ok_copy:
  assumes "store_ok st" and "allocators st a = None" and "allocator_copy a b st = Some st'"
    and "card (dom (allocators st)) + 1 < 2 ^ 64"
  shows "store_ok st'"
proof -
  obtain pid p where b: "allocators st b = Some pid" "pools st pid = Some p"
    "st' = st\<lparr>pools := (pools st)(pid \<mapsto> share p), allocators := (allocators st)(a \<mapsto> pid)\<rparr>"
    using assms(3) by (auto simp: allocator_copy_def deref_def split: option.splits)
  let ?A = "pointing pid (allocators st)"
  have "unat (refs p) = card ?A" "card ?A + 1 < 2 ^ 64"
    using assms(1,4) b(2) pointing_card [OF assms(1), of pid] by (auto simp: store_ok_def)
  then have "unat (refs p + 1) = card ?A + 1"
    by (simp add: unat_word_ariths)
  moreover have "card (insert a ?A) = card ?A + 1"
    using assms(2) pointing_finite [OF assms(1)] by (simp add: pointing_iff)
  ultimately show ?thesis
    using assms(1,2,4) b dom_add [OF assms(1,2), of pid]
    by (auto simp: store_ok_def share_def pointing_add split: if_splits)
qed

lemma destroy_pointing:
  assumes "store_ok st" and "allocators st a = Some q" and "pools st q = Some p"
  shows "unat (refs p - 1) = card (pointing q (allocators st) - {a})"
    and "destroy p = (if pointing q (allocators st) = {a} then None else Some (p\<lparr>refs := refs p - 1\<rparr>))"
proof -
  let ?A = "pointing q (allocators st)"
  have fin: "finite ?A" and mem: "a \<in> ?A" using pointing_finite [OF assms(1)] assms(2) by (simp_all add: pointing_iff)
  then have "1 \<le> card ?A" by (metis Suc_leI One_nat_def card_gt_0_iff empty_iff)
  moreover have "unat (refs p) = card ?A" using assms(1,3) by (simp add: store_ok_def)
  ultimately show r: "unat (refs p - 1) = card (?A - {a})"
    using fin mem by (simp add: unat_sub word_le_nat_alt)
  have "refs p - 1 = 0 \<longleftrightarrow> ?A - {a} = {}"
    using r fin by (metis card_0_eq finite_Diff unat_eq_0)
  with mem show "destroy p = (if ?A = {a} then None else Some (p\<lparr>refs := refs p - 1\<rparr>))"
    by (auto simp: destroy_def Let_def)
qed

lemma store_ok_dtor:
  assumes "store_ok st" and "allocator_dtor a st = Some st'"
  shows "store_ok st' \<and>
    (\<forall>pid. allocators st a = Some pid \<longrightarrow> (pools st' pid = None) = (pointing pid (allocators st) = {a}))"
proof -
  obtain q p where a: "allocators st a = Some q" "pools st q = Some p"
    "st' = st\<lparr>pools := (pools st)(q := destroy p), allocators := (allocators st)(a := None)\<rparr>"
    using assms(2) by (auto simp: allocator_dtor_def deref_def split: option.splits)
  note d = destroy_pointing [OF assms(1) a(1,2)]
  have mem: "a \<in> pointing q (allocators st)" using a(1) by (simp add: pointing_iff)
  have others: "pointing s (allocators st) - {a} = pointing s (allocators st)" if "s \<noteq> q" for s
    using that a(1) by (auto simp: pointing_iff)
  have st': "pools st' = (pools st)(q := destroy p)" "allocators st' = (allocators st)(a := None)"
    by (simp_all add: a(3))
  have "store_ok st'"
    unfolding store_ok_def
  proof (intro conjI allI impI)
    show "finite (dom (allocators st'))" using assms(1) by (simp add: st' store_ok_def)
    have "card (dom (allocators st')) \<le> card (dom (allocators st))"
      using assms(1) by (intro card_mono) (auto simp: st' store_ok_def)
    also have "\<dots> < 2 ^ 64" using assms(1) by (simp add: store_ok_def)
    finally show "card (dom (allocators st')) < 2 ^ 64" .
    show "pid \<in> dom (pools st')" if "allocators st' b = Some pid" for b pid
      using that assms(1) d(2) pointing_iff [of b q "allocators st"]
      by (auto simp: st' store_ok_def split: if_splits)
    fix pid p'
    assume p': "pools st' pid = Some p'"
    have "unat (refs p') = card (pointing pid (allocators st')) \<and> pointing pid (allocators st') \<noteq> {}"
    proof (cases "pid = q")
      case True
      with p' d(2) mem have "p' = p\<lparr>refs := refs p - 1\<rparr>" "pointing q (allocators st) - {a} \<noteq> {}"
        by (auto simp: st'(1) split: if_splits)
      with d(1) True show ?thesis by (simp add: st'(2) pointing_remove)
    next
      case False
      with p' have "pools st pid = Some p'" by (simp add: st'(1))
      with assms(1) others [OF False] show ?thesis
        unfolding st'(2) pointing_remove store_ok_def by metis
    qed
    then show "unat (refs p') = card (pointing pid (allocators st'))" "pointing pid (allocators st') \<noteq> {}"
      by simp_all
  qed
  moreover have "\<forall>pid. allocators st a = Some pid \<longrightarrow> (pools st' pid = None) = (pointing pid (allocators st) = {a})"
    using a d(2) by (simp split: if_splits)
  ultimately show ?thesis ..
qed

section \<open>Properties\<close>

text \<open>
  C36. The blocks a pool has handed out since it was last empty lie inside its memory and do not
  overlap, after any sequence of allocations, refused ones included, and deallocations of live blocks,
  provided that no request is so large that its end, counted from an address of the pool, wraps around
  the 64-bit address space (\<open>alloc_wraps\<close> shows what becomes of one that does); once nothing is live the
  whole memory is free again.
\<close>

theorem blocks_disjoint:
  assumes "block_ok addr n" and "list_all (op_ok addr n) ops" and "length ops < 2 ^ 64"
    and "trace_ops ops (trace_start addr n) = Some tr"
  shows "(\<forall>(a, b) \<in> set (tr_blocks tr). unat addr \<le> a \<and> a \<le> b \<and> b \<le> unat addr + unat n) \<and>
    (\<forall>i j. i < j \<and> j < length (tr_blocks tr) \<longrightarrow> snd (tr_blocks tr ! j) \<le> fst (tr_blocks tr ! i)) \<and>
    tr_live tr \<le> length (tr_blocks tr) \<and> (tr_live tr = 0 \<longrightarrow> next_free (tr_pool tr) = addr)"
proof -
  have "trace_inv addr n tr"
    by (rule trace_ops_inv [OF trace_start_inv assms(1,2) _ assms(4)]) (use assms(3) in \<open>simp add: trace_start_def\<close>)
  then have inv: "descending (unat addr) (unat (next_free (tr_pool tr))) (tr_blocks tr)"
    "unat (next_free (tr_pool tr)) \<le> unat addr + unat n" "tr_live tr \<le> length (tr_blocks tr)"
    "tr_live tr = 0 \<longrightarrow> next_free (tr_pool tr) = addr"
    by (simp_all add: trace_inv_def)
  from descending_disjoint [OF inv(1)] inv(2-4) show ?thesis by fastforce
qed

theorem blocks_disjoint_witness:
  "\<exists>tr. trace_ops [Alloc 10, Alloc 20, Dealloc, Alloc 1000000, Alloc 30] (trace_start 1000 64) = Some tr \<and>
     tr_blocks tr = [(1030, 1060), (1010, 1030), (1000, 1010)] \<and>
     (\<forall>(a, b) \<in> set (tr_blocks tr). 1000 \<le> a \<and> a \<le> b \<and> b \<le> 1064)"
proof -
  let ?ops = "[Alloc 10, Alloc 20, Dealloc, Alloc 1000000, Alloc 30]"
  obtain tr where tr: "trace_ops ?ops (trace_start 1000 64) = Some tr"
    "tr_blocks tr = [(1030, 1060), (1010, 1030), (1000, 1010)]"
    by (simp add: trace_start_def construct_def alloc_def dealloc_def end_of_block_def)
  have "block_ok 1000 64" "list_all (op_ok 1000 64) ?ops" by (simp_all add: block_ok_def)
  with tr blocks_disjoint [of 1000 64 ?ops tr] show ?thesis by auto
qed

text \<open>
  An allocation whose end does not wrap around succeeds exactly when it leaves at least one byte free,
  and returns the first free address; so an empty pool refuses a request for exactly its size.
\<close>

theorem alloc_fits:
  assumes "block_ok (block p) (size_of_block p)" and "unat (next_free p) + unat m < 2 ^ 64"
  shows "alloc m p =
      (if unat (next_free p) + unat m < unat (block p) + unat (size_of_block p)
       then Inr (next_free p, p\<lparr>count := count p + 1, next_free := next_free p + m\<rparr>) else Inl Bad_alloc) \<and>
    alloc n (construct addr n) = Inl Bad_alloc"
  using alloc_exact(3) [OF assms] by (simp add: alloc_def construct_def end_of_block_def)

theorem alloc_fits_witness:
  "alloc 63 (construct 1000 64) = Inr (1000, (construct 1000 64)\<lparr>count := 1, next_free := 1063\<rparr>)"
  using alloc_fits [of "construct 1000 64" 63] by (simp add: construct_def block_ok_def)

text \<open>
  A request whose size wraps the address around is granted: the pool hands out its first free
  address and moves that pointer backwards, by the missing amount.
\<close>

theorem alloc_wraps:
  assumes "0 < k" and "k \<le> next_free p" and "next_free p \<le> end_of_block p"
  shows "alloc (- k) p = Inr (next_free p, p\<lparr>count := count p + 1, next_free := next_free p - k\<rparr>)"
proof -
  have "unat (next_free p - k) = unat (next_free p) - unat k" "0 < unat k"
    using assms(1,2) by (simp_all add: unat_sub word_less_nat_alt)
  then have "next_free p - k < end_of_block p"
    using assms(2,3) by (simp add: word_less_nat_alt word_le_nat_alt)
  then show ?thesis by (simp add: alloc_def Let_def linorder_not_le [symmetric])
qed

theorem alloc_wraps_witness:
  "alloc (- 8) (construct 1000 64) = Inr (1000, (construct 1000 64)\<lparr>count := 1, next_free := 992\<rparr>)"
  using alloc_wraps [of 8 "construct 1000 64"] by (simp add: construct_def end_of_block_def)

text \<open>
  C37. The reference counts: constructing an allocator, copying one and destroying one keep every pool
  alive that some allocator points to, with the right count, and a pool is deleted exactly when
  its last allocator is destroyed.
\<close>

theorem refcounts_exact:
  assumes "store_ok st"
  shows "(allocators st a = None \<and> card (dom (allocators st)) + 1 < 2 ^ 64 \<longrightarrow>
      (pools st pid = None \<longrightarrow> store_ok (allocator_ctor a pid addr n st)) \<and>
      (\<forall>b st'. allocator_copy a b st = Some st' \<longrightarrow> store_ok st')) \<and>
    (\<forall>st'. allocator_dtor a st = Some st' \<longrightarrow> store_ok st' \<and>
      (\<forall>q. allocators st a = Some q \<longrightarrow> (pools st' q = None) = (pointing q (allocators st) = {a})))"
  using store_ok_ctor [OF assms] store_ok_copy [OF assms] store_ok_dtor [OF assms] by blast

definition sample_store :: alloc_store where
  "sample_store = allocator_ctor 1 7 1000 64 \<lparr>pools = Map.empty, allocators = Map.empty\<rparr>"

lemma sample_store_ok: "store_ok sample_store"
proof -
  have "store_ok \<lparr>pools = Map.empty, allocators = Map.empty\<rparr>" by (simp add: store_ok_def)
  from store_ok_ctor [OF this] show ?thesis by (simp add: sample_store_def)
qed

theorem refcounts_exact_witness:
  "\<exists>st'. allocator_copy 2 1 sample_store = Some st' \<and> store_ok st'"
proof -
  have "allocator_copy 2 1 sample_store \<noteq> None"
    by (simp add: allocator_copy_def deref_def sample_store_def allocator_ctor_def)
  moreover have "card (dom (allocators sample_store)) + 1 < 2 ^ 64" "allocators sample_store 2 = None"
    by (simp_all add: sample_store_def allocator_ctor_def)
  ultimately show ?thesis using refcounts_exact [OF sample_store_ok, of 2] by blast
qed

text \<open>
  A copy of an allocator shares its pool but does not compare equal to it: the comparison looks at
  the addresses of the two pointers, not at the pools they point to.
\<close>

theorem copies_compare_unequal:
  assumes "allocator_copy a b st = Some st'" and "a \<noteq> b"
  shows "allocators st' a = allocators st' b \<and> allocators st' a \<noteq> None \<and> allocator_neq a b"
  using assms
  by (auto simp: allocator_copy_def deref_def allocator_neq_def allocator_eq_def split: option.splits)

theorem copies_compare_unequal_witness: "allocator_neq 2 1"
proof -
  obtain st' where "allocator_copy 2 1 sample_store = Some st'"
    by (simp add: allocator_copy_def deref_def sample_store_def allocator_ctor_def)
  from copies_compare_unequal [OF this] show ?thesis by simp
qed

text \<open>
  The implicit copy assignment breaks the counts: assigning one sole owner to another makes the
  destruction of both follow a pointer to a deleted pool, and leaves the other pool with no owner.
\<close>

theorem assignment_breaks_counts:
  assumes "store_ok st" and "pointing p (allocators st) = {a}" and "pointing q (allocators st) = {b}" and "a \<noteq> b"
  shows "\<exists>st'. allocator_dtor a (allocator_assign a b st) = Some st' \<and> allocator_dtor b st' = None \<and>
    pools st' p \<noteq> None \<and> pointing p (allocators st') = {}"
proof -
  have ab: "allocators st a = Some p" "allocators st b = Some q"
    using assms(2,3) by (auto simp: pointing_def)
  then have pq: "p \<noteq> q" using assms(2-4) by (auto simp: pointing_def)
  obtain x y where xy: "pools st p = Some x" "pools st q = Some y"
    using assms(1) ab by (auto simp: store_ok_def) blast
  have "unat (refs y) = 1" using assms(1,3) xy(2) by (simp add: store_ok_def)
  then have "refs y = 1" by (metis unat_1 unsigned_word_eqI)
  then show ?thesis
    using ab pq xy assms(2,4)
    by (auto simp: allocator_dtor_def allocator_assign_def deref_def destroy_def pointing_def)
qed

theorem assignment_breaks_counts_witness:
  "\<exists>st'. allocator_dtor 1 (allocator_assign 1 2 (allocator_ctor 2 8 2000 64 sample_store)) = Some st' \<and>
     allocator_dtor 2 st' = None"
proof -
  let ?st = "allocator_ctor 2 8 2000 64 sample_store"
  have "store_ok ?st"
    by (rule store_ok_ctor [OF sample_store_ok]) (simp_all add: sample_store_def allocator_ctor_def)
  moreover have "pointing 7 (allocators ?st) = {1}" "pointing 8 (allocators ?st) = {2}"
    by (auto simp: sample_store_def allocator_ctor_def pointing_def split: if_splits)
  ultimately show ?thesis using assignment_breaks_counts [of ?st 7 1 8 2] by auto
qed

text \<open>
  A default-constructed allocator can only be assigned to: unless the value left in its pointer happens
  to be the address of a live pool, copying it, using it and even destroying it follow that pointer
  into the void. After an assignment it is an alias of the other allocator.
\<close>

theorem default_allocator_dangles:
  assumes "pools st garbage = None"
  shows "allocator_copy b a (allocator_default_ctor a garbage st) = None \<and>
    allocate sizeof_T a n (allocator_default_ctor a garbage st) = None \<and>
    deallocate a (allocator_default_ctor a garbage st) = None \<and>
    allocator_dtor a (allocator_default_ctor a garbage st) = None \<and>
    (c \<noteq> a \<longrightarrow> deref a (allocator_assign a c (allocator_default_ctor a garbage st)) = deref c st)"
  using assms
  by (simp add: allocator_default_ctor_def allocator_copy_def allocate_def deallocate_def allocator_dtor_def
      allocator_assign_def deref_def split: option.split)

theorem default_allocator_dangles_witness:
  "allocator_dtor 1 (allocator_default_ctor 1 77 (allocator_ctor 0 5 4096 100 \<lparr>pools = Map.empty, allocators = Map.empty\<rparr>)) = None"
  using default_allocator_dangles [of "allocator_ctor 0 5 4096 100 \<lparr>pools = Map.empty, allocators = Map.empty\<rparr>" 77]
  by (simp add: allocator_ctor_def)

end
