(* ===== verification/Spec2Isabelle.thy ===== *)
theory Spec2Isabelle
  imports Session_Moves Contracts_Clients Watcher Shuffle Pool_Shutdown Examples Logger Static_Allocator
begin

text \<open>
  \<^bold>\<open>A verification library of stream-client\<close>, a C++ library of blocking, timeout-guarded network
  streams with connectors and connection pools (\<open>src/include/stream-client\<close>).

  \<^bold>\<open>The program.\<close> Every timed object derives from \<open>timed_base\<close>, which owns an \<open>io_service\<close> and a
  watchdog timer; an operation sets the timer's expiry, starts an asynchronous operation and runs
  the service until its handler has run. \<open>base_socket\<close> and its TCP and UDP descendants and the
  resolver are such objects; the SSL stream wraps a TCP client in a Boost SSL stream, the HTTP client
  drives a stream with a Boost.Beast serializer and parser. A connector resolves a host in a
  background thread and connects new sessions; a pool keeps a list of connected sessions, filled
  by a watcher thread through a reconnection strategy that calls the connector. Two example programs
  send HTTP requests from several threads, through a connector or through a pool.

  \<^bold>\<open>Theories\<close>, in the order they build on each other, with the sources they model:
  \<^item> \<open>Prelude\<close>: clock ticks (signed 64-bit, wrap-around written out), error codes, exceptions as the left
    side of a sum, decimal printing, and the record \<open>asio\<close> of what is taken from Boost.Asio.
  \<^item> \<open>Runs\<close>: runs of labelled step relations. The locale \<open>labelled_system\<close> is the interface of the four
    interleaving machines below, each of which interprets it; \<open>labelled_projection\<close> says that a composed
    machine shows runs of its parts. A lemma on ranks turns fair scheduling into termination of a thread.
  \<^item> \<open>Timed_Base\<close> (\<open>detail/timed_base.hpp\<close>): the record \<open>timed_base\<close>, RAII expirations, the watchdog and the
    blocking wait \<open>io_run\<close> over a list of events. The locale \<open>timed_object\<close> is the interface to a
    derived class: what its \<open>deadline_actor\<close> may do; inside it the outcome of a wait is proved once.
    \<open>Timed_Move\<close> has the same class in memory: addresses, owning pointers and the \<open>this\<close> that the posted
    handler captured, with the defaulted moves; undefined behaviour is a value \<open>fault\<close>. \<open>Session_Moves\<close>
    builds the moves of SSL and HTTP sockets on it.
  \<^item> \<open>Base_Socket\<close> (\<open>stream/base_socket\<close>): state, connect, close, options, timeouts; interprets
    \<open>timed_object\<close>. \<open>Stream_Socket\<close> and \<open>Dgram_Socket\<close> (\<open>stream/stream_socket\<close>, \<open>stream/dgram_socket\<close>):
    transfers and overloads.
  \<^item> \<open>Resolver\<close> (\<open>resolver/resolver\<close>): the second timed object.
  \<^item> \<open>Connector\<close> (\<open>connector/connector\<close>): member functions, \<open>new_session\<close>, and the machine \<open>conn_step\<close> in which
    the resolving thread and any number of callers interleave. \<open>Shuffle\<close> has the choice of the
    endpoint (\<open>shuffle_vector\<close>: one 32-bit seed, a generator as a parameter, the loop of \<open>std::shuffle\<close>),
    \<open>Connector_Threads\<close> what callers and the destructor wait for.
  \<^item> \<open>Pool_Strategy\<close> (\<open>connector/pool_strategy\<close>): the greedy and the conservative strategy on 64-bit words,
    the random factor in IEEE binary64; the locale \<open>pool_strategy\<close> is the contract the pool relies on,
    interpreted for both.
  \<^item> \<open>Connection_Pool\<close> (\<open>connector/connection_pool\<close>): member functions, the watcher's round, and the machine
    \<open>pool_step\<close>; the locale \<open>watched_pool\<close> extends \<open>pool_strategy\<close> with what a round promises.
    \<open>Watcher\<close>: the whole loop of the watcher as a function, and as runs of that machine. \<open>Pool_Clients\<close>: how
    many connections there are while clients hold sessions, and the machine \<open>wait_step\<close> with the threads
    that block on \<open>pool_cv_\<close> and the notifications that wake them, which shows runs of \<open>pool_step\<close>.
  \<^item> \<open>Pool_System\<close>: the pool at work, \<open>system_step\<close>: the pool's machine and its connector's machine composed
    through the threads of a refill, each of which calls \<open>new_session\<close> once and appends its result.
    \<open>Pool_Shutdown\<close>: the destructors of both on that machine.
  \<^item> \<open>Ssl_Socket\<close> and \<open>Http_Socket\<close> (\<open>stream/ssl_stream_socket\<close>, \<open>stream/http_socket\<close>). The HTTP client sees its
    stream through the locale \<open>http_transport\<close>; \<open>Http_Session\<close> interprets it on the TCP client and on the SSL
    stream and joins sessions with the pool.
  \<^item> \<open>Logger\<close> (\<open>logger.hpp\<close>, \<open>impl/logger.ipp\<close>); \<open>Static_Allocator\<close> (\<open>stream/detail/static_allocator.hpp\<close>).
  \<^item> \<open>Uri\<close> (\<open>struct ParsedURI\<close> of \<open>src/example/http\<close>): the regular expression, an ordered backtracking matcher and
    the declarative meaning of expressions as an inductive relation, which carries the proofs about the pattern
    of the programs. \<open>Examples\<close>: the two programs.
  \<^item> \<open>Contracts\<close> and \<open>Contracts_Clients\<close>: what the comments of the public headers promise, as predicates (specifications, not
    translations of code), and how far the code keeps it.
  \<^item> This theory: \<open>connect_until\<close> of the SSL and HTTP connectors and properties that span components.

  \<^bold>\<open>How state and effects are modelled.\<close> A class is a record, a derived class an extension of its
  base's record; a member function takes and returns the record. An exception is \<open>Inl\<close>; a call that
  blocks or loops for ever is \<open>None\<close>. What the environment decides is an argument: the completions
  and timer events of an operation as a list, clock readings, results of Boost's synchronous calls,
  whether a lock was acquired in time, the order in which concurrent connects come back. Threads are
  program counters of a step relation whose steps are the critical sections of the code; labels
  record what happened, and the invariants are proved by rule induction over runs.

  \<^bold>\<open>What is shown.\<close> Deadlines: connect, transfers and resolves report \<open>timed_out\<close> and close or cancel exactly
  when the deadline was reached before the completion, on every branch, and leave no deadline
  behind. Connector: requests for new endpoints are not lost, sessions go to published endpoints, a
  null session comes with an error, the sequential function refines the machine, the shuffle
  permutes the endpoints, the resolving thread leaves when it is told to. Strategies: number
  of connects, bounds of the back-off without wrap-around. Pool: a first-in first-out queue under all
  interleavings, no double hand-out, eviction, what a round adds and when it fills the pool; the number of connections is at
  most the size plus the sessions that clients hold; blocking calls refine the atomic ones, and among
  callers of \<open>get_session\<close> no wake-up is lost; the watcher's loop with either strategy is a run of the machine. Pool and connector
  together: every session that was connected is accounted for, what clients get was connected to a
  resolved endpoint or put back by a client, the destructors neither race nor hang. SSL: the mode is
  restored, what the loops of \<open>send\<close> and \<open>receive\<close> give for any sequence of partial transfers; HTTP: the request is sent whole over either stream, a call whose deadline passes returns, a
  response is complete, and the session that gave it is open and goes back to the pool if the lock is got in time.
  Allocator: disjoint blocks as long as no request wraps around the address space, and exact reference counts. Logger:
  filtering. URLs: the URLs that are accepted, parsing inverts printing. Examples:
  exit codes, one line per request, a pool thread is a run of the pool's machine that gives back the session it took. Objects in memory
  refine to the value model as long as they are not moved, and SSL sockets also when they are. The
  expectations of the logger's test hold. Several theorems state defects of the
  code exactly: moved timed objects, a close that leaves the socket open, retries
  without deadline, SSL loops that run past the size until a call fails, SSL transfers that repeat or overwrite data, overflowing deadlines, a
  watcher that spins, a \<open>new_session\<close> that outlives its deadline, a wake-up that \<open>is_connected\<close> takes from
  \<open>get_session\<close>, a pool larger than documented, late results that come with an error, the
  level \<open>mute\<close>, the allocator's assignment.

  \<^bold>\<open>Bounds and termination.\<close> There is no fuel. Loops over events end with the events (\<open>transfer_loop\<close> has a
  measure); loops that may not end are \<open>partial_function (option)\<close>, and that they return, where
  claimed, is part of the theorem. Threads are shown to end in every execution in which they keep being
  scheduled; the bounds on what they can still do are ranks of their program counters. Sizes of the pool are assumed to be at most \<open>2^60\<close> where the
  strategy's arithmetic on \<open>std::size_t\<close> has to be exact.

  \<^bold>\<open>Not modelled.\<close> Boost.Asio, Beast and OpenSSL (parameters, with named hypotheses such as
  \<open>timer_saturates\<close>, \<open>layer_keeps\<close>, \<open>calls_complete\<close>, \<open>serializer_ok\<close>, \<open>buffer_ok\<close>, \<open>peers_answer\<close>); failures to create threads
  or to allocate memory; accessors that return a reference to an inner object of Boost; type aliases and
  deleted members, which have no behaviour; the tests that run against servers, and the build files.
\<close>

section \<open>The other connectors\<close>

text \<open>
  \<open>connect_until\<close> of the SSL, HTTP and HTTPS connectors: the constructor of the client type, with the
  time left as its connect timeout. \<open>t\<close> is the clock reading of the subtraction.
\<close>

definition ssl_connect_until ::
  "asio \<Rightarrow> sock_env \<Rightarrow> ssl_layer \<Rightarrow> tick \<Rightarrow> tick \<Rightarrow> tick \<Rightarrow> tick \<Rightarrow> tick \<Rightarrow> tick \<Rightarrow> tick \<Rightarrow> unit io_event list
     \<Rightarrow> 'ep \<Rightarrow> tick \<Rightarrow> 'ep connector \<Rightarrow> (exn + base_socket) option" where
  "ssl_connect_until A E L t now t0 t1 t2 t3 t4 es peer until_time c =
     ssl_socket_ctor A E L now t0 t1 t2 t3 t4 es
       \<lparr>peer_endpoint = peer, cfg_connect_timeout = tick_sub until_time t, cfg_operation_timeout = c_operation_timeout c\<rparr> True"

definition http_connect_until ::
  "(64 word \<Rightarrow> 'b) \<Rightarrow> asio \<Rightarrow> sock_env \<Rightarrow> tick \<Rightarrow> tick \<Rightarrow> tick \<Rightarrow> tick \<Rightarrow> unit io_event list \<Rightarrow> tick \<Rightarrow> 'ep connector
     \<Rightarrow> (exn + (base_socket, 'b) http_socket) option" where
  "http_connect_until make_buffer A E t t0 t1 t2 es until_time c =
     map_option (map_sum id (http_socket_ctor make_buffer)) (connect_until A E t t0 t1 t2 es until_time c)"

definition https_connect_until ::
  "(64 word \<Rightarrow> 'b) \<Rightarrow> asio \<Rightarrow> sock_env \<Rightarrow> ssl_layer \<Rightarrow> tick \<Rightarrow> tick \<Rightarrow> tick \<Rightarrow> tick \<Rightarrow> tick \<Rightarrow> tick \<Rightarrow> tick
     \<Rightarrow> unit io_event list \<Rightarrow> 'ep \<Rightarrow> tick \<Rightarrow> 'ep connector \<Rightarrow> (exn + (base_socket, 'b) http_socket) option" where
  "https_connect_until make_buffer A E L t now t0 t1 t2 t3 t4 es peer until_time c =
     map_option (map_sum id (http_socket_ctor make_buffer))
       (ssl_connect_until A E L t now t0 t1 t2 t3 t4 es peer until_time c)"

section \<open>Properties that span components\<close>

text \<open>
  A session that a TCP connector has connected in time is accepted by the pool: it is open, its I/O
  timeout is the connector's operation timeout, and returning it puts it at the end of the list.
\<close>

theorem connected_session_pooled:
  assumes "completes es t err ()" and "timer_saturates A" and "0 \<le> t0" and "0 \<le> t2" and "clock_ok es"
    and "connect_until A E now t0 t1 t2 es until_time c = Some (Inr session)"
  shows "io_timeout session = get_operation_timeout c \<and>
    sesson_pool (return_session is_open True later (Some session) p) = sesson_pool p @ [(later, session)]"
proof -
  have "Base_Socket.connected session (tick_sub until_time now) (c_operation_timeout c)"
    using connect_outcome_branches [OF assms(1-5), of E t1 "tick_sub until_time now" "c_operation_timeout c"] assms(6)
    by (auto simp: connect_until_def split: option.splits)
  then show ?thesis
    by (simp add: Base_Socket.connected_def return_session_def get_operation_timeout_def)
qed

theorem connected_session_pooled_witness:
  "\<exists>session. connect_until linux_asio sample_env 5 0 10 3000 [Deadline 20 21, Completed 2000 Success ()] 1000005
       sample_connector = Some (Inr session) \<and> io_timeout session = 100000000"
proof -
  let ?es = "[Deadline 20 21, Completed 2000 Success ()]"
  have fin: "completes ?es 2000 Success ()" by (simp add: completes_def)
  have sub: "tick_sub 1000005 5 = 1000000" by (simp add: tick_sub_def wrap64_def)
  have "connect_error linux_asio sample_env 0 10 ?es 1000000 Success = None"
    by (simp add: connect_error_def connect_expiry_def linux_asio_def sample_env_def connect_options_def duration_defs)
  then obtain session where c: "connect_until linux_asio sample_env 5 0 10 3000 ?es 1000005 sample_connector =
      Some (Inr session)"
    using connect_outcome_branches [of ?es 2000 Success linux_asio 0 3000 sample_env 10 1000000 100000000] fin
    by (auto simp: connect_until_def sub sample_connector_def connector_ctor_def tick_max_def)
  from connected_session_pooled [OF fin linux_asio_saturates _ _ _ c] c show ?thesis
    by (auto simp: sample_connector_def connector_ctor_def get_operation_timeout_def tick_max_def)
qed

text \<open>
  Closing a TCP session and the pool: when the shutdown succeeds, \<open>close\<close> reports success but leaves
  the socket open, and the pool takes the session back; only a socket whose peer is gone already
  is really closed, and that one the pool refuses.
\<close>

theorem closed_session_reenters_pool:
  assumes "is_open s"
  shows "stream_close Success E s = (Success, s) \<and>
    sesson_pool (return_session is_open True now (Some (snd (stream_close Success E s))) p) = sesson_pool p @ [(now, s)] \<and>
    return_session is_open True now (Some (snd (stream_close Not_connected E s))) p = p"
  using assms by (simp add: stream_close_def return_session_def base_close_def is_open_def)

theorem closed_session_reenters_pool_witness:
  "sesson_pool (return_session is_open True 7 (Some (snd (stream_close Success sample_env sample_socket)))
     (pool_ctor 2 1000 sample_connector)) = [(7, sample_socket)]"
proof -
  have "is_open sample_socket" by (simp add: sample_socket_def is_open_def)
  moreover have "sesson_pool (pool_ctor 2 1000 sample_connector) = []" by (simp add: pool_ctor_def)
  ultimately show ?thesis using closed_session_reenters_pool by (metis append_Nil)
qed

end
